(* ===== verification/Prelude.thy ===== *)
theory Prelude
  imports Main "HOL-Library.Word" "HOL-Library.List_Lexorder"
begin

text \<open>
  Shared vocabulary of the development.

  \<^item> \<^emph>\<open>Outcomes.\<close> A Rust call returns a value, returns an error (\<open>Err\<close>) or panics. The type
    \<open>('e, 'a) outcome\<close> keeps the three apart; \<open>and_then\<close> is the \<open>?\<close> operator, \<open>collect\<close> is
    \<open>iter().map(f).collect::<Result<Vec<_>>>()\<close> and \<open>map_err\<close> is the error conversion that \<open>?\<close>
    performs through \<open>From\<close>.
  \<^item> \<^emph>\<open>Machine integers.\<close> Fields that are stored in a struct keep their width as a word. Local
    counters of type \<open>u32\<close>, \<open>usize\<close> and \<open>i32\<close> are natural numbers or integers, and every addition
    or subtraction the code performs on them goes through \<open>uadd\<close> / \<open>usub\<close>, which panic on overflow:
    the semantics of the default build profile (\<open>overflow-checks\<close> on). A theorem that concludes
    with \<open>Ok\<close> therefore also shows that no operation overflowed, in which case the release profile
    computes the same value.
  \<^item> \<^emph>\<open>Bytes.\<close> \<open>Vec<u8>\<close>, \<open>&[u8]\<close>, \<open>OsStr\<close> and \<open>[u8; N]\<close> are byte lists.
\<close>

named_theorems outcome_intros \<open>introduction rules for successful outcomes\<close>

unbundle bit_operations_syntax

type_synonym u8 = "8 word"
type_synonym u16 = "16 word"
type_synonym u32 = "32 word"
type_synonym u64 = "64 word"
type_synonym bytes = "u8 list"

section \<open>Outcomes\<close>

datatype panic =
    ArithOverflow
  | IndexOutOfBounds
  | UnwrapFailed
  | AssertFailed
  | NotImplemented
  | ExplicitPanic

datatype ('e, 'a) outcome =
    Ok 'a
  | Err 'e
  | Panic panic

fun and_then :: "('e, 'a) outcome \<Rightarrow> ('a \<Rightarrow> ('e, 'b) outcome) \<Rightarrow> ('e, 'b) outcome" where
  "and_then (Ok x) f = f x"
| "and_then (Err e) f = Err e"
| "and_then (Panic p) f = Panic p"

fun map_err :: "('e \<Rightarrow> 'f) \<Rightarrow> ('e, 'a) outcome \<Rightarrow> ('f, 'a) outcome" where
  "map_err g (Ok x) = Ok x"
| "map_err g (Err e) = Err (g e)"
| "map_err g (Panic p) = Panic p"

fun map_ok :: "('a \<Rightarrow> 'b) \<Rightarrow> ('e, 'a) outcome \<Rightarrow> ('e, 'b) outcome" where
  "map_ok g (Ok x) = Ok (g x)"
| "map_ok g (Err e) = Err e"
| "map_ok g (Panic p) = Panic p"

fun ok_or :: "'a option \<Rightarrow> 'e \<Rightarrow> ('e, 'a) outcome" where
  "ok_or None e = Err e"
| "ok_or (Some x) e = Ok x"

fun unwrap_option :: "'a option \<Rightarrow> ('e, 'a) outcome" where
  "unwrap_option None = Panic UnwrapFailed"
| "unwrap_option (Some x) = Ok x"

fun collect :: "('a \<Rightarrow> ('e, 'b) outcome) \<Rightarrow> 'a list \<Rightarrow> ('e, 'b list) outcome" where
  "collect f [] = Ok []"
| "collect f (x # xs) = and_then (f x) (\<lambda>y. and_then (collect f xs) (\<lambda>ys. Ok (y # ys)))"

fun is_panic :: "('e, 'a) outcome \<Rightarrow> bool" where
  "is_panic (Panic p) = True"
| "is_panic r = False"

text \<open>
  Code whose effects are recorded pairs the effects so far with its outcome, so that an early return
  keeps them; \<open>act_then\<close> is the \<open>?\<close> operator for it.
\<close>

definition act_then ::
    "'s \<times> ('e, 'a) outcome \<Rightarrow> ('s \<Rightarrow> 'a \<Rightarrow> 's \<times> ('e, 'b) outcome) \<Rightarrow> 's \<times> ('e, 'b) outcome" where
  "act_then a f =
     (case a of (s, Ok x) \<Rightarrow> f s x | (s, Err e) \<Rightarrow> (s, Err e) | (s, Panic p) \<Rightarrow> (s, Panic p))"

section \<open>Checked machine arithmetic\<close>

definition uadd :: "nat \<Rightarrow> nat \<Rightarrow> nat \<Rightarrow> ('e, nat) outcome" where
  "uadd w a b = (if a + b < 2 ^ w then Ok (a + b) else Panic ArithOverflow)"

definition usub :: "nat \<Rightarrow> nat \<Rightarrow> ('e, nat) outcome" where
  "usub a b = (if b \<le> a then Ok (a - b) else Panic ArithOverflow)"

definition list_get :: "'a list \<Rightarrow> nat \<Rightarrow> ('e, 'a) outcome" where
  "list_get xs i = (if i < length xs then Ok (xs ! i) else Panic IndexOutOfBounds)"

text \<open>\<open>usize::try_into::<u32>()\<close>.\<close>

definition try_into_u32 :: "'e \<Rightarrow> nat \<Rightarrow> ('e, nat) outcome" where
  "try_into_u32 e n = (if n < 2 ^ 32 then Ok n else Err e)"

text \<open>\<open><[u8; N]>::try_from(&[u8])\<close>.\<close>

definition try_into_array :: "'e \<Rightarrow> nat \<Rightarrow> bytes \<Rightarrow> ('e, bytes) outcome" where
  "try_into_array e n xs = (if length xs = n then Ok xs else Err e)"

section \<open>Lemmas on outcomes\<close>

lemma and_then_cong [fundef_cong]:
  assumes "m = m'" and "\<And>x. m' = Ok x \<Longrightarrow> f x = f' x"
  shows "and_then m f = and_then m' f'"
  using assms by (cases m') auto

lemma and_then_Ok_iff [simp]: "and_then m f = Ok y \<longleftrightarrow> (\<exists>x. m = Ok x \<and> f x = Ok y)"
  by (cases m) auto

lemma and_then_Ok_iff2 [simp]: "Ok y = and_then m f \<longleftrightarrow> (\<exists>x. m = Ok x \<and> f x = Ok y)"
  by (cases m) auto

lemma and_then_assoc: "and_then (and_then m f) g = and_then m (\<lambda>x. and_then (f x) g)"
  by (cases m) auto

lemma and_then_Ok_right [simp]: "and_then m Ok = m"
  by (cases m) auto

lemma map_err_Ok_iff [simp]: "map_err g m = Ok x \<longleftrightarrow> m = Ok x"
  by (cases m) auto

lemma map_ok_Ok_iff [simp]: "map_ok g m = Ok y \<longleftrightarrow> (\<exists>x. m = Ok x \<and> y = g x)"
  by (cases m) auto

lemma ok_or_Ok_iff [simp]: "ok_or opt e = Ok x \<longleftrightarrow> opt = Some x"
  by (cases opt) auto

lemma unwrap_option_Ok_iff [simp]: "unwrap_option opt = Ok x \<longleftrightarrow> opt = Some x"
  by (cases opt) auto

lemma uadd_Ok_iff [simp]: "uadd w a b = Ok c \<longleftrightarrow> a + b < 2 ^ w \<and> c = a + b"
  by (auto simp: uadd_def)

lemma usub_Ok_iff [simp]: "usub a b = Ok c \<longleftrightarrow> b \<le> a \<and> c = a - b"
  by (auto simp: usub_def)

lemma list_get_Ok_iff [simp]: "list_get xs i = Ok x \<longleftrightarrow> i < length xs \<and> x = xs ! i"
  by (auto simp: list_get_def)

lemma try_into_u32_Ok_iff [simp]: "try_into_u32 e n = Ok m \<longleftrightarrow> n < 2 ^ 32 \<and> m = n"
  by (auto simp: try_into_u32_def)

lemma try_into_array_Ok_iff [simp]: "try_into_array e n xs = Ok ys \<longleftrightarrow> length xs = n \<and> ys = xs"
  by (auto simp: try_into_array_def)

lemma collect_Ok_iff: "collect f xs = Ok ys \<longleftrightarrow> list_all2 (\<lambda>x y. f x = Ok y) xs ys"
  by (induction xs arbitrary: ys) (auto simp: list_all2_Cons1)

lemma collect_OkI [outcome_intros]: "list_all2 (\<lambda>x y. f x = Ok y) xs ys \<Longrightarrow> collect f xs = Ok ys"
  by (simp add: collect_Ok_iff)

lemma collect_cong [fundef_cong]:
  "xs = ys \<Longrightarrow> (\<And>x. x \<in> set ys \<Longrightarrow> f x = g x) \<Longrightarrow> collect f xs = collect g ys"
proof (induction ys arbitrary: xs)
  case (Cons y ys)
  then show ?case by (auto intro!: and_then_cong)
qed auto

lemma collect_map: "collect f (map g xs) = collect (f \<circ> g) xs"
  by (induction xs) auto

lemma collect_total: "(\<And>x. x \<in> set xs \<Longrightarrow> f x = Ok (g x)) \<Longrightarrow> collect f xs = Ok (map g xs)"
  by (induction xs) auto

lemma collect_length: "collect f xs = Ok ys \<Longrightarrow> length ys = length xs"
  by (auto simp: collect_Ok_iff dest: list_all2_lengthD)

lemma collect_in_set: "collect f xs = Ok ys \<Longrightarrow> y \<in> set ys \<Longrightarrow> \<exists>x\<in>set xs. f x = Ok y"
  by (induction xs arbitrary: ys) auto

text \<open>
  The round-trip rule for lists: whatever encodes and decodes each element encodes and decodes
  the list.
\<close>

lemma collect_roundtrip:
  assumes "collect enc xs = Ok ys"
    and "\<And>x y. x \<in> set xs \<Longrightarrow> enc x = Ok y \<Longrightarrow> dec y = Ok x"
  shows "collect dec ys = Ok xs"
  using assms by (induction xs arbitrary: ys) auto

lemma collect_not_panic:
  "(\<And>x. x \<in> set xs \<Longrightarrow> \<not> is_panic (f x)) \<Longrightarrow> \<not> is_panic (collect f xs)"
proof (induction xs)
  case (Cons x xs)
  then have "\<not> is_panic (f x)" and "\<not> is_panic (collect f xs)" by auto
  then show ?case by (cases "f x"; cases "collect f xs") auto
qed simp

lemma is_panic_and_then [simp]:
  "is_panic (and_then m f) \<longleftrightarrow> is_panic m \<or> (\<exists>x. m = Ok x \<and> is_panic (f x))"
  by (cases m) auto

lemma is_panic_map_err [simp]: "is_panic (map_err g m) = is_panic m"
  by (cases m) auto

lemma act_then_simps [simp]:
  "act_then (s, Ok x) f = f s x" "act_then (s, Err e) f = (s, Err e)" "act_then (s, Panic p) f = (s, Panic p)"
  by (simp_all add: act_then_def)

lemma act_then_cases:
  assumes "act_then a f = (s', r)"
  obtains (fails) "fst a = s'" "\<not> (\<exists>x. r = Ok x)"
    | (continues) s x where "a = (s, Ok x)" "f s x = (s', r)"
  using assms by (cases a; cases "snd a") (auto simp: act_then_def)

section \<open>Bounds of words\<close>

lemma unat_u8_bound: "unat (x :: u8) < 256"
  using unsigned_less [of x] by simp

lemma unat_u32_bound: "unat (x :: u32) < 2 ^ 32"
  using unsigned_less [of x] by simp

lemma unat_u64_bound: "unat (x :: u64) < 2 ^ 64"
  using unsigned_less [of x] by simp

section \<open>Lemmas on lists\<close>

lemma find_Some_first:
  "List.find P xs = Some x \<Longrightarrow> \<exists>us vs. xs = us @ x # vs \<and> P x \<and> (\<forall>u\<in>set us. \<not> P u)"
proof (induction xs)
  case (Cons y ys)
  show ?case
  proof (cases "P y")
    case True
    with Cons.prems show ?thesis by (auto intro: exI [of _ "[]"])
  next
    case False
    with Cons obtain us vs where "ys = us @ x # vs" "P x" "\<forall>u\<in>set us. \<not> P u" by auto
    with False show ?thesis by (intro exI [of _ "y # us"] exI [of _ vs]) auto
  qed
qed simp

lemma find_append:
  "List.find P (xs @ ys) = (case List.find P xs of None \<Rightarrow> List.find P ys | Some x \<Rightarrow> Some x)"
  by (induction xs) auto

lemma find_None_set: "List.find P xs = None \<longleftrightarrow> (\<forall>x\<in>set xs. \<not> P x)"
  by (induction xs) auto

lemma Max_sorted_last: "sorted xs \<Longrightarrow> xs \<noteq> [] \<Longrightarrow> Max (set xs) = (last xs :: 'a::linorder)"
  by (induction xs) (auto simp: max_def)

lemma drop_take_slice: "take n (drop m xs) = drop m (take (m + n) xs)"
  by (simp add: drop_take)

end
