(* ===== verification/Wire_Error.thy ===== *)
theory Wire_Error
  imports Prelude
begin

text \<open>
  \<open>puzzlefs-lib/src/format/error.rs\<close>: the error type of the library and its mapping to the errno
  values the FUSE replies carry. Backtraces and the formatted message texts are left out; the
  payloads that decide control flow or the reply are kept.
\<close>

section \<open>Errno values and I/O errors\<close>

datatype errno =
    ENOENT | EEXIST | ENOTDIR | EINVAL | ESPIPE | EROFS | ERANGE | ENOLCK | ENOSYS | ENODATA

fun errno_code :: "errno \<Rightarrow> int" where
  "errno_code ENOENT = 2"
| "errno_code EEXIST = 17"
| "errno_code ENOTDIR = 20"
| "errno_code EINVAL = 22"
| "errno_code ESPIPE = 29"
| "errno_code EROFS = 30"
| "errno_code ERANGE = 34"
| "errno_code ENOLCK = 37"
| "errno_code ENOSYS = 38"
| "errno_code ENODATA = 61"

text \<open>
  \<open>std::io::Error\<close>: either an error code of the operating system or an error constructed in the
  program from a kind. \<open>io_kind\<close> is \<open>io::Error::kind()\<close>, which decodes an OS code.
\<close>

datatype io_error_kind = NotFound | AlreadyExists | OtherKind

datatype io_error = OsError int | CustomError io_error_kind

fun io_kind :: "io_error \<Rightarrow> io_error_kind" where
  "io_kind (OsError c) =
     (if c = errno_code ENOENT then NotFound
      else if c = errno_code EEXIST then AlreadyExists
      else OtherKind)"
| "io_kind (CustomError k) = k"

fun raw_os_error :: "io_error \<Rightarrow> int option" where
  "raw_os_error (OsError c) = Some c"
| "raw_os_error (CustomError k) = None"

type_synonym 'a io_result = "(io_error, 'a) outcome"

section \<open>The error type of the wire format\<close>

datatype WireFormatError =
    LocalRefError
  | SeekOtherError
  | InvalidSerializedData
  | InvalidImageSchema int
  | InvalidImageVersion
  | InvalidFsVerityData
  | MissingManifest string
  | MissingRootfs
  | IOError io_error
  | CapnpError
  | FromIntError
  | JSONError
  | FromSliceError
  | HexError
  | OciError
  | OciDirError

type_synonym 'a wire_result = "(WireFormatError, 'a) outcome"

fun to_errno :: "WireFormatError \<Rightarrow> int" where
  "to_errno LocalRefError = errno_code EINVAL"
| "to_errno SeekOtherError = errno_code ESPIPE"
| "to_errno InvalidSerializedData = errno_code EINVAL"
| "to_errno (InvalidImageSchema n) = errno_code EINVAL"
| "to_errno InvalidImageVersion = errno_code EINVAL"
| "to_errno InvalidFsVerityData = errno_code EINVAL"
| "to_errno (MissingManifest t) = errno_code EINVAL"
| "to_errno MissingRootfs = errno_code EINVAL"
| "to_errno (IOError ioe) =
     (case raw_os_error ioe of Some c \<Rightarrow> c | None \<Rightarrow> errno_code EINVAL)"
| "to_errno CapnpError = errno_code EINVAL"
| "to_errno JSONError = errno_code EINVAL"
| "to_errno HexError = errno_code EINVAL"
| "to_errno FromIntError = errno_code EINVAL"
| "to_errno FromSliceError = errno_code EINVAL"
| "to_errno OciError = errno_code EINVAL"
| "to_errno OciDirError = errno_code EINVAL"

definition from_errno :: "errno \<Rightarrow> WireFormatError" where
  "from_errno e = IOError (OsError (errno_code e))"

lemma to_errno_from_errno [simp]: "to_errno (from_errno e) = errno_code e"
  by (simp add: from_errno_def)

lemma errno_code_inj: "errno_code a = errno_code b \<longleftrightarrow> a = b"
  by (cases a; cases b) simp_all

lemma from_errno_inj [simp]: "from_errno a = from_errno b \<longleftrightarrow> a = b"
  by (auto simp: from_errno_def errno_code_inj)

lemma errno_code_pos: "0 < errno_code e"
  by (cases e) simp_all

end
