(* ===== verification/Btree_Map.thy ===== *)
theory Btree_Map
  imports Prelude
begin

text \<open>
  \<open>std::collections::BTreeMap\<close>, the container of \<open>VerityData\<close> (\<open>format/types.rs\<close>): a map that is
  iterated in key order. The model is the strictly key-sorted association list. The contract the
  clients rely on is the locale \<open>ordered_map\<close>; it is interpreted on the sorted list at the end.
\<close>

section \<open>The sorted association list\<close>

fun btree_insert :: "'k::linorder \<Rightarrow> 'v \<Rightarrow> ('k \<times> 'v) list \<Rightarrow> ('k \<times> 'v) list" where
  "btree_insert k v [] = [(k, v)]"
| "btree_insert k v ((k', v') # m) =
     (if k < k' then (k, v) # (k', v') # m
      else if k = k' then (k, v) # m
      else (k', v') # btree_insert k v m)"

definition btree_get :: "('k \<times> 'v) list \<Rightarrow> 'k \<Rightarrow> 'v option" where
  "btree_get m = map_of m"

definition btree_invar :: "('k::linorder \<times> 'v) list \<Rightarrow> bool" where
  "btree_invar m \<longleftrightarrow> sorted_wrt (<) (map fst m)"

text \<open>\<open>extend\<close> and \<open>collect\<close> insert the entries one after the other.\<close>

definition insert_all :: "('k \<Rightarrow> 'v \<Rightarrow> 'm \<Rightarrow> 'm) \<Rightarrow> 'm \<Rightarrow> ('k \<times> 'v) list \<Rightarrow> 'm" where
  "insert_all ins m xs = fold (\<lambda>(k, v) m. ins k v m) xs m"

section \<open>The contract of an ordered map\<close>

locale ordered_map =
  fixes empty :: 'm
    and ins :: "'k::linorder \<Rightarrow> 'v \<Rightarrow> 'm \<Rightarrow> 'm"
    and get :: "'m \<Rightarrow> 'k \<Rightarrow> 'v option"
    and iter :: "'m \<Rightarrow> ('k \<times> 'v) list"
    and invar :: "'m \<Rightarrow> bool"
  assumes invar_empty: "invar empty"
    and invar_ins: "invar m \<Longrightarrow> invar (ins k v m)"
    and get_empty: "get empty k = None"
    and get_ins: "invar m \<Longrightarrow> get (ins k v m) = (get m)(k \<mapsto> v)"
    and get_iter: "invar m \<Longrightarrow> get m = map_of (iter m)"
    and iter_distinct: "invar m \<Longrightarrow> distinct (map fst (iter m))"
    and canonical: "invar m \<Longrightarrow> invar m' \<Longrightarrow> get m = get m' \<Longrightarrow> m = m'"
begin

lemma insert_all_Cons: "insert_all ins m ((k, v) # xs) = insert_all ins (ins k v m) xs"
  by (simp add: insert_all_def)

lemma invar_insert_all: "invar m \<Longrightarrow> invar (insert_all ins m xs)"
  by (induction xs arbitrary: m) (auto simp: insert_all_def invar_ins)

lemma get_insert_all: "invar m \<Longrightarrow> get (insert_all ins m xs) = get m ++ map_of (rev xs)"
proof (induction xs arbitrary: m)
  case (Cons kv xs)
  obtain k v where kv: "kv = (k, v)" by (cases kv)
  with Cons show ?case
    by (simp add: insert_all_Cons invar_ins get_ins map_add_def fun_eq_iff split: option.splits)
qed (simp add: insert_all_def)

lemma insert_all_iter: "invar m \<Longrightarrow> insert_all ins empty (iter m) = m"
proof (rule canonical)
  assume m: "invar m"
  have "map_of (rev (iter m)) = map_of (iter m)"
    using iter_distinct [OF m] by (intro map_of_inject_set [THEN iffD2]) (auto simp: rev_map [symmetric])
  then show "get (insert_all ins empty (iter m)) = get m"
    by (simp add: get_insert_all invar_empty get_empty get_iter [OF m] map_add_def fun_eq_iff
        split: option.splits)
qed (simp_all add: invar_insert_all invar_empty)

lemma insert_all_perm:
  assumes "invar m" and "distinct (map fst xs)" and "distinct (map fst ys)" and "set xs = set ys"
  shows "insert_all ins m xs = insert_all ins m ys"
proof (rule canonical)
  have "map_of (rev xs) = map_of (rev ys)"
    using assms(2-4) by (intro map_of_inject_set [THEN iffD2]) (auto simp: rev_map [symmetric])
  then show "get (insert_all ins m xs) = get (insert_all ins m ys)"
    by (simp add: get_insert_all assms(1))
qed (simp_all add: invar_insert_all assms(1))

end

section \<open>The sorted list meets the contract\<close>

lemma btree_insert_keys: "fst ` set (btree_insert k v m) = insert k (fst ` set m)"
proof (induction m)
  case (Cons kv m)
  then show ?case by (cases kv) (simp add: insert_commute)
qed simp

lemma btree_insert_subset: "set (btree_insert k v m) \<subseteq> insert (k, v) (set m)"
proof (induction m)
  case (Cons kv m)
  then show ?case by (cases kv) (simp, blast)
qed simp

lemma btree_invar_Cons [simp]:
  "btree_invar ((k, v) # m) \<longleftrightarrow> (\<forall>k'\<in>fst ` set m. k < k') \<and> btree_invar m"
  by (auto simp: btree_invar_def)

lemma btree_invar_insert: "btree_invar m \<Longrightarrow> btree_invar (btree_insert k v m)"
proof (induction m)
  case (Cons kv m)
  then show ?case by (cases kv) (auto simp: btree_insert_keys)
qed (simp add: btree_invar_def)

lemma btree_get_insert: "btree_invar m \<Longrightarrow> btree_get (btree_insert k v m) = (btree_get m)(k \<mapsto> v)"
proof (induction m)
  case (Cons kv m)
  then show ?case by (cases kv) (auto simp: btree_get_def fun_eq_iff)
qed (simp add: btree_get_def)

lemma btree_sorted_distinct: "btree_invar m \<Longrightarrow> distinct (map fst m) \<and> sorted (map fst m)"
  by (auto simp: btree_invar_def strict_sorted_iff)

lemma btree_canonical:
  assumes "btree_invar m" and "btree_invar m'" and "btree_get m = btree_get m'"
  shows "m = m'"
proof -
  note sd = btree_sorted_distinct [OF assms(1)] btree_sorted_distinct [OF assms(2)]
  have "set m = set m'"
    using sd assms(3) by (simp add: btree_get_def map_of_inject_set)
  with sd show ?thesis
    by (metis distinct_map map_sorted_distinct_set_unique inj_on_Un set_map Un_absorb)
qed

lemma btree_get_iter: "btree_get m = map_of m" "btree_get [] k = None"
  by (simp_all add: btree_get_def)

lemma btree_invar_Nil: "btree_invar []"
  by (simp add: btree_invar_def)

interpretation btree: ordered_map "[]" btree_insert btree_get "\<lambda>m. m" btree_invar
  by unfold_locales
    (rule btree_invar_Nil btree_get_iter
      | erule btree_invar_insert btree_get_insert btree_sorted_distinct [THEN conjunct1]
      | erule (2) btree_canonical)+

lemma btree_insert_length_mono: "length m \<le> length (btree_insert k v m)"
  by (induction m) auto

end
