(* ===== verification/Metadata.thy ===== *)
theory Metadata
  imports Wire_Error Btree_Map
begin

text \<open>
  \<open>puzzlefs-lib/src/format/types.rs\<close>: the decoded metadata structures, the constructors the builder
  uses to make inodes from host metadata, and the accessors of an inode.
\<close>

section \<open>Structures\<close>

definition DEFAULT_FILE_PERMISSIONS :: u16 where
  "DEFAULT_FILE_PERMISSIONS = 0x1A4"  \<comment> \<open>octal 644\<close>

definition SHA256_BLOCK_SIZE :: nat where
  "SHA256_BLOCK_SIZE = 32"

type_synonym VerityData = "(bytes \<times> bytes) list"

type_synonym Ino = u64

record BlobRef =
  br_digest :: bytes
  br_offset :: u64
  br_compressed :: bool

record DirEnt =
  de_ino :: Ino
  de_name :: bytes

record DirList =
  dl_look_below :: bool
  dl_entries :: "DirEnt list"

record FileChunk =
  fc_blob :: BlobRef
  fc_len :: u64

datatype InodeMode =
    Unknown
  | Fifo
  | Chr u64 u64
  | Dir DirList
  | Blk u64 u64
  | File "FileChunk list"
  | Lnk
  | Sock
  | Wht

record Xattr =
  x_key :: bytes
  x_val :: bytes

record InodeAdditional =
  ia_xattrs :: "Xattr list"
  ia_symlink_target :: "bytes option"

record Inode =
  i_ino :: Ino
  i_mode :: InodeMode
  i_uid :: u32
  i_gid :: u32
  i_permissions :: u16
  i_additional :: "InodeAdditional option"

record Rootfs =
  rf_metadatas :: "Inode list list"
  rf_fs_verity_data :: VerityData
  rf_manifest_version :: u64

section \<open>Host metadata\<close>

text \<open>
  The part of \<open>std::fs::Metadata\<close> the builder reads. \<open>md_file_type\<close> is the file type that
  \<open>Metadata::file_type()\<close> reports; \<open>md_mode\<close> is \<open>permissions().mode()\<close>.
\<close>

datatype file_type = FtFifo | FtChar | FtDir | FtBlock | FtFile | FtSymlink | FtSocket | FtOther

record host_metadata =
  md_ino :: u64
  md_file_type :: file_type
  md_len :: u64
  md_mode :: u32
  md_uid :: u32
  md_gid :: u32
  md_rdev :: u64

section \<open>Constructors\<close>

definition new_inode ::
    "Ino \<Rightarrow> host_metadata \<Rightarrow> InodeMode \<Rightarrow> InodeAdditional option \<Rightarrow> Inode" where
  "new_inode ino md mode additional =
     \<lparr>i_ino = ino, i_mode = mode, i_uid = md_uid md, i_gid = md_gid md,
      i_permissions = ucast (md_mode md AND 0xFFF), i_additional = additional\<rparr>"

definition new_dir ::
    "Ino \<Rightarrow> host_metadata \<Rightarrow> DirList \<Rightarrow> InodeAdditional option \<Rightarrow> Inode io_result" where
  "new_dir ino md dir_list additional =
     (if md_file_type md \<noteq> FtDir then Err (CustomError OtherKind)
      else Ok (new_inode ino md (Dir dir_list) additional))"

definition new_file ::
    "Ino \<Rightarrow> host_metadata \<Rightarrow> FileChunk list \<Rightarrow> InodeAdditional option \<Rightarrow> Inode io_result" where
  "new_file ino md file_chunks additional =
     (if md_file_type md \<noteq> FtFile then Err (CustomError OtherKind)
      else Ok (new_inode ino md (File file_chunks) additional))"

text \<open>\<open>major\<close> and \<open>minor\<close> are \<open>nix::sys::stat::{major, minor}\<close>.\<close>

definition new_other ::
    "(u64 \<Rightarrow> u64) \<Rightarrow> (u64 \<Rightarrow> u64) \<Rightarrow> Ino \<Rightarrow> host_metadata \<Rightarrow> InodeAdditional option \<Rightarrow>
     Inode io_result" where
  "new_other major minor ino md additional =
     (case md_file_type md of
        FtFifo \<Rightarrow> Ok (new_inode ino md Fifo additional)
      | FtChar \<Rightarrow> Ok (new_inode ino md (Chr (major (md_rdev md)) (minor (md_rdev md))) additional)
      | FtDir \<Rightarrow> Err (CustomError OtherKind)
      | FtBlock \<Rightarrow> Ok (new_inode ino md (Blk (major (md_rdev md)) (minor (md_rdev md))) additional)
      | FtFile \<Rightarrow> Err (CustomError OtherKind)
      | FtSymlink \<Rightarrow> Ok (new_inode ino md Lnk additional)
      | FtSocket \<Rightarrow> Ok (new_inode ino md Sock additional)
      | FtOther \<Rightarrow> Ok (new_inode ino md Unknown additional))"

definition new_whiteout :: "Ino \<Rightarrow> Inode" where
  "new_whiteout ino =
     \<lparr>i_ino = ino, i_mode = Wht, i_uid = 0, i_gid = 0,
      i_permissions = DEFAULT_FILE_PERMISSIONS, i_additional = None\<rparr>"

text \<open>
  \<open>InodeAdditional::new\<close> and \<open>get_xattrs\<close>. The host is given by \<open>read_link\<close> (\<open>fs::read_link\<close>),
  \<open>xattr_list\<close> and \<open>xattr_get\<close> (the \<open>xattr\<close> crate); \<open>xattr_get\<close> yields \<open>None\<close> when the attribute
  vanished since it was listed, which the code unwraps.
\<close>

definition get_xattrs ::
    "('p \<Rightarrow> bytes list io_result) \<Rightarrow> ('p \<Rightarrow> bytes \<Rightarrow> bytes option io_result) \<Rightarrow> 'p \<Rightarrow>
     Xattr list io_result" where
  "get_xattrs xattr_list xattr_get p =
     and_then (xattr_list p)
       (collect (\<lambda>xa. and_then (xattr_get p xa) (\<lambda>value.
          and_then (unwrap_option value) (\<lambda>v. Ok \<lparr>x_key = xa, x_val = v\<rparr>))))"

definition InodeAdditional_new ::
    "('p \<Rightarrow> bytes io_result) \<Rightarrow> ('p \<Rightarrow> bytes list io_result) \<Rightarrow>
     ('p \<Rightarrow> bytes \<Rightarrow> bytes option io_result) \<Rightarrow> 'p \<Rightarrow> host_metadata \<Rightarrow>
     InodeAdditional option io_result" where
  "InodeAdditional_new read_link xattr_list xattr_get p md =
     and_then (if md_file_type md = FtSymlink then map_ok Some (read_link p) else Ok None)
       (\<lambda>symlink_target. and_then (get_xattrs xattr_list xattr_get p) (\<lambda>xattrs.
          if symlink_target = None \<and> xattrs = [] then Ok None
          else Ok (Some \<lparr>ia_xattrs = xattrs, ia_symlink_target = symlink_target\<rparr>)))"

section \<open>Accessors\<close>

definition dir_entries :: "Inode \<Rightarrow> DirEnt list wire_result" where
  "dir_entries i =
     (case i_mode i of Dir dir_list \<Rightarrow> Ok (dl_entries dir_list) | _ \<Rightarrow> Err (from_errno ENOTDIR))"

definition dir_lookup :: "Inode \<Rightarrow> bytes \<Rightarrow> u64 wire_result" where
  "dir_lookup i name =
     and_then (dir_entries i) (\<lambda>entries.
       ok_or (map_option de_ino (List.find (\<lambda>d. de_name d = name) entries)) (from_errno ENOENT))"

text \<open>
  \<open>chunks.iter().map(|c| c.len).sum()\<close> over \<open>u64\<close>: a left fold from 0 with a checked addition.
\<close>

fun sum_u64 :: "nat \<Rightarrow> u64 list \<Rightarrow> u64 wire_result" where
  "sum_u64 acc [] = Ok (of_nat acc)"
| "sum_u64 acc (x # xs) = and_then (uadd 64 acc (unat x)) (\<lambda>acc'. sum_u64 acc' xs)"

definition file_len :: "Inode \<Rightarrow> u64 wire_result" where
  "file_len i =
     (case i_mode i of
        File chunks \<Rightarrow> sum_u64 0 (map fc_len chunks)
      | _ \<Rightarrow> Err (from_errno ENOTDIR))"

definition symlink_target :: "Inode \<Rightarrow> bytes wire_result" where
  "symlink_target i =
     ok_or (Option.bind (i_additional i) ia_symlink_target) (from_errno ENOENT)"

section \<open>Lemmas\<close>

definition chunks_total :: "FileChunk list \<Rightarrow> nat" where
  "chunks_total chunks = sum_list (map (\<lambda>c. unat (fc_len c)) chunks)"

lemma chunks_total_simps [simp]:
  "chunks_total [] = 0"
  "chunks_total (c # cs) = unat (fc_len c) + chunks_total cs"
  "chunks_total (cs @ ds) = chunks_total cs + chunks_total ds"
  by (simp_all add: chunks_total_def)

lemma sum_u64_Ok:
  assumes "acc + sum_list (map unat xs) < 2 ^ 64"
  shows "sum_u64 acc xs = Ok (of_nat (acc + sum_list (map unat xs)))"
  using assms
proof (induction xs arbitrary: acc)
  case (Cons x xs)
  have "sum_u64 (acc + unat x) xs = Ok (of_nat (acc + unat x + sum_list (map unat xs)))"
    by (rule Cons.IH) (use Cons.prems in simp)
  with Cons.prems show ?case by (simp add: uadd_def add.assoc)
qed simp

lemma sum_u64_overflow:
  assumes "2 ^ 64 \<le> acc + sum_list (map unat xs)" and "acc < 2 ^ 64"
  shows "sum_u64 acc xs = Panic ArithOverflow"
  using assms by (induction xs arbitrary: acc) (auto simp: uadd_def)

lemma file_len_File:
  assumes "i_mode i = File chunks" and "chunks_total chunks < 2 ^ 64"
  shows "\<exists>n. file_len i = Ok n \<and> unat n = chunks_total chunks"
proof -
  have "sum_list (map unat (map fc_len chunks)) = chunks_total chunks"
    by (simp add: chunks_total_def comp_def)
  then have "file_len i = Ok (of_nat (chunks_total chunks))"
    using assms sum_u64_Ok [of 0 "map fc_len chunks"] by (simp add: file_len_def)
  then show ?thesis using assms(2) by (simp add: unat_of_nat)
qed

lemma new_inode_sel [simp]:
  "i_ino (new_inode ino md m a) = ino"
  "i_mode (new_inode ino md m a) = m"
  "i_additional (new_inode ino md m a) = a"
  by (simp_all add: new_inode_def)

lemma new_whiteout_sel [simp]: "i_ino (new_whiteout ino) = ino" "i_mode (new_whiteout ino) = Wht"
  by (simp_all add: new_whiteout_def)

lemma dir_lookup_Dir:
  "i_mode i = Dir dl \<Longrightarrow>
   dir_lookup i name =
     (case List.find (\<lambda>d. de_name d = name) (dl_entries dl) of
        None \<Rightarrow> Err (from_errno ENOENT) | Some d \<Rightarrow> Ok (de_ino d))"
  by (simp add: dir_lookup_def dir_entries_def split: option.split)

end
