(* ===== verification/Capnp_Codec.thy ===== *)
theory Capnp_Codec
  imports Metadata
begin

text \<open>
  The codec between the decoded structures and the Cap'n Proto message:
  \<open>format/metadata.capnp\<close> and the \<open>from_capnp\<close> / \<open>fill_capnp\<close> pairs of \<open>format/types.rs\<close>.

  A message is modelled as the tree of its structs, one record per \<open>struct\<close> of the schema. A pointer
  field (\<open>Data\<close>, \<open>List\<close> or a struct) is null, malformed or present; reading a null pointer gives the
  default value of its type, reading a malformed one is a \<open>capnp::Error\<close>, and \<open>has_\<dots>\<close> tests for null.
  A union whose discriminant is not in the schema is \<open>MNotInSchema\<close>. The bytes of a message belong to
  the \<open>capnp\<close> crate and are parameters where they are needed (theory \<open>Image_Store\<close>).
\<close>

section \<open>Messages of the schema\<close>

datatype 'a ptr = Null | Malformed | Ptr 'a

fun has_ptr :: "'a ptr \<Rightarrow> bool" where
  "has_ptr Null = False"
| "has_ptr Malformed = True"
| "has_ptr (Ptr x) = True"

fun get_ptr :: "'a \<Rightarrow> 'a ptr \<Rightarrow> 'a wire_result" where
  "get_ptr d Null = Ok d"
| "get_ptr d Malformed = Err CapnpError"
| "get_ptr d (Ptr x) = Ok x"

record capnp_device =
  cp_major :: u64
  cp_minor :: u64

record capnp_dir_entry =
  cp_ent_ino :: u64
  cp_ent_name :: "bytes ptr"

record capnp_dir =
  cp_entries :: "capnp_dir_entry list ptr"
  cp_look_below :: bool

record capnp_blob_ref =
  cp_digest :: "bytes ptr"
  cp_offset :: u64
  cp_compressed :: bool

record capnp_file_chunk =
  cp_blob :: "capnp_blob_ref ptr"
  cp_len :: u64

record capnp_xattr =
  cp_key :: "bytes ptr"
  cp_val :: "bytes ptr"

record capnp_inode_additional =
  cp_xattrs :: "capnp_xattr list ptr"
  cp_symlink_target :: "bytes ptr"

datatype capnp_mode =
    MUnknown
  | MFifo
  | MChr "capnp_device ptr"
  | MDir "capnp_dir ptr"
  | MBlk "capnp_device ptr"
  | MFile "capnp_file_chunk list ptr"
  | MLnk
  | MSock
  | MWht
  | MNotInSchema u16

record capnp_inode =
  cp_ino :: u64
  cp_mode :: capnp_mode
  cp_uid :: u32
  cp_gid :: u32
  cp_permissions :: u16
  cp_additional :: "capnp_inode_additional ptr"

record capnp_inode_vector =
  cp_inodes :: "capnp_inode list ptr"

record capnp_verity_data =
  cp_vdigest :: "bytes ptr"
  cp_verity :: "bytes ptr"

record capnp_rootfs =
  cp_metadatas :: "capnp_inode_vector list ptr"
  cp_fs_verity_data :: "capnp_verity_data list ptr"
  cp_manifest_version :: u64

section \<open>Reading\<close>

definition BlobRef_from_capnp :: "capnp_blob_ref \<Rightarrow> BlobRef wire_result" where
  "BlobRef_from_capnp reader =
     and_then (get_ptr [] (cp_digest reader)) (\<lambda>digest.
     and_then (try_into_array FromSliceError SHA256_BLOCK_SIZE digest) (\<lambda>d.
       Ok \<lparr>br_digest = d, br_offset = cp_offset reader, br_compressed = cp_compressed reader\<rparr>))"

definition FileChunk_from_capnp :: "capnp_file_chunk \<Rightarrow> FileChunk wire_result" where
  "FileChunk_from_capnp reader =
     and_then (get_ptr \<lparr>cp_digest = Null, cp_offset = 0, cp_compressed = False\<rparr> (cp_blob reader))
       (\<lambda>b. and_then (BlobRef_from_capnp b) (\<lambda>blob.
          Ok \<lparr>fc_blob = blob, fc_len = cp_len reader\<rparr>))"

definition DirEnt_from_capnp :: "capnp_dir_entry \<Rightarrow> DirEnt wire_result" where
  "DirEnt_from_capnp entry =
     and_then (get_ptr [] (cp_ent_name entry)) (\<lambda>d. Ok \<lparr>de_ino = cp_ent_ino entry, de_name = d\<rparr>)"

fun InodeMode_from_capnp :: "capnp_mode \<Rightarrow> InodeMode wire_result" where
  "InodeMode_from_capnp MUnknown = Ok Unknown"
| "InodeMode_from_capnp MFifo = Ok Fifo"
| "InodeMode_from_capnp MLnk = Ok Lnk"
| "InodeMode_from_capnp MSock = Ok Sock"
| "InodeMode_from_capnp MWht = Ok Wht"
| "InodeMode_from_capnp (MChr reader) =
     and_then (get_ptr \<lparr>cp_major = 0, cp_minor = 0\<rparr> reader)
       (\<lambda>r. Ok (Chr (cp_major r) (cp_minor r)))"
| "InodeMode_from_capnp (MBlk reader) =
     and_then (get_ptr \<lparr>cp_major = 0, cp_minor = 0\<rparr> reader)
       (\<lambda>r. Ok (Blk (cp_major r) (cp_minor r)))"
| "InodeMode_from_capnp (MFile reader) =
     and_then (get_ptr [] reader) (\<lambda>r.
     and_then (collect FileChunk_from_capnp r) (\<lambda>chunks. Ok (File chunks)))"
| "InodeMode_from_capnp (MDir reader) =
     and_then (get_ptr \<lparr>cp_entries = Null, cp_look_below = False\<rparr> reader) (\<lambda>r.
     and_then (get_ptr [] (cp_entries r)) (\<lambda>es.
     and_then (collect DirEnt_from_capnp es) (\<lambda>entries.
       Ok (Dir \<lparr>dl_look_below = cp_look_below r, dl_entries = entries\<rparr>))))"
| "InodeMode_from_capnp (MNotInSchema e) = Err InvalidSerializedData"

definition Xattr_from_capnp :: "capnp_xattr \<Rightarrow> Xattr wire_result" where
  "Xattr_from_capnp reader =
     and_then (get_ptr [] (cp_key reader)) (\<lambda>key.
     and_then (get_ptr [] (cp_val reader)) (\<lambda>val. Ok \<lparr>x_key = key, x_val = val\<rparr>))"

definition InodeAdditional_from_capnp ::
    "capnp_inode_additional \<Rightarrow> InodeAdditional option wire_result" where
  "InodeAdditional_from_capnp reader =
     (if \<not> (has_ptr (cp_xattrs reader) \<or> has_ptr (cp_symlink_target reader)) then Ok None
      else
        and_then (if has_ptr (cp_xattrs reader)
                  then and_then (get_ptr [] (cp_xattrs reader)) (collect Xattr_from_capnp)
                  else Ok []) (\<lambda>xattrs.
        and_then (if has_ptr (cp_symlink_target reader)
                  then map_ok Some (get_ptr [] (cp_symlink_target reader))
                  else Ok None) (\<lambda>target.
          Ok (Some \<lparr>ia_xattrs = xattrs, ia_symlink_target = target\<rparr>))))"

definition Inode_from_capnp :: "capnp_inode \<Rightarrow> Inode wire_result" where
  "Inode_from_capnp reader =
     and_then (InodeMode_from_capnp (cp_mode reader)) (\<lambda>mode.
     and_then (get_ptr \<lparr>cp_xattrs = Null, cp_symlink_target = Null\<rparr> (cp_additional reader)) (\<lambda>a.
     and_then (InodeAdditional_from_capnp a) (\<lambda>additional.
       Ok \<lparr>i_ino = cp_ino reader, i_mode = mode, i_uid = cp_uid reader, i_gid = cp_gid reader,
           i_permissions = cp_permissions reader, i_additional = additional\<rparr>)))"

definition InodeVector_from_capnp :: "capnp_inode_vector \<Rightarrow> Inode list wire_result" where
  "InodeVector_from_capnp reader =
     and_then (get_ptr [] (cp_inodes reader)) (collect Inode_from_capnp)"

text \<open>
  The loop \<open>for capnp_verity in capnp_verities\<close>, which \<open>Rootfs::from_capnp\<close> and
  \<open>RootfsReader::get_verity_data\<close> share word for word.
\<close>

fun verity_loop :: "VerityData \<Rightarrow> capnp_verity_data list \<Rightarrow> VerityData wire_result" where
  "verity_loop acc [] = Ok acc"
| "verity_loop acc (v # vs) =
     and_then (and_then (get_ptr [] (cp_vdigest v)) (try_into_array FromSliceError SHA256_BLOCK_SIZE))
       (\<lambda>digest.
     and_then (and_then (get_ptr [] (cp_verity v)) (try_into_array FromSliceError SHA256_BLOCK_SIZE))
       (\<lambda>verity. verity_loop (btree_insert digest verity acc) vs))"

definition Rootfs_from_capnp :: "capnp_rootfs \<Rightarrow> Rootfs wire_result" where
  "Rootfs_from_capnp reader =
     and_then (get_ptr [] (cp_metadatas reader)) (\<lambda>ms.
     and_then (collect InodeVector_from_capnp ms) (\<lambda>metadata_vec.
     and_then (get_ptr [] (cp_fs_verity_data reader)) (\<lambda>vs.
     and_then (verity_loop [] vs) (\<lambda>fs_verity_data.
       Ok \<lparr>rf_metadatas = metadata_vec, rf_fs_verity_data = fs_verity_data,
           rf_manifest_version = cp_manifest_version reader\<rparr>))))"

section \<open>Writing\<close>

definition BlobRef_fill_capnp :: "BlobRef \<Rightarrow> capnp_blob_ref" where
  "BlobRef_fill_capnp b =
     \<lparr>cp_digest = Ptr (br_digest b), cp_offset = br_offset b, cp_compressed = br_compressed b\<rparr>"

text \<open>
  \<open>len().try_into()\<close> for the size of a list. The builder of the \<open>capnp\<close> crate has a limit of its own below this one;
  running into it belongs to the crate.
\<close>

definition len_u32 :: "'a list \<Rightarrow> nat wire_result" where
  "len_u32 xs = try_into_u32 FromIntError (length xs)"

fun InodeMode_fill_capnp :: "InodeMode \<Rightarrow> capnp_mode wire_result" where
  "InodeMode_fill_capnp Unknown = Ok MUnknown"
| "InodeMode_fill_capnp Fifo = Ok MFifo"
| "InodeMode_fill_capnp (Chr major minor) = Ok (MChr (Ptr \<lparr>cp_major = major, cp_minor = minor\<rparr>))"
| "InodeMode_fill_capnp (Dir dir_list) =
     and_then (len_u32 (dl_entries dir_list)) (\<lambda>entries_len.
       Ok (MDir (Ptr
         \<lparr>cp_entries = Ptr (map (\<lambda>e. \<lparr>cp_ent_ino = de_ino e, cp_ent_name = Ptr (de_name e)\<rparr>)
            (dl_entries dir_list)),
          cp_look_below = dl_look_below dir_list\<rparr>)))"
| "InodeMode_fill_capnp (Blk major minor) = Ok (MBlk (Ptr \<lparr>cp_major = major, cp_minor = minor\<rparr>))"
| "InodeMode_fill_capnp (File chunks) =
     and_then (len_u32 chunks) (\<lambda>chunks_len.
       Ok (MFile (Ptr (map (\<lambda>c. \<lparr>cp_blob = Ptr (BlobRef_fill_capnp (fc_blob c)), cp_len = fc_len c\<rparr>)
         chunks))))"
| "InodeMode_fill_capnp Lnk = Ok MLnk"
| "InodeMode_fill_capnp Sock = Ok MSock"
| "InodeMode_fill_capnp Wht = Ok MWht"

definition Xattr_fill_capnp :: "Xattr \<Rightarrow> capnp_xattr" where
  "Xattr_fill_capnp x = \<lparr>cp_key = Ptr (x_key x), cp_val = Ptr (x_val x)\<rparr>"

definition InodeAdditional_fill_capnp ::
    "InodeAdditional \<Rightarrow> capnp_inode_additional wire_result" where
  "InodeAdditional_fill_capnp a =
     and_then (len_u32 (ia_xattrs a)) (\<lambda>xattrs_len.
       Ok \<lparr>cp_xattrs = Ptr (map Xattr_fill_capnp (ia_xattrs a)),
           cp_symlink_target = (case ia_symlink_target a of None \<Rightarrow> Null | Some t \<Rightarrow> Ptr t)\<rparr>)"

definition Inode_fill_capnp :: "Inode \<Rightarrow> capnp_inode wire_result" where
  "Inode_fill_capnp i =
     and_then (InodeMode_fill_capnp (i_mode i)) (\<lambda>mode.
     and_then (case i_additional i of
         None \<Rightarrow> Ok Null
       | Some a \<Rightarrow> map_ok Ptr (InodeAdditional_fill_capnp a)) (\<lambda>additional.
       Ok \<lparr>cp_ino = i_ino i, cp_mode = mode, cp_uid = i_uid i, cp_gid = i_gid i,
           cp_permissions = i_permissions i, cp_additional = additional\<rparr>))"

definition InodeVector_fill_capnp :: "Inode list \<Rightarrow> capnp_inode_vector wire_result" where
  "InodeVector_fill_capnp inodes =
     and_then (len_u32 inodes) (\<lambda>inodes_len.
     and_then (collect Inode_fill_capnp inodes) (\<lambda>capnp_inodes. Ok \<lparr>cp_inodes = Ptr capnp_inodes\<rparr>))"

definition Rootfs_fill_capnp :: "Rootfs \<Rightarrow> capnp_rootfs wire_result" where
  "Rootfs_fill_capnp r =
     and_then (len_u32 (rf_metadatas r)) (\<lambda>metadatas_len.
     and_then (collect InodeVector_fill_capnp (rf_metadatas r)) (\<lambda>ms.
     and_then (len_u32 (rf_fs_verity_data r)) (\<lambda>verity_data_len.
       Ok \<lparr>cp_metadatas = Ptr ms,
           cp_fs_verity_data =
             Ptr (map (\<lambda>(digest, verity). \<lparr>cp_vdigest = Ptr digest, cp_verity = Ptr verity\<rparr>)
               (rf_fs_verity_data r)),
           cp_manifest_version = rf_manifest_version r\<rparr>)))"

section \<open>Well-formedness and size limits\<close>

text \<open>
  What the Rust types guarantee of a value: digests are \<open>[u8; 32]\<close> and a \<open>BTreeMap\<close> is sorted.
\<close>

definition wf_BlobRef :: "BlobRef \<Rightarrow> bool" where
  "wf_BlobRef b \<longleftrightarrow> length (br_digest b) = SHA256_BLOCK_SIZE"

fun wf_InodeMode :: "InodeMode \<Rightarrow> bool" where
  "wf_InodeMode (File chunks) \<longleftrightarrow> (\<forall>c\<in>set chunks. wf_BlobRef (fc_blob c))"
| "wf_InodeMode m \<longleftrightarrow> True"

definition wf_VerityData :: "VerityData \<Rightarrow> bool" where
  "wf_VerityData vd \<longleftrightarrow> btree_invar vd \<and>
     (\<forall>(d, v)\<in>set vd. length d = SHA256_BLOCK_SIZE \<and> length v = SHA256_BLOCK_SIZE)"

definition wf_Rootfs :: "Rootfs \<Rightarrow> bool" where
  "wf_Rootfs r \<longleftrightarrow>
     (\<forall>layer\<in>set (rf_metadatas r). \<forall>i\<in>set layer. wf_InodeMode (i_mode i)) \<and>
     wf_VerityData (rf_fs_verity_data r)"

text \<open>Every list that becomes a Cap'n Proto list has fewer than \<open>2 ^ 32\<close> elements.\<close>

fun fits_InodeMode :: "InodeMode \<Rightarrow> bool" where
  "fits_InodeMode (Dir dl) \<longleftrightarrow> length (dl_entries dl) < 2 ^ 32"
| "fits_InodeMode (File chunks) \<longleftrightarrow> length chunks < 2 ^ 32"
| "fits_InodeMode m \<longleftrightarrow> True"

definition fits_Inode :: "Inode \<Rightarrow> bool" where
  "fits_Inode i \<longleftrightarrow> fits_InodeMode (i_mode i) \<and>
     (case i_additional i of None \<Rightarrow> True | Some a \<Rightarrow> length (ia_xattrs a) < 2 ^ 32)"

definition fits_Rootfs :: "Rootfs \<Rightarrow> bool" where
  "fits_Rootfs r \<longleftrightarrow>
     length (rf_metadatas r) < 2 ^ 32 \<and> length (rf_fs_verity_data r) < 2 ^ 32 \<and>
     (\<forall>layer\<in>set (rf_metadatas r). length layer < 2 ^ 32 \<and> (\<forall>i\<in>set layer. fits_Inode i))"

section \<open>Round trips of the parts\<close>

named_theorems codec_defs \<open>definitions of the codec\<close>

lemmas [codec_defs] =
  BlobRef_from_capnp_def FileChunk_from_capnp_def DirEnt_from_capnp_def Xattr_from_capnp_def
  BlobRef_fill_capnp_def Xattr_fill_capnp_def len_u32_def

lemma FileChunk_roundtrip:
  "wf_BlobRef (fc_blob c) \<Longrightarrow>
   FileChunk_from_capnp \<lparr>cp_blob = Ptr (BlobRef_fill_capnp (fc_blob c)), cp_len = fc_len c\<rparr> = Ok c"
  by (simp add: codec_defs wf_BlobRef_def)

lemma DirEnt_roundtrip:
  "DirEnt_from_capnp \<lparr>cp_ent_ino = de_ino e, cp_ent_name = Ptr (de_name e)\<rparr> = Ok e"
  by (simp add: codec_defs)

lemma Xattr_roundtrip: "Xattr_from_capnp (Xattr_fill_capnp x) = Ok x"
  by (simp add: codec_defs)

lemma collect_map_id: "(\<And>x. x \<in> set xs \<Longrightarrow> f (g x) = Ok x) \<Longrightarrow> collect f (map g xs) = Ok xs"
  by (induction xs) auto

lemma InodeMode_roundtrip:
  "wf_InodeMode m \<Longrightarrow> InodeMode_fill_capnp m = Ok c \<Longrightarrow> InodeMode_from_capnp c = Ok m"
  by (cases m)
    (auto simp: FileChunk_roundtrip DirEnt_roundtrip collect_map_id)

lemma InodeAdditional_roundtrip:
  "InodeAdditional_fill_capnp a = Ok c \<Longrightarrow> InodeAdditional_from_capnp c = Ok (Some a)"
  by (cases "ia_symlink_target a")
    (auto simp: InodeAdditional_fill_capnp_def InodeAdditional_from_capnp_def collect_map_id
      Xattr_roundtrip)

lemma InodeAdditional_from_default:
  "InodeAdditional_from_capnp \<lparr>cp_xattrs = Null, cp_symlink_target = Null\<rparr> = Ok None"
  by (simp add: InodeAdditional_from_capnp_def)

lemma Inode_roundtrip:
  assumes "wf_InodeMode (i_mode i)" and "Inode_fill_capnp i = Ok c"
  shows "Inode_from_capnp c = Ok i"
  using assms
  by (cases "i_additional i")
    (auto simp: Inode_fill_capnp_def Inode_from_capnp_def InodeMode_roundtrip
      InodeAdditional_roundtrip InodeAdditional_from_default)

lemma InodeVector_roundtrip:
  assumes "\<forall>i\<in>set layer. wf_InodeMode (i_mode i)" and "InodeVector_fill_capnp layer = Ok c"
  shows "InodeVector_from_capnp c = Ok layer"
proof -
  from assms(2) obtain cis where cis: "collect Inode_fill_capnp layer = Ok cis"
    and c: "c = \<lparr>cp_inodes = Ptr cis\<rparr>"
    by (auto simp: InodeVector_fill_capnp_def)
  from cis have "collect Inode_from_capnp cis = Ok layer"
    by (rule collect_roundtrip) (use assms(1) in \<open>blast intro: Inode_roundtrip\<close>)
  with c show ?thesis by (simp add: InodeVector_from_capnp_def)
qed

lemma verity_loop_map:
  assumes "\<forall>(d, v)\<in>set vd. length d = SHA256_BLOCK_SIZE \<and> length v = SHA256_BLOCK_SIZE"
  shows "verity_loop acc (map (\<lambda>(d, v). \<lparr>cp_vdigest = Ptr d, cp_verity = Ptr v\<rparr>) vd) =
    Ok (insert_all btree_insert acc vd)"
  using assms
  by (induction vd arbitrary: acc) (auto simp: insert_all_def)

lemma verity_loop_wf:
  assumes "verity_loop acc vs = Ok vd" and "wf_VerityData acc"
  shows "wf_VerityData vd"
  using assms
proof (induction vs arbitrary: acc)
  case (Cons v vs)
  then obtain d w where dw: "length d = SHA256_BLOCK_SIZE" "length w = SHA256_BLOCK_SIZE"
    and rest: "verity_loop (btree_insert d w acc) vs = Ok vd" by auto
  with Cons.prems(2) dw have "wf_VerityData (btree_insert d w acc)"
    using btree_insert_subset [of d w acc] by (auto simp: wf_VerityData_def btree_invar_insert)
  with rest show ?case by (rule Cons.IH)
qed simp

lemma Rootfs_roundtrip:
  assumes "wf_Rootfs r" and "Rootfs_fill_capnp r = Ok c"
  shows "Rootfs_from_capnp c = Ok r"
proof -
  from assms(2) obtain ms where ms: "collect InodeVector_fill_capnp (rf_metadatas r) = Ok ms"
    and c: "cp_metadatas c = Ptr ms" "cp_manifest_version c = rf_manifest_version r"
      "cp_fs_verity_data c = Ptr (map (\<lambda>(d, v). \<lparr>cp_vdigest = Ptr d, cp_verity = Ptr v\<rparr>)
         (rf_fs_verity_data r))"
    by (auto simp: Rootfs_fill_capnp_def)
  from ms have "collect InodeVector_from_capnp ms = Ok (rf_metadatas r)"
    by (rule collect_roundtrip) (use assms(1) in \<open>auto simp: wf_Rootfs_def intro: InodeVector_roundtrip\<close>)
  moreover have "insert_all btree_insert [] (rf_fs_verity_data r) = rf_fs_verity_data r"
    using assms(1) by (simp add: wf_Rootfs_def wf_VerityData_def btree.insert_all_iter)
  ultimately show ?thesis
    using assms(1) c by (simp add: Rootfs_from_capnp_def verity_loop_map wf_Rootfs_def wf_VerityData_def)
qed

section \<open>When writing succeeds\<close>

lemma len_u32_cases: "len_u32 xs = (if length xs < 2 ^ 32 then Ok (length xs) else Err FromIntError)"
  by (simp add: len_u32_def try_into_u32_def)

lemma collect_fill_cases:
  assumes "\<And>x. x \<in> set xs \<Longrightarrow> (if P x then \<exists>y. f x = Ok y else f x = Err e)"
  shows "if \<forall>x\<in>set xs. P x then \<exists>ys. collect f xs = Ok ys else collect f xs = Err e"
  using assms
proof (induction xs)
  case (Cons x xs)
  then have IH: "if \<forall>x\<in>set xs. P x then \<exists>ys. collect f xs = Ok ys else collect f xs = Err e"
    by simp
  have x: "if P x then \<exists>y. f x = Ok y else f x = Err e" by (rule Cons.prems) simp
  show ?case using IH x by (cases "P x"; cases "\<forall>x\<in>set xs. P x") auto
qed simp

lemma InodeMode_fill_cases:
  "if fits_InodeMode m then \<exists>c. InodeMode_fill_capnp m = Ok c
   else InodeMode_fill_capnp m = Err FromIntError"
  by (cases m) (auto simp: len_u32_cases)

lemma Inode_fill_cases:
  "if fits_Inode i then \<exists>c. Inode_fill_capnp i = Ok c else Inode_fill_capnp i = Err FromIntError"
  using InodeMode_fill_cases [of "i_mode i"]
  by (cases "i_additional i")
    (auto simp: Inode_fill_capnp_def fits_Inode_def InodeAdditional_fill_capnp_def len_u32_cases
      split: if_splits)

lemma InodeVector_fill_cases:
  "if length layer < 2 ^ 32 \<and> (\<forall>i\<in>set layer. fits_Inode i)
   then \<exists>c. InodeVector_fill_capnp layer = Ok c else InodeVector_fill_capnp layer = Err FromIntError"
  using collect_fill_cases [of layer fits_Inode Inode_fill_capnp FromIntError, OF Inode_fill_cases]
  by (auto simp: InodeVector_fill_capnp_def len_u32_cases split: if_splits)

lemma Rootfs_fill_cases:
  "if fits_Rootfs r then \<exists>c. Rootfs_fill_capnp r = Ok c else Rootfs_fill_capnp r = Err FromIntError"
  using collect_fill_cases [of "rf_metadatas r" _ InodeVector_fill_capnp FromIntError,
      OF InodeVector_fill_cases]
  by (auto simp: Rootfs_fill_capnp_def fits_Rootfs_def len_u32_cases split: if_splits)

section \<open>Reading never panics\<close>

lemma get_ptr_not_panic [simp]: "\<not> is_panic (get_ptr d p)"
  by (cases p) auto

lemma try_into_array_not_panic [simp]: "\<not> is_panic (try_into_array e n xs)"
  by (simp add: try_into_array_def)

lemma DirEnt_from_capnp_not_panic: "\<not> is_panic (DirEnt_from_capnp e)"
  by (simp add: DirEnt_from_capnp_def)

lemma FileChunk_from_capnp_not_panic: "\<not> is_panic (FileChunk_from_capnp e)"
  by (simp add: FileChunk_from_capnp_def BlobRef_from_capnp_def)

lemma Xattr_from_capnp_not_panic: "\<not> is_panic (Xattr_from_capnp e)"
  by (simp add: Xattr_from_capnp_def)

lemma InodeMode_from_capnp_not_panic: "\<not> is_panic (InodeMode_from_capnp m)"
  by (cases m)
    (simp_all add: collect_not_panic DirEnt_from_capnp_not_panic FileChunk_from_capnp_not_panic)

lemma is_panic_map_ok [simp]: "is_panic (map_ok g m) = is_panic m"
  by (cases m) auto

lemma InodeAdditional_from_capnp_not_panic: "\<not> is_panic (InodeAdditional_from_capnp a)"
  by (simp add: InodeAdditional_from_capnp_def collect_not_panic Xattr_from_capnp_not_panic)

lemma Inode_from_capnp_not_panic: "\<not> is_panic (Inode_from_capnp i)"
  by (simp add: Inode_from_capnp_def InodeMode_from_capnp_not_panic
      InodeAdditional_from_capnp_not_panic)

lemma Inode_from_capnp_ino: "Inode_from_capnp c = Ok i \<Longrightarrow> i_ino i = cp_ino c"
  by (auto simp: Inode_from_capnp_def)

lemma verity_loop_not_panic: "\<not> is_panic (verity_loop acc vs)"
  by (induction vs arbitrary: acc) auto

lemma Rootfs_from_capnp_not_panic: "\<not> is_panic (Rootfs_from_capnp c)"
  by (simp add: Rootfs_from_capnp_def InodeVector_from_capnp_def collect_not_panic
      Inode_from_capnp_not_panic verity_loop_not_panic)

text \<open>What a successful reading yields is well-formed.\<close>

lemma FileChunk_from_capnp_wf: "FileChunk_from_capnp c = Ok k \<Longrightarrow> wf_BlobRef (fc_blob k)"
  by (auto simp: FileChunk_from_capnp_def BlobRef_from_capnp_def wf_BlobRef_def)

lemma InodeMode_from_capnp_wf: "InodeMode_from_capnp c = Ok m \<Longrightarrow> wf_InodeMode m"
  by (cases c) (auto, blast dest: collect_in_set FileChunk_from_capnp_wf)

lemma InodeVector_from_capnp_wf:
  "InodeVector_from_capnp v = Ok layer \<Longrightarrow> i \<in> set layer \<Longrightarrow> wf_InodeMode (i_mode i)"
  by (fastforce simp: InodeVector_from_capnp_def Inode_from_capnp_def
      dest: collect_in_set InodeMode_from_capnp_wf)

lemma Rootfs_from_capnp_wf:
  assumes "Rootfs_from_capnp c = Ok r"
  shows "wf_Rootfs r"
proof -
  from assms obtain ms vs where "collect InodeVector_from_capnp ms = Ok (rf_metadatas r)"
    and vd: "verity_loop [] vs = Ok (rf_fs_verity_data r)" by (auto simp: Rootfs_from_capnp_def)
  then have "\<forall>layer\<in>set (rf_metadatas r). \<exists>v. InodeVector_from_capnp v = Ok layer"
    by (blast dest: collect_in_set)
  moreover have "wf_VerityData (rf_fs_verity_data r)"
    using vd by (rule verity_loop_wf) (simp add: wf_VerityData_def btree_invar_def)
  ultimately show ?thesis by (auto simp: wf_Rootfs_def dest: InodeVector_from_capnp_wf)
qed

lemma wf_VerityData_insert_all:
  "wf_VerityData vd \<Longrightarrow> \<forall>(d, v)\<in>set xs. length d = SHA256_BLOCK_SIZE \<and> length v = SHA256_BLOCK_SIZE \<Longrightarrow>
   wf_VerityData (insert_all btree_insert vd xs)"
proof (induction xs arbitrary: vd)
  case (Cons x xs)
  obtain d v where x: "x = (d, v)" by (cases x)
  with Cons.prems have "wf_VerityData (btree_insert d v vd)"
    using btree_insert_subset [of d v vd] by (auto simp: wf_VerityData_def btree_invar_insert)
  with Cons x show ?case by (simp add: btree.insert_all_Cons)
qed (simp add: insert_all_def)

end
