(* ===== verification/Rootfs_Index.thy ===== *)
theory Rootfs_Index
  imports Capnp_Codec
begin

text \<open>
  Finding inodes in a rootfs: \<open>InodeVector::{find_inode, max_ino}\<close> and the methods of \<open>RootfsReader\<close>
  (\<open>format/types.rs\<close>). A \<open>RootfsReader\<close> is a view of the mapped message, so its state is the message.
  The interface towards the readers of the image is the locale \<open>inode_store\<close>: a lookup is exactly a
  partial function from inode numbers, and a missing inode is \<open>ENOENT\<close>. It is interpreted on the
  layered binary search.
\<close>

section \<open>One layer\<close>

function find_inode_loop ::
    "capnp_inode list \<Rightarrow> Ino \<Rightarrow> nat \<Rightarrow> nat \<Rightarrow> capnp_inode option wire_result" where
  "find_inode_loop inodes ino left right =
     (if left \<le> right then
        and_then (usub right left) (\<lambda>d.
        and_then (uadd 32 left (d div 2)) (\<lambda>mid.
        and_then (list_get inodes mid) (\<lambda>i.
          if cp_ino i = ino then Ok (Some i)
          else if cp_ino i < ino
            then and_then (uadd 32 mid 1) (\<lambda>l. find_inode_loop inodes ino l right)
          else if mid = 0 then Ok None
          else and_then (usub mid 1) (\<lambda>r. find_inode_loop inodes ino left r))))
      else Ok None)"
  by pat_completeness auto
termination
  by (relation "measure (\<lambda>(inodes, ino, left, right). Suc right - left)") auto

declare find_inode_loop.simps [simp del]

definition InodeVector_find_inode ::
    "capnp_inode_vector \<Rightarrow> Ino \<Rightarrow> capnp_inode option wire_result" where
  "InodeVector_find_inode v ino =
     and_then (get_ptr [] (cp_inodes v)) (\<lambda>inodes.
     and_then (usub (length inodes) 1) (\<lambda>right.
       find_inode_loop inodes ino 0 right))"

definition InodeVector_max_ino :: "capnp_inode_vector \<Rightarrow> Ino option wire_result" where
  "InodeVector_max_ino v =
     and_then (get_ptr [] (cp_inodes v)) (\<lambda>inodes.
     and_then (usub (length inodes) 1) (\<lambda>last_index.
     and_then (list_get inodes last_index) (\<lambda>i. Ok (Some (cp_ino i)))))"

section \<open>All layers\<close>

fun find_in_layers :: "capnp_inode_vector list \<Rightarrow> Ino \<Rightarrow> Inode wire_result" where
  "find_in_layers [] ino = Err (from_errno ENOENT)"
| "find_in_layers (layer # layers) ino =
     and_then (InodeVector_find_inode layer ino) (\<lambda>found.
       case found of
         Some c \<Rightarrow>
           and_then (Inode_from_capnp c) (\<lambda>inode.
             case i_mode inode of
               Wht \<Rightarrow> Err (from_errno ENOENT)
             | _ \<Rightarrow> Ok inode)
       | None \<Rightarrow> find_in_layers layers ino)"

definition RootfsReader_find_inode :: "capnp_rootfs \<Rightarrow> Ino \<Rightarrow> Inode wire_result" where
  "RootfsReader_find_inode r ino =
     and_then (get_ptr [] (cp_metadatas r)) (\<lambda>layers. find_in_layers layers ino)"

fun max_in_layers :: "Ino \<Rightarrow> capnp_inode_vector list \<Rightarrow> Ino wire_result" where
  "max_in_layers m [] = Ok m"
| "max_in_layers m (layer # layers) =
     and_then (InodeVector_max_ino layer) (\<lambda>found.
       case found of
         Some ino \<Rightarrow> max_in_layers (max ino m) layers
       | None \<Rightarrow> max_in_layers m layers)"

definition RootfsReader_max_inode :: "capnp_rootfs \<Rightarrow> Ino wire_result" where
  "RootfsReader_max_inode r =
     and_then (get_ptr [] (cp_metadatas r)) (\<lambda>layers. max_in_layers 1 layers)"

definition RootfsReader_get_manifest_version :: "capnp_rootfs \<Rightarrow> u64 wire_result" where
  "RootfsReader_get_manifest_version r = Ok (cp_manifest_version r)"

definition RootfsReader_get_verity_data :: "capnp_rootfs \<Rightarrow> VerityData wire_result" where
  "RootfsReader_get_verity_data r =
     and_then (get_ptr [] (cp_fs_verity_data r)) (\<lambda>vs. verity_loop [] vs)"

definition Rootfs_try_from :: "capnp_rootfs \<Rightarrow> Rootfs wire_result" where
  "Rootfs_try_from reader = Rootfs_from_capnp reader"

section \<open>Specification\<close>

text \<open>
  The metadata stack: the topmost layer that has an inode decides, and a whiteout there hides the
  inode (\<open>doc/metadata.md\<close>, "Algorithm for finding inode n").
\<close>

fun layers_view :: "Inode list list \<Rightarrow> Ino \<Rightarrow> Inode option" where
  "layers_view [] ino = None"
| "layers_view (layer # layers) ino =
     (case List.find (\<lambda>i. i_ino i = ino) layer of
        Some i \<Rightarrow> if i_mode i = Wht then None else Some i
      | None \<Rightarrow> layers_view layers ino)"

text \<open>The layers of a message, and the layers the builder writes: non-empty and sorted by number.\<close>

definition reader_layers :: "capnp_rootfs \<Rightarrow> Inode list list wire_result" where
  "reader_layers r =
     and_then (get_ptr [] (cp_metadatas r)) (collect InodeVector_from_capnp)"

definition wf_layer :: "Inode list \<Rightarrow> bool" where
  "wf_layer layer \<longleftrightarrow> layer \<noteq> [] \<and> length layer < 2 ^ 32 \<and> sorted_wrt (<) (map i_ino layer)"

definition wf_reader :: "capnp_rootfs \<Rightarrow> bool" where
  "wf_reader r \<longleftrightarrow>
     (case reader_layers r of Ok layers \<Rightarrow> list_all wf_layer layers | _ \<Rightarrow> False)"

definition reader_view :: "capnp_rootfs \<Rightarrow> Ino \<Rightarrow> Inode option" where
  "reader_view r ino =
     (case reader_layers r of Ok layers \<Rightarrow> layers_view layers ino | _ \<Rightarrow> None)"

locale inode_store =
  fixes find :: "'s \<Rightarrow> Ino \<Rightarrow> Inode wire_result"
    and view :: "'s \<Rightarrow> Ino \<Rightarrow> Inode option"
    and valid :: "'s \<Rightarrow> bool"
  assumes find_view: "valid s \<Longrightarrow> find s ino = ok_or (view s ino) (from_errno ENOENT)"
    and view_ino: "valid s \<Longrightarrow> view s ino = Some i \<Longrightarrow> i_ino i = ino"
    and view_not_whiteout: "valid s \<Longrightarrow> view s ino = Some i \<Longrightarrow> i_mode i \<noteq> Wht"
begin

lemma find_Ok_iff: "valid s \<Longrightarrow> find s ino = Ok i \<longleftrightarrow> view s ino = Some i"
  by (cases "view s ino") (auto simp: find_view)

lemma find_cases:
  assumes "valid s"
  obtains (found) i where "find s ino = Ok i" "view s ino = Some i" "i_ino i = ino" "i_mode i \<noteq> Wht"
    | (missing) "find s ino = Err (from_errno ENOENT)" "view s ino = None"
  using assms by (cases "view s ino") (auto simp: find_view view_ino view_not_whiteout)

lemma find_not_panic: "valid s \<Longrightarrow> \<not> is_panic (find s ino)"
  by (cases "view s ino") (auto simp: find_view)

lemma find_errors: "valid s \<Longrightarrow> find s ino = Err e \<Longrightarrow> e = from_errno ENOENT"
  by (cases "view s ino") (auto simp: find_view)

end

section \<open>Correctness of the binary search\<close>

text \<open>
  Safety needs no order: inside a non-empty array of fewer than \<open>2 ^ 32\<close> entries the loop neither
  overflows nor reads out of bounds, and what it returns is an entry with the wanted number.
\<close>

lemma find_inode_loop_sound:
  assumes "right < length inodes" and "length inodes < 2 ^ 32"
  shows "\<exists>res. find_inode_loop inodes ino left right = Ok res \<and>
    (\<forall>c. res = Some c \<longrightarrow> c \<in> set inodes \<and> cp_ino c = ino)"
  using assms
proof (induction inodes ino left right rule: find_inode_loop.induct)
  case (1 inodes ino left right)
  define mid where "mid = left + (right - left) div 2"
  show ?case
  proof (cases "left \<le> right")
    case True
    then have mid: "left \<le> mid" "mid \<le> right" by (auto simp: mid_def)
    with "1.prems" have ok: "left + (right - left) div 2 < 2 ^ 32" "mid < length inodes" "mid + 1 < 2 ^ 32"
      unfolding mid_def by linarith+
    have usub: "usub right left = Ok (right - left)"
      and uadd: "uadd 32 left ((right - left) div 2) = Ok mid"
      and get: "list_get inodes mid = Ok (inodes ! mid)"
      and inc: "uadd 32 mid 1 = Ok (mid + 1)"
      and dec: "mid \<noteq> 0 \<Longrightarrow> usub mid 1 = Ok (mid - 1)"
      using True ok by (auto simp: mid_def)
    note IH = "1.IH" [OF True usub uadd get]
    show ?thesis
      using True usub uadd get inc dec IH(1) IH(2) "1.prems" mid ok
      by (subst find_inode_loop.simps) auto
  qed (simp add: find_inode_loop.simps)
qed

text \<open>With the entries sorted by number, the loop misses nothing in its range.\<close>

lemma find_inode_loop_complete:
  assumes "sorted (map cp_ino inodes)" and "right < length inodes"
    and "find_inode_loop inodes ino left right = Ok None" and "left \<le> k" and "k \<le> right"
  shows "cp_ino (inodes ! k) \<noteq> ino"
  using assms
proof (induction inodes ino left right rule: find_inode_loop.induct)
  case (1 inodes ino left right)
  define mid where "mid = left + (right - left) div 2"
  from "1.prems" have le: "left \<le> right" by simp
  then have mid: "left \<le> mid" "mid \<le> right" by (auto simp: mid_def)
  have usub: "usub right left = Ok (right - left)" using le by simp
  have mono: "a \<le> b \<Longrightarrow> b < length inodes \<Longrightarrow> cp_ino (inodes ! a) \<le> cp_ino (inodes ! b)" for a b
    using "1.prems"(1) by (simp add: sorted_iff_nth_mono)
  from "1.prems"(3) le have "mid < 2 ^ 32" "mid < length inodes"
    by (auto simp: find_inode_loop.simps [of inodes ino left right] mid_def)
  then have uadd: "uadd 32 left ((right - left) div 2) = Ok mid"
    and get: "list_get inodes mid = Ok (inodes ! mid)" by (auto simp: mid_def)
  note IH = "1.IH" [OF le usub uadd get]
  note step = "1.prems"(3) le find_inode_loop.simps [of inodes ino left right]
  show ?case
  proof (cases "cp_ino (inodes ! mid)" ino rule: linorder_cases)
    case less
    with step have "mid + 1 < 2 ^ 32" and rest: "find_inode_loop inodes ino (mid + 1) right = Ok None"
      by (auto simp flip: mid_def split: if_splits)
    then have inc: "uadd 32 mid 1 = Ok (mid + 1)" by simp
    show ?thesis
    proof (cases "k \<le> mid")
      case True
      with mono [of k mid] mid less "1.prems"(2) show ?thesis by auto
    next
      case False
      with IH(1) [OF _ less inc] rest less "1.prems" show ?thesis by auto
    qed
  next
    case equal
    with step show ?thesis by (auto simp flip: mid_def)
  next
    case greater
    show ?thesis
    proof (cases "mid \<le> k")
      case True
      with mono [of mid k] greater "1.prems" show ?thesis by auto
    next
      case False
      with mid have nz: "mid \<noteq> 0" by simp
      then have dec: "usub mid 1 = Ok (mid - 1)" by simp
      from step greater nz have rest: "find_inode_loop inodes ino left (mid - 1) = Ok None"
        by (auto simp flip: mid_def split: if_splits)
      show ?thesis
        using IH(2) [OF _ _ nz dec] rest greater "1.prems" False mid by auto
    qed
  qed
qed

section \<open>Refinement: the layered search implements the metadata stack\<close>

lemma strict_sorted_imp_sorted: "sorted_wrt (<) xs \<Longrightarrow> sorted (xs :: 'a::linorder list)"
  by (simp add: strict_sorted_iff)

lemma collect_decode_inos:
  "collect Inode_from_capnp cs = Ok layer \<Longrightarrow> map cp_ino cs = map i_ino layer"
  by (induction cs arbitrary: layer) (auto simp: Inode_from_capnp_ino)

lemma find_unique:
  assumes "distinct (map f xs)" and "x \<in> set xs" and "f x = k"
  shows "List.find (\<lambda>y. f y = k) xs = Some x"
  using assms by (induction xs) auto

lemma InodeVector_find_inode_spec:
  assumes "InodeVector_from_capnp v = Ok layer" and "wf_layer layer"
  shows "case List.find (\<lambda>i. i_ino i = ino) layer of
      None \<Rightarrow> InodeVector_find_inode v ino = Ok None
    | Some i \<Rightarrow> \<exists>c. InodeVector_find_inode v ino = Ok (Some c) \<and> Inode_from_capnp c = Ok i"
proof -
  from assms(1) obtain cs where cs: "get_ptr [] (cp_inodes v) = Ok cs"
    and dec: "collect Inode_from_capnp cs = Ok layer"
    by (auto simp: InodeVector_from_capnp_def)
  note len = collect_length [OF dec] and inos = collect_decode_inos [OF dec]
  from assms(2) have wf: "layer \<noteq> []" "length layer < 2 ^ 32" "sorted (map i_ino layer)"
    "distinct (map i_ino layer)"
    by (auto simp: wf_layer_def strict_sorted_iff)
  let ?right = "length cs - 1"
  from wf(1,2) len have "cs \<noteq> []" and "length cs < 2 ^ 32" by auto
  then have "?right < length cs" "length cs < 2 ^ 32" by simp_all
  from find_inode_loop_sound [OF this] obtain res where
    res: "find_inode_loop cs ino 0 ?right = Ok res"
    and found: "\<And>c. res = Some c \<Longrightarrow> c \<in> set cs \<and> cp_ino c = ino" by blast
  have eq: "InodeVector_find_inode v ino = Ok res"
    using cs res \<open>cs \<noteq> []\<close> by (auto simp: InodeVector_find_inode_def Suc_le_eq)
  show ?thesis
  proof (cases res)
    case None
    have "i_ino i \<noteq> ino" if "i \<in> set layer" for i
    proof -
      from that obtain k where k: "k < length layer" "layer ! k = i" by (auto simp: in_set_conv_nth)
      have "cp_ino (cs ! k) \<noteq> ino"
        using find_inode_loop_complete [OF _ \<open>?right < length cs\<close> res [unfolded None], of k]
          wf inos k len by auto
      then show ?thesis using inos k len by (metis nth_map)
    qed
    then have "List.find (\<lambda>i. i_ino i = ino) layer = None" by (simp add: find_None_set)
    with eq None show ?thesis by simp
  next
    case (Some c)
    with found have "c \<in> set cs" "cp_ino c = ino" by auto
    then obtain k where k: "k < length cs" "cs ! k = c" by (auto simp: in_set_conv_nth)
    with dec have "Inode_from_capnp c = Ok (layer ! k)"
      by (auto simp: collect_Ok_iff list_all2_conv_all_nth)
    moreover from this \<open>cp_ino c = ino\<close> have "i_ino (layer ! k) = ino"
      by (simp add: Inode_from_capnp_ino)
    then have "List.find (\<lambda>i. i_ino i = ino) layer = Some (layer ! k)"
      using wf(4) k(1) len by (intro find_unique) simp_all
    ultimately show ?thesis using eq Some by auto
  qed
qed

lemma find_in_layers_spec:
  assumes "collect InodeVector_from_capnp vs = Ok layers" and "list_all wf_layer layers"
  shows "find_in_layers vs ino = ok_or (layers_view layers ino) (from_errno ENOENT)"
  using assms
proof (induction vs arbitrary: layers)
  case (Cons v vs)
  then obtain layer rest where l: "InodeVector_from_capnp v = Ok layer"
    "collect InodeVector_from_capnp vs = Ok rest" "layers = layer # rest" by auto
  with Cons.prems(2) InodeVector_find_inode_spec [of v layer ino] Cons.IH [of rest] show ?case
    by (auto split: option.splits InodeMode.splits)
qed simp

lemma layers_view_ino: "layers_view layers ino = Some i \<Longrightarrow> i_ino i = ino"
  by (induction layers) (auto simp: find_Some_iff split: option.splits if_splits)

lemma layers_view_not_whiteout: "layers_view layers ino = Some i \<Longrightarrow> i_mode i \<noteq> Wht"
  by (induction layers) (auto split: option.splits if_splits)

lemma wf_reader_layers:
  assumes "wf_reader r"
  obtains vs layers where "get_ptr [] (cp_metadatas r) = Ok vs"
    "collect InodeVector_from_capnp vs = Ok layers" "reader_layers r = Ok layers"
    "list_all wf_layer layers"
  using assms by (cases "reader_layers r") (auto simp: wf_reader_def reader_layers_def)

interpretation reader: inode_store RootfsReader_find_inode reader_view wf_reader
proof unfold_locales
  fix r ino
  assume "wf_reader r"
  then obtain vs layers where "get_ptr [] (cp_metadatas r) = Ok vs"
    "collect InodeVector_from_capnp vs = Ok layers" "reader_layers r = Ok layers"
    "list_all wf_layer layers" by (rule wf_reader_layers)
  then show "RootfsReader_find_inode r ino = ok_or (reader_view r ino) (from_errno ENOENT)"
    by (simp add: RootfsReader_find_inode_def reader_view_def find_in_layers_spec)
qed (auto simp: reader_view_def layers_view_ino layers_view_not_whiteout split: outcome.splits)

section \<open>The largest number\<close>

lemma max_in_layers_Ok:
  assumes "collect InodeVector_from_capnp vs = Ok layers" and "list_all wf_layer layers"
  shows "max_in_layers m vs = Ok (foldl (\<lambda>a layer. max (Max (set (map i_ino layer))) a) m layers)"
  using assms
proof (induction vs arbitrary: m layers)
  case (Cons v vs)
  then obtain layer rest cs where l: "layers = layer # rest" "collect InodeVector_from_capnp vs = Ok rest"
    "get_ptr [] (cp_inodes v) = Ok cs" "collect Inode_from_capnp cs = Ok layer"
    by (auto simp: InodeVector_from_capnp_def [of v])
  from Cons.prems(2) l(1) have wf: "layer \<noteq> []" "sorted (map i_ino layer)"
    by (auto simp: wf_layer_def strict_sorted_iff)
  have inos: "map cp_ino cs = map i_ino layer" using l(4) by (rule collect_decode_inos)
  with wf(1) have ne: "cs \<noteq> []" by auto
  have "cp_ino (last cs) = last (map i_ino layer)" using inos ne by (metis last_map)
  also have "\<dots> = Max (set (map i_ino layer))"
    using wf by (intro Max_sorted_last [symmetric]) auto
  finally have "InodeVector_max_ino v = Ok (Some (Max (set (map i_ino layer))))"
    using l(3) ne by (auto simp: InodeVector_max_ino_def last_conv_nth Suc_le_eq)
  with Cons.IH [OF l(2)] Cons.prems(2) l(1) show ?case by simp
qed simp

lemma foldl_max_layers:
  fixes m :: "'a::linorder"
  assumes "\<forall>l\<in>set layers. l \<noteq> []"
  shows "foldl (\<lambda>a layer. max (Max (set (map f layer))) a) m layers = Max (insert m (f ` set (concat layers)))"
  using assms
proof (induction layers arbitrary: m)
  case (Cons l layers)
  let ?M = "Max (set (map f l))"
  have l: "finite (f ` set l)" "f ` set l \<noteq> {}" using Cons.prems by auto
  have "foldl (\<lambda>a layer. max (Max (set (map f layer))) a) m (l # layers) =
      Max (insert (max ?M m) (f ` set (concat layers)))"
    using Cons by simp
  also have "\<dots> = Max (insert m (f ` set l \<union> f ` set (concat layers)))"
  proof -
    have "Max (insert (max (Max B) m) A) = Max (insert m (B \<union> A))"
      if "finite A" "finite B" "B \<noteq> {}" for A B :: "'a set"
      using that by (cases "A = {}") (simp_all add: Max_Un ac_simps)
    from this [of "f ` set (concat layers)" "f ` set l"] l show ?thesis by (simp del: set_concat)
  qed
  also have "f ` set l \<union> f ` set (concat layers) = f ` set (concat (l # layers))" by (simp add: image_Un)
  finally show ?case .
qed simp

lemma layers_view_mem: "layers_view layers ino = Some i \<Longrightarrow> i \<in> set (concat layers)"
  by (induction layers) (auto simp: find_Some_iff split: option.splits if_splits)

lemma max_inode_Max:
  assumes "wf_reader r" and "reader_layers r = Ok layers"
  shows "RootfsReader_max_inode r = Ok (Max (insert 1 (i_ino ` set (concat layers))))"
proof -
  from assms(1) obtain vs where vs: "get_ptr [] (cp_metadatas r) = Ok vs"
    "collect InodeVector_from_capnp vs = Ok layers" "list_all wf_layer layers"
    using assms(2) by (auto elim!: wf_reader_layers)
  have "\<forall>l\<in>set layers. l \<noteq> []" using vs(3) by (auto simp: list_all_iff wf_layer_def)
  from max_in_layers_Ok [OF vs(2,3), of 1] foldl_max_layers [OF this, of i_ino 1] vs(1)
  show ?thesis by (simp add: RootfsReader_max_inode_def)
qed

end
