(* ===== verification/Digest.thy ===== *)
theory Digest
  imports Metadata
begin

text \<open>
  The \<open>Digest\<close> newtype of \<open>format/types.rs\<close>: its textual forms and their parsers. The hexadecimal
  encoding belongs to the \<open>hex\<close> crate; it is the record \<open>hex_ops\<close>, and what is relied on is
  \<open>hex_lawful\<close> (its documented behaviour). \<open>base16\<close> is a concrete codec with these laws, used by the
  witnesses.
\<close>

section \<open>The hex crate\<close>

record hex_ops =
  hex_encode :: "bytes \<Rightarrow> string"
  hex_decode :: "string \<Rightarrow> bytes option"

definition hex_lawful :: "hex_ops \<Rightarrow> bool" where
  "hex_lawful hx \<longleftrightarrow>
     (\<forall>bs. hex_decode hx (hex_encode hx bs) = Some bs \<and> CHR '':'' \<notin> set (hex_encode hx bs))"

text \<open>\<open>hex::decode_to_slice\<close> into a 32-byte array: the decoded length must match.\<close>

definition decode_to_slice :: "hex_ops \<Rightarrow> string \<Rightarrow> bytes wire_result" where
  "decode_to_slice hx s =
     (case hex_decode hx s of
        None \<Rightarrow> Err HexError
      | Some bs \<Rightarrow> if length bs = SHA256_BLOCK_SIZE then Ok bs else Err HexError)"

section \<open>Digest\<close>

datatype Digest = Digest (digest_bytes: bytes)

definition Digest_new :: "bytes \<Rightarrow> Digest" where
  "Digest_new d = Digest d"

definition underlying :: "Digest \<Rightarrow> bytes" where
  "underlying d = digest_bytes d"

definition Digest_to_string :: "hex_ops \<Rightarrow> Digest \<Rightarrow> string" where
  "Digest_to_string hx d = hex_encode hx (digest_bytes d)"

definition Digest_serialize :: "hex_ops \<Rightarrow> Digest \<Rightarrow> string" where
  "Digest_serialize hx d = ''sha256:'' @ hex_encode hx (digest_bytes d)"

definition Digest_try_from_str :: "hex_ops \<Rightarrow> string \<Rightarrow> Digest wire_result" where
  "Digest_try_from_str hx s = and_then (decode_to_slice hx s) (\<lambda>d. Ok (Digest d))"

definition Digest_try_from_BlobRef :: "BlobRef \<Rightarrow> Digest wire_result" where
  "Digest_try_from_BlobRef v = Ok (Digest (br_digest v))"

text \<open>\<open>str::split(':')\<close>.\<close>

fun split_on :: "'a \<Rightarrow> 'a list \<Rightarrow> 'a list list" where
  "split_on sep [] = [[]]"
| "split_on sep (x # xs) =
     (if x = sep then [] # split_on sep xs
      else (case split_on sep xs of [] \<Rightarrow> [[x]] | p # ps \<Rightarrow> (x # p) # ps))"

text \<open>The errors a deserializer reports through \<open>SerdeError::custom\<close>.\<close>

datatype de_error = BadDigest string | BadHex | InvalidBlockLength nat | UnknownDigestType string

definition DigestVisitor_visit_str :: "hex_ops \<Rightarrow> string \<Rightarrow> (de_error, Digest) outcome" where
  "DigestVisitor_visit_str hx s =
     (let parts = split_on CHR '':'' s in
      if length parts \<noteq> 2 then Err (BadDigest s)
      else if parts ! 0 = ''sha256'' then
        and_then (ok_or (hex_decode hx (parts ! 1)) BadHex) (\<lambda>buf.
        and_then (try_into_array (InvalidBlockLength (length buf)) SHA256_BLOCK_SIZE buf) (\<lambda>digest.
          Ok (Digest digest)))
      else Err (UnknownDigestType (parts ! 0)))"

section \<open>A concrete base-16 codec\<close>

definition hex_digit :: "nat \<Rightarrow> char" where
  "hex_digit n = (if n < 10 then char_of (48 + n) else char_of (87 + n))"

definition hex_value :: "char \<Rightarrow> nat option" where
  "hex_value c =
     (let n = of_char c :: nat in
      if 48 \<le> n \<and> n < 58 then Some (n - 48)
      else if 97 \<le> n \<and> n < 103 then Some (n - 87)
      else if 65 \<le> n \<and> n < 71 then Some (n - 55)
      else None)"

definition base16_encode :: "bytes \<Rightarrow> string" where
  "base16_encode bs = concat (map (\<lambda>b. [hex_digit (unat b div 16), hex_digit (unat b mod 16)]) bs)"

fun base16_decode :: "string \<Rightarrow> bytes option" where
  "base16_decode [] = Some []"
| "base16_decode [c] = None"
| "base16_decode (c # d # cs) =
     (case (hex_value c, hex_value d, base16_decode cs) of
        (Some x, Some y, Some bs) \<Rightarrow> Some (of_nat (16 * x + y) # bs)
      | _ \<Rightarrow> None)"

definition base16 :: hex_ops where
  "base16 = \<lparr>hex_encode = base16_encode, hex_decode = base16_decode\<rparr>"

section \<open>Lemmas\<close>

lemma less_16_cases:
  fixes n :: nat
  assumes "n < 16"
  shows "n \<in> {0, 1, 2, 3, 4, 5, 6, 7, 8, 9, 10, 11, 12, 13, 14, 15}"
  using assms by (simp, arith)

lemma hex_value_digit: "n < 16 \<Longrightarrow> hex_value (hex_digit n) = Some n"
  by (drule less_16_cases) (auto simp: hex_value_def hex_digit_def Let_def)

lemma hex_digit_not_colon: "n < 16 \<Longrightarrow> hex_digit n \<noteq> CHR '':''"
  by (drule less_16_cases) (auto simp: hex_digit_def char_of_def)

lemma base16_decode_encode: "base16_decode (base16_encode bs) = Some bs"
proof (induction bs)
  case (Cons b bs)
  have "unat b < 256" by (rule unat_u8_bound)
  then have "unat b div 16 < 16" "unat b mod 16 < 16" by auto
  moreover have "16 * (unat b div 16) + unat b mod 16 = unat b" by simp
  ultimately show ?case
    using Cons by (simp add: base16_encode_def hex_value_digit del: of_nat_add of_nat_mult)
qed (simp add: base16_encode_def)

lemma base16_no_colon: "CHR '':'' \<notin> set (base16_encode bs)"
proof (induction bs)
  case (Cons b bs)
  have "unat b < 256" by (rule unat_u8_bound)
  then have "unat b div 16 < 16" "unat b mod 16 < 16" by auto
  from this [THEN hex_digit_not_colon] Cons show ?case by (auto simp: base16_encode_def)
qed (simp add: base16_encode_def)

lemma base16_lawful: "hex_lawful base16"
  by (simp add: hex_lawful_def base16_def base16_decode_encode base16_no_colon)

lemma split_on_no_sep: "sep \<notin> set xs \<Longrightarrow> split_on sep xs = [xs]"
  by (induction xs) auto

lemma split_on_one: "sep \<notin> set xs \<Longrightarrow> split_on sep (xs @ sep # ys) = xs # split_on sep ys"
  by (induction xs) auto

lemma split_on_nonempty: "split_on sep xs \<noteq> []"
  by (induction xs) (auto split: list.splits)

lemma decode_to_slice_encode:
  "hex_lawful hx \<Longrightarrow> length d = SHA256_BLOCK_SIZE \<Longrightarrow> decode_to_slice hx (hex_encode hx d) = Ok d"
  by (simp add: decode_to_slice_def hex_lawful_def)

lemma decode_to_slice_length: "decode_to_slice hx s = Ok d \<Longrightarrow> length d = SHA256_BLOCK_SIZE"
  by (auto simp: decode_to_slice_def split: option.splits if_splits)

end
