(* ===== verification/Compression.thy ===== *)
theory Compression
  imports Metadata
begin

text \<open>
  \<open>puzzlefs-lib/src/compression.rs\<close> with \<open>compression/noop.rs\<close> and
  \<open>compression/zstd_seekable_wrapper.rs\<close>. The trait \<open>Decompressor\<close> (\<open>Read + Seek\<close>) is the locale
  \<open>decompressor\<close>; both implementations are instances of it. The zstd library is outside the
  sources: a seekable stream is given by its frame sizes and its \<open>decompress\<close> function, which are
  fields of the decompressor's state, and \<open>seekable_of\<close> states the documented behaviour.
\<close>

section \<open>Files\<close>

datatype SeekFrom = Start nat | End int | Current int

text \<open>
  The regular file a blob is read from (\<open>std::fs::File\<close>): \<open>read\<close> fills the buffer as far as the file
  goes (reads of regular files are not interrupted half-way), \<open>seek\<close> moves to any non-negative offset that
  fits an \<open>i64\<close>.
\<close>

record file_handle =
  fh_data :: bytes
  fh_pos :: nat

definition file_seek_to :: "file_handle \<Rightarrow> int \<Rightarrow> (nat \<times> file_handle) io_result" where
  "file_seek_to f p =
     (if 0 \<le> p \<and> p < 2 ^ 63 then Ok (nat p, f\<lparr>fh_pos := nat p\<rparr>)
      else Err (OsError (errno_code EINVAL)))"

fun file_seek :: "file_handle \<Rightarrow> SeekFrom \<Rightarrow> (nat \<times> file_handle) io_result" where
  "file_seek f (Start s) = file_seek_to f (int s)"
| "file_seek f (End e) = file_seek_to f (int (length (fh_data f)) + e)"
| "file_seek f (Current c) = file_seek_to f (int (fh_pos f) + c)"

definition file_read_into :: "file_handle \<Rightarrow> nat \<Rightarrow> (bytes \<times> file_handle) io_result" where
  "file_read_into f n =
     (let out = take n (drop (fh_pos f) (fh_data f)) in Ok (out, f\<lparr>fh_pos := fh_pos f + length out\<rparr>))"

section \<open>Noop\<close>

record NoopDecompressor =
  nd_decoder :: file_handle

definition Noop_compress_all :: "bytes \<Rightarrow> bytes io_result" where
  "Noop_compress_all buf = Ok buf"

definition Noop_decompress :: "file_handle \<Rightarrow> NoopDecompressor io_result" where
  "Noop_decompress source = Ok \<lparr>nd_decoder = source\<rparr>"

definition Noop_append_extension :: "string \<Rightarrow> string" where
  "Noop_append_extension media_type = media_type"

definition Noop_seek :: "NoopDecompressor \<Rightarrow> SeekFrom \<Rightarrow> (nat \<times> NoopDecompressor) io_result" where
  "Noop_seek d off = map_ok (\<lambda>(p, f). (p, d\<lparr>nd_decoder := f\<rparr>)) (file_seek (nd_decoder d) off)"

definition Noop_read :: "NoopDecompressor \<Rightarrow> nat \<Rightarrow> (bytes \<times> NoopDecompressor) io_result" where
  "Noop_read d n = map_ok (\<lambda>(out, f). (out, d\<lparr>nd_decoder := f\<rparr>)) (file_read_into (nd_decoder d) n)"

definition Noop_get_uncompressed_length :: "NoopDecompressor \<Rightarrow> nat io_result" where
  "Noop_get_uncompressed_length d = Ok (length (fh_data (nd_decoder d)))"

section \<open>Zstd\<close>

text \<open>
  \<open>zstd_seekable::Seekable\<close>: the decompressed size of every frame, and \<open>decompress(out, offset)\<close> for
  a buffer of the given length.
\<close>

record seekable =
  sk_frame_sizes :: "nat list"
  sk_decompress :: "nat \<Rightarrow> nat \<Rightarrow> bytes io_result"

record ZstdDecompressor =
  zd_stream :: seekable
  zd_offset :: nat
  zd_uncompressed_length :: nat

fun sum_frames :: "nat \<Rightarrow> nat list \<Rightarrow> nat io_result" where
  "sum_frames acc [] = Ok acc"
| "sum_frames acc (x # xs) = and_then (uadd 64 acc x) (\<lambda>acc'. sum_frames acc' xs)"

definition Zstd_decompress ::
    "('f \<Rightarrow> seekable io_result) \<Rightarrow> 'f \<Rightarrow> ZstdDecompressor io_result" where
  "Zstd_decompress seekable_init source =
     and_then (seekable_init source) (\<lambda>stream.
     and_then (sum_frames 0 (sk_frame_sizes stream)) (\<lambda>uncompressed_length.
       Ok \<lparr>zd_stream = stream, zd_offset = 0, zd_uncompressed_length = uncompressed_length\<rparr>))"

definition Zstd_append_extension :: "string \<Rightarrow> string" where
  "Zstd_append_extension media_type = media_type @ ''+zstd''"

definition neg_i64 :: "int \<Rightarrow> int io_result" where
  "neg_i64 e = (if e = - (2 ^ 63) then Panic ArithOverflow else Ok (- e))"

fun Zstd_seek :: "ZstdDecompressor \<Rightarrow> SeekFrom \<Rightarrow> (nat \<times> ZstdDecompressor) io_result" where
  "Zstd_seek d (Start s) = Ok (s, d\<lparr>zd_offset := s\<rparr>)"
| "Zstd_seek d (End e) =
     (if 0 < e then Err (CustomError OtherKind)
      else and_then (neg_i64 e) (\<lambda>n.
           and_then (usub (zd_uncompressed_length d) (nat n)) (\<lambda>p.
             Ok (p, d\<lparr>zd_offset := p\<rparr>))))"
| "Zstd_seek d (Current c) =
     (if 0 < c then and_then (uadd 64 (zd_offset d) (nat c)) (\<lambda>p. Ok (p, d\<lparr>zd_offset := p\<rparr>))
      else and_then (neg_i64 c) (\<lambda>n.
           and_then (usub (zd_offset d) (nat n)) (\<lambda>p. Ok (p, d\<lparr>zd_offset := p\<rparr>))))"

definition Zstd_read :: "ZstdDecompressor \<Rightarrow> nat \<Rightarrow> (bytes \<times> ZstdDecompressor) io_result" where
  "Zstd_read d n =
     and_then (usub (zd_uncompressed_length d) (zd_offset d)) (\<lambda>left.
     and_then (sk_decompress (zd_stream d) (min n left) (zd_offset d)) (\<lambda>out.
     and_then (uadd 64 (zd_offset d) (length out)) (\<lambda>off.
       Ok (out, d\<lparr>zd_offset := off\<rparr>))))"

definition Zstd_get_uncompressed_length :: "ZstdDecompressor \<Rightarrow> nat io_result" where
  "Zstd_get_uncompressed_length d = Ok (zd_uncompressed_length d)"

text \<open>
  The compressing side. \<open>SeekableCStream\<close> is a state machine of the zstd library: \<open>compress\<close> consumes a
  prefix of its input and produces output, \<open>end_stream\<close> is called until it produces nothing.
\<close>

record 'c cstream_ops =
  cs_compress :: "'c \<Rightarrow> bytes \<Rightarrow> (bytes \<times> nat \<times> 'c) io_result"
  cs_end_stream :: "'c \<Rightarrow> (bytes \<times> 'c) io_result"

text \<open>The parameters of the seekable stream that \<open>compress\<close> makes.\<close>

definition FRAME_SIZE :: nat where
  "FRAME_SIZE = 4096"

definition COMPRESSION_LEVEL :: nat where
  "COMPRESSION_LEVEL = 3"

record 'c ZstdCompressor =
  zc_f :: bytes
  zc_stream :: 'c

definition Zstd_write ::
    "'c cstream_ops \<Rightarrow> 'c ZstdCompressor \<Rightarrow> bytes \<Rightarrow> (nat \<times> 'c ZstdCompressor) io_result" where
  "Zstd_write ops z buf =
     and_then (cs_compress ops (zc_stream z) buf) (\<lambda>(out, in_pos, c).
       Ok (in_pos, z\<lparr>zc_f := zc_f z @ out, zc_stream := c\<rparr>))"

text \<open>\<open>end\<close> loops until the stream is exhausted; \<open>None\<close> is a loop that does not end.\<close>

partial_function (option) Zstd_end ::
    "'c cstream_ops \<Rightarrow> 'c ZstdCompressor \<Rightarrow> bytes io_result option" where
  "Zstd_end ops z =
     (case cs_end_stream ops (zc_stream z) of
        Err e \<Rightarrow> Some (Err e)
      | Panic p \<Rightarrow> Some (Panic p)
      | Ok (out, c) \<Rightarrow>
          (if out = [] then Some (Ok (zc_f z))
           else Zstd_end ops (z\<lparr>zc_f := zc_f z @ out, zc_stream := c\<rparr>)))"

definition Zstd_compress :: "(nat \<Rightarrow> nat \<Rightarrow> 'c io_result) \<Rightarrow> bytes \<Rightarrow> 'c ZstdCompressor io_result" where
  "Zstd_compress new_cstream dest =
     and_then (new_cstream COMPRESSION_LEVEL FRAME_SIZE) (\<lambda>stream. Ok \<lparr>zc_f = dest, zc_stream = stream\<rparr>)"

text \<open>
  \<open>Write::write_all\<close> of the standard library on this writer: a write that takes nothing is an error
  (\<open>WriteZero\<close>), and a count beyond the buffer would fail to slice it.
\<close>

function Zstd_write_all ::
    "'c cstream_ops \<Rightarrow> 'c ZstdCompressor \<Rightarrow> bytes \<Rightarrow> 'c ZstdCompressor io_result" where
  "Zstd_write_all ops z buf =
     (if buf = [] then Ok z
      else
        (case Zstd_write ops z buf of
           Err e \<Rightarrow> Err e
         | Panic p \<Rightarrow> Panic p
         | Ok (n, z') \<Rightarrow>
             if n = 0 then Err (CustomError OtherKind)
             else if length buf < n then Panic IndexOutOfBounds
             else Zstd_write_all ops z' (drop n buf)))"
  by pat_completeness auto
termination
  by (relation "measure (\<lambda>(ops, z, buf). length buf)") auto

declare Zstd_write_all.simps [simp del]

text \<open>
  The bytes that \<open>C::compress\<close>, \<open>io::copy\<close> from the buffer and \<open>end\<close> leave in the cursor of \<open>put_blob\<close>.
\<close>

definition Zstd_compress_all ::
    "'c cstream_ops \<Rightarrow> (nat \<Rightarrow> nat \<Rightarrow> 'c io_result) \<Rightarrow> bytes \<Rightarrow> bytes io_result option" where
  "Zstd_compress_all ops new_cstream buf =
     (case and_then (Zstd_compress new_cstream []) (\<lambda>z. Zstd_write_all ops z buf) of
        Err e \<Rightarrow> Some (Err e)
      | Panic p \<Rightarrow> Some (Panic p)
      | Ok z \<Rightarrow> Zstd_end ops z)"

section \<open>The contract of a decompressor\<close>

text \<open>The position that \<open>Seek::seek\<close> is asked for, from the length and the position of the stream.\<close>

fun seek_target :: "nat \<Rightarrow> nat \<Rightarrow> SeekFrom \<Rightarrow> int" where
  "seek_target len pos (Start s) = int s"
| "seek_target len pos (End e) = int len + e"
| "seek_target len pos (Current c) = int pos + c"

locale decompressor =
  fixes seek :: "'d \<Rightarrow> SeekFrom \<Rightarrow> (nat \<times> 'd) io_result"
    and read :: "'d \<Rightarrow> nat \<Rightarrow> (bytes \<times> 'd) io_result"
    and get_uncompressed_length :: "'d \<Rightarrow> nat io_result"
    and contents :: "'d \<Rightarrow> bytes"
    and pos :: "'d \<Rightarrow> nat"
    and valid :: "'d \<Rightarrow> bool"
  assumes seek_start: "valid d \<Longrightarrow> s \<le> length (contents d) \<Longrightarrow>
      \<exists>d'. seek d (Start s) = Ok (s, d') \<and> valid d' \<and> contents d' = contents d \<and> pos d' = s"
    and seek_end: "valid d \<Longrightarrow> k \<le> length (contents d) \<Longrightarrow>
      \<exists>d'. seek d (End (- int k)) = Ok (length (contents d) - k, d') \<and> valid d' \<and>
        contents d' = contents d \<and> pos d' = length (contents d) - k"
    and seek_current: "valid d \<Longrightarrow> pos d \<le> length (contents d) \<Longrightarrow> t \<le> length (contents d) \<Longrightarrow>
      \<exists>d'. seek d (Current (int t - int (pos d))) = Ok (t, d') \<and> valid d' \<and> contents d' = contents d \<and> pos d' = t"
    and read_pos: "valid d \<Longrightarrow> pos d \<le> length (contents d) \<Longrightarrow>
      \<exists>d'. read d n = Ok (take n (drop (pos d) (contents d)), d') \<and> valid d' \<and>
        contents d' = contents d \<and> pos d' = min (pos d + n) (length (contents d))"
    and uncompressed_length: "valid d \<Longrightarrow> get_uncompressed_length d = Ok (length (contents d))"
begin

text \<open>Every way of seeking to a position within the contents, and what is read there.\<close>

lemma seek_within:
  assumes "valid d" and "pos d \<le> length (contents d)" and "t \<le> length (contents d)"
    and "seek_target (length (contents d)) (pos d) whence = int t"
  shows "\<exists>d'. seek d whence = Ok (t, d') \<and> valid d' \<and> contents d' = contents d \<and> pos d' = t"
proof (cases whence)
  case (Start s)
  with seek_start [OF assms(1,3)] assms(4) show ?thesis by simp
next
  case (End e)
  with assms(4) have "whence = End (- int (length (contents d) - t))" using assms(3) by simp
  with seek_end [OF assms(1), of "length (contents d) - t"] assms(3) show ?thesis by simp
next
  case (Current c)
  with assms(4) have "c = int t - int (pos d)" by simp
  with seek_current [OF assms(1-3)] Current show ?thesis by simp
qed

lemma seek_read:
  assumes "valid d" and "pos d \<le> length (contents d)" and "t \<le> length (contents d)"
    and "seek_target (length (contents d)) (pos d) whence = int t"
  shows "\<exists>d'. seek d whence = Ok (t, d') \<and> (\<forall>n. \<exists>d''. read d' n = Ok (take n (drop t (contents d)), d'') \<and>
    valid d'' \<and> contents d'' = contents d \<and> pos d'' = min (t + n) (length (contents d)))"
proof -
  from seek_within [OF assms] obtain d' where d': "seek d whence = Ok (t, d')" "valid d'"
    "contents d' = contents d" "pos d' = t" by blast
  have "\<exists>d''. read d' n = Ok (take n (drop t (contents d)), d'') \<and> valid d'' \<and> contents d'' = contents d \<and>
      pos d'' = min (t + n) (length (contents d))" for n
    using read_pos [of d' n] d' assms(3) by auto
  with d'(1) show ?thesis by blast
qed

end

section \<open>Both implementations meet the contract\<close>

definition Noop_valid :: "NoopDecompressor \<Rightarrow> bool" where
  "Noop_valid d \<longleftrightarrow> length (fh_data (nd_decoder d)) < 2 ^ 63"

definition seekable_of :: "seekable \<Rightarrow> bytes \<Rightarrow> bool" where
  "seekable_of s data \<longleftrightarrow> sum_list (sk_frame_sizes s) = length data \<and>
     (\<forall>n off. off + n \<le> length data \<longrightarrow> sk_decompress s n off = Ok (take n (drop off data)))"

definition Zstd_contents :: "ZstdDecompressor \<Rightarrow> bytes" where
  "Zstd_contents d =
     (case sk_decompress (zd_stream d) (zd_uncompressed_length d) 0 of Ok data \<Rightarrow> data | _ \<Rightarrow> [])"

definition Zstd_valid :: "ZstdDecompressor \<Rightarrow> bool" where
  "Zstd_valid d \<longleftrightarrow>
     seekable_of (zd_stream d) (Zstd_contents d) \<and>
     zd_uncompressed_length d = length (Zstd_contents d) \<and> length (Zstd_contents d) < 2 ^ 63"

lemma Zstd_contents_offset [simp]: "Zstd_contents (d\<lparr>zd_offset := s\<rparr>) = Zstd_contents d"
  by (simp add: Zstd_contents_def)

lemma Zstd_valid_offset [simp]: "Zstd_valid (d\<lparr>zd_offset := s\<rparr>) = Zstd_valid d"
  by (simp add: Zstd_valid_def)

interpretation noop: decompressor Noop_seek Noop_read Noop_get_uncompressed_length
  "\<lambda>d. fh_data (nd_decoder d)" "\<lambda>d. fh_pos (nd_decoder d)" Noop_valid
  by unfold_locales
    (auto simp: Noop_seek_def Noop_read_def Noop_get_uncompressed_length_def Noop_valid_def
      file_seek_to_def file_read_into_def Let_def nat_diff_distrib of_nat_diff)

lemma Zstd_read_spec:
  assumes "Zstd_valid d" and "zd_offset d \<le> length (Zstd_contents d)"
  shows "Zstd_read d n = Ok (take n (drop (zd_offset d) (Zstd_contents d)),
    d\<lparr>zd_offset := min (zd_offset d + n) (length (Zstd_contents d))\<rparr>)"
proof -
  let ?m = "min n (length (Zstd_contents d) - zd_offset d)"
  have "zd_offset d + ?m \<le> length (Zstd_contents d)" using assms(2) by auto
  then have dec: "sk_decompress (zd_stream d) ?m (zd_offset d) =
      Ok (take ?m (drop (zd_offset d) (Zstd_contents d)))"
    using assms(1) by (simp add: Zstd_valid_def seekable_of_def)
  moreover have "take ?m (drop (zd_offset d) (Zstd_contents d)) =
      take n (drop (zd_offset d) (Zstd_contents d))" by (simp add: min_def)
  moreover have "zd_offset d + ?m = min (zd_offset d + n) (length (Zstd_contents d))"
    using assms(2) by auto
  moreover have "min (zd_offset d + n) (length (Zstd_contents d)) < 2 ^ 64"
    using assms(1) by (auto simp: Zstd_valid_def min_def)
  ultimately show ?thesis
    using assms by (simp add: Zstd_read_def Zstd_valid_def min.commute min.left_commute)
qed

interpretation zstd: decompressor Zstd_seek Zstd_read Zstd_get_uncompressed_length
  Zstd_contents zd_offset Zstd_valid
proof unfold_locales
  fix d k
  assume "Zstd_valid d" and "k \<le> length (Zstd_contents d)"
  then show "\<exists>d'. Zstd_seek d (End (- int k)) = Ok (length (Zstd_contents d) - k, d') \<and>
      Zstd_valid d' \<and> Zstd_contents d' = Zstd_contents d \<and>
      zd_offset d' = length (Zstd_contents d) - k"
    by (auto simp: Zstd_valid_def neg_i64_def)
next
  fix d t
  assume "Zstd_valid d" "zd_offset d \<le> length (Zstd_contents d)" "t \<le> length (Zstd_contents d)"
  then show "\<exists>d'. Zstd_seek d (Current (int t - int (zd_offset d))) = Ok (t, d') \<and>
      Zstd_valid d' \<and> Zstd_contents d' = Zstd_contents d \<and> zd_offset d' = t"
    by (auto simp: Zstd_valid_def neg_i64_def nat_diff_distrib')
qed (auto simp: Zstd_read_spec Zstd_get_uncompressed_length_def Zstd_valid_def)

lemma sum_frames_Ok: "acc + sum_list xs < 2 ^ 64 \<Longrightarrow> sum_frames acc xs = Ok (acc + sum_list xs)"
  by (induction xs arbitrary: acc) (auto simp: algebra_simps)

lemma Zstd_decompress_valid:
  assumes "seekable_init src = Ok s" and "seekable_of s data" and "length data < 2 ^ 63"
  shows "\<exists>d. Zstd_decompress seekable_init src = Ok d \<and> Zstd_valid d \<and> Zstd_contents d = data"
proof -
  have "sum_frames 0 (sk_frame_sizes s) = Ok (length data)"
    using assms(2,3) sum_frames_Ok [of 0 "sk_frame_sizes s"] by (simp add: seekable_of_def)
  moreover have "sk_decompress s (length data) 0 = Ok data"
    using assms(2) by (simp add: seekable_of_def)
  ultimately show ?thesis
    using assms by (simp add: Zstd_decompress_def Zstd_valid_def Zstd_contents_def)
qed

section \<open>Compressing with a lawful stream\<close>

text \<open>
  What the zstd library documents of a \<open>SeekableCStream\<close>: \<open>fed c given made\<close> holds of a stream that has taken the
  bytes \<open>given\<close> and put out the bytes \<open>made\<close>. Calls may fail; one that succeeds takes a prefix of its
  input.
\<close>

definition cstream_feeds ::
    "'c cstream_ops \<Rightarrow> (nat \<Rightarrow> nat \<Rightarrow> 'c io_result) \<Rightarrow> ('c \<Rightarrow> bytes \<Rightarrow> bytes \<Rightarrow> bool) \<Rightarrow> bool" where
  "cstream_feeds ops new_cstream fed \<longleftrightarrow>
     (\<forall>p. new_cstream COMPRESSION_LEVEL FRAME_SIZE \<noteq> Panic p) \<and>
     (\<forall>c. new_cstream COMPRESSION_LEVEL FRAME_SIZE = Ok c \<longrightarrow> fed c [] []) \<and>
     (\<forall>c given made buf. fed c given made \<longrightarrow>
        (case cs_compress ops c buf of
           Err e \<Rightarrow> True
         | Panic p \<Rightarrow> False
         | Ok (out, n, c') \<Rightarrow> n \<le> length buf \<and> fed c' (given @ take n buf) (made @ out)))"

text \<open>
  \<open>ending m c given made\<close>: at most \<open>m\<close> more calls of \<open>end_stream\<close> have output; after them the whole output
  opens as a seekable stream of the input.
\<close>

definition cstream_ends ::
    "(file_handle \<Rightarrow> seekable io_result) \<Rightarrow> 'c cstream_ops \<Rightarrow> (nat \<Rightarrow> 'c \<Rightarrow> bytes \<Rightarrow> bytes \<Rightarrow> bool) \<Rightarrow> bool" where
  "cstream_ends seekable_init ops ending \<longleftrightarrow>
     (\<forall>m c given made. ending m c given made \<longrightarrow>
        (case cs_end_stream ops c of
           Err e \<Rightarrow> True
         | Panic p \<Rightarrow> False
         | Ok (out, c') \<Rightarrow>
             if out = [] then \<exists>s. seekable_init \<lparr>fh_data = made, fh_pos = 0\<rparr> = Ok s \<and> seekable_of s given
             else \<exists>k<m. ending k c' given (made @ out)))"

definition cstream_lawful ::
    "(file_handle \<Rightarrow> seekable io_result) \<Rightarrow> 'c cstream_ops \<Rightarrow> (nat \<Rightarrow> nat \<Rightarrow> 'c io_result) \<Rightarrow> bool" where
  "cstream_lawful seekable_init ops new_cstream \<longleftrightarrow>
     (\<exists>fed ending. cstream_feeds ops new_cstream fed \<and> cstream_ends seekable_init ops ending \<and>
        (\<forall>c given made. fed c given made \<longrightarrow> (\<exists>m. ending m c given made)))"

lemma Zstd_write_all_feeds:
  assumes "cstream_feeds ops new_cstream fed" and "fed (zc_stream z) given (zc_f z)"
  shows "case Zstd_write_all ops z buf of
      Err e \<Rightarrow> True | Panic p \<Rightarrow> False | Ok z' \<Rightarrow> fed (zc_stream z') (given @ buf) (zc_f z')"
  using assms
proof (induction ops z buf arbitrary: given rule: Zstd_write_all.induct)
  case (1 ops z buf)
  show ?case
  proof (cases "buf = []")
    case False
    have law: "case cs_compress ops (zc_stream z) buf of Err e \<Rightarrow> True | Panic p \<Rightarrow> False
      | Ok (out, n, c') \<Rightarrow> n \<le> length buf \<and> fed c' (given @ take n buf) (zc_f z @ out)"
      using "1.prems" unfolding cstream_feeds_def by blast
    show ?thesis
    proof (cases "cs_compress ops (zc_stream z) buf")
      case (Ok r)
      obtain out n c' where r: "r = (out, n, c')" by (cases r)
      let ?z = "z\<lparr>zc_f := zc_f z @ out, zc_stream := c'\<rparr>"
      have w: "Zstd_write ops z buf = Ok (n, ?z)" by (simp add: Zstd_write_def Ok r)
      from law Ok r have n: "n \<le> length buf" "fed c' (given @ take n buf) (zc_f z @ out)" by simp_all
      from "1.IH" [OF False w refl _ _ "1.prems"(1), of "given @ take n buf", unfolded append_assoc append_take_drop_id]
        n False show ?thesis
        by (simp add: Zstd_write_all.simps [of ops z buf] w)
    qed (use law in \<open>simp_all add: Zstd_write_all.simps [of ops z buf] Zstd_write_def False\<close>)
  qed (use "1.prems"(2) in \<open>simp add: Zstd_write_all.simps\<close>)
qed

lemma Zstd_end_returns:
  assumes "cstream_ends seekable_init ops ending" and "ending m (zc_stream z) given (zc_f z)"
  shows "\<exists>r. Zstd_end ops z = Some r \<and> (\<forall>p. r \<noteq> Panic p) \<and>
    (\<forall>out. r = Ok out \<longrightarrow> (\<exists>s. seekable_init \<lparr>fh_data = out, fh_pos = 0\<rparr> = Ok s \<and> seekable_of s given))"
  using assms(2)
proof (induction m arbitrary: z rule: less_induct)
  case (less m)
  have law: "case cs_end_stream ops (zc_stream z) of Err e \<Rightarrow> True | Panic p \<Rightarrow> False
    | Ok (out, c') \<Rightarrow> if out = [] then \<exists>s. seekable_init \<lparr>fh_data = zc_f z, fh_pos = 0\<rparr> = Ok s \<and> seekable_of s given
        else \<exists>k<m. ending k c' given (zc_f z @ out)"
    using assms(1) less.prems unfolding cstream_ends_def by blast
  show ?case
  proof (cases "cs_end_stream ops (zc_stream z)")
    case (Ok r)
    obtain out c' where r: "r = (out, c')" by (cases r)
    show ?thesis
    proof (cases "out = []")
      case False
      with law Ok r obtain k where "k < m" "ending k c' given (zc_f z @ out)" by auto
      from less.IH [OF this(1), of "z\<lparr>zc_f := zc_f z @ out, zc_stream := c'\<rparr>"] this(2) False Ok r show ?thesis
        by (simp add: Zstd_end.simps [of ops z])
    qed (use law Ok r in \<open>simp add: Zstd_end.simps [of ops z]\<close>)
  qed (use law in \<open>simp_all add: Zstd_end.simps [of ops z]\<close>)
qed

text \<open>Compressing always returns, never panics, and what it writes opens as a stream of the data.\<close>

lemma Zstd_compress_all_returns:
  assumes "cstream_lawful seekable_init ops new_cstream"
  shows "\<exists>r. Zstd_compress_all ops new_cstream data = Some r \<and> (\<forall>p. r \<noteq> Panic p) \<and>
    (\<forall>out. r = Ok out \<longrightarrow> (\<exists>s. seekable_init \<lparr>fh_data = out, fh_pos = 0\<rparr> = Ok s \<and> seekable_of s data))"
proof -
  from assms obtain fed ending where feeds: "cstream_feeds ops new_cstream fed" and ends: "cstream_ends seekable_init ops ending"
    and switch: "\<And>c given made. fed c given made \<Longrightarrow> \<exists>m. ending m c given made"
    unfolding cstream_lawful_def by blast
  show ?thesis
  proof (cases "new_cstream COMPRESSION_LEVEL FRAME_SIZE")
    case (Ok c)
    define z where "z = \<lparr>zc_f = [], zc_stream = c\<rparr>"
    have z: "Zstd_compress new_cstream [] = Ok z" by (simp add: Zstd_compress_def Ok z_def)
    have "fed (zc_stream z) [] (zc_f z)" using feeds Ok by (simp add: cstream_feeds_def z_def)
    from Zstd_write_all_feeds [OF feeds this, of data] have w: "case Zstd_write_all ops z data of
      Err e \<Rightarrow> True | Panic p \<Rightarrow> False | Ok z' \<Rightarrow> fed (zc_stream z') data (zc_f z')"
      by (simp only: append_Nil)
    show ?thesis
    proof (cases "Zstd_write_all ops z data")
      case (Ok z')
      with w have "fed (zc_stream z') data (zc_f z')" by simp
      from switch [OF this] obtain m where "ending m (zc_stream z') data (zc_f z')" ..
      from Zstd_end_returns [OF ends this] show ?thesis by (simp add: Zstd_compress_all_def z Ok)
    qed (use w in \<open>simp_all add: Zstd_compress_all_def z\<close>)
  qed (use feeds in \<open>simp_all add: Zstd_compress_all_def Zstd_compress_def cstream_feeds_def\<close>)
qed

end
