(* ===== verification/Image_Store.thy ===== *)
theory Image_Store
  imports Rootfs_Index Digest Compression
begin

text \<open>
  The OCI image as a content-addressed store: \<open>puzzlefs-lib/src/oci.rs\<close>, \<open>oci/media_types.rs\<close> and
  \<open>fsverity_helpers.rs\<close>. The state is the blob directory \<open>blobs/sha256\<close> (a map from file name to
  file) next to the opaque state of the \<open>ocidir\<close> crate. Everything the code calls in other crates is
  a field of the record \<open>env\<close>; the laws that are relied on are named predicates over it. The
  interface towards the file reader is the locale \<open>chunk_source\<close>.
\<close>

section \<open>Data\<close>

definition PUZZLEFS_ROOTFS :: string where
  "PUZZLEFS_ROOTFS = ''application/vnd.puzzlefs.image.rootfs.v1''"

definition PUZZLEFS_CHUNK_DATA :: string where
  "PUZZLEFS_CHUNK_DATA = ''application/vnd.puzzlefs.image.filedata.v1''"

definition VERITY_ROOT_HASH_ANNOTATION :: string where
  "VERITY_ROOT_HASH_ANNOTATION = ''io.puzzlefsoci.puzzlefs.puzzlefs_verity_root_hash''"

text \<open>\<open>media_types::{Rootfs, Chunk}\<close> and their \<open>PuzzleFSMediaType::name\<close>.\<close>

datatype PuzzleFSMediaType = RootfsMedia | ChunkMedia

fun media_name :: "PuzzleFSMediaType \<Rightarrow> string" where
  "media_name RootfsMedia = PUZZLEFS_ROOTFS"
| "media_name ChunkMedia = PUZZLEFS_CHUNK_DATA"

text \<open>A file of the blob directory; \<open>bf_verity\<close> tells whether fs-verity is enabled on it.\<close>

record blob_file =
  bf_data :: bytes
  bf_verity :: bool

record Descriptor =
  d_media_type :: string
  d_size :: nat
  d_digest :: string  \<comment> \<open>\<open>descriptor.digest().digest()\<close>: the hexadecimal part\<close>
  d_annotations :: "(string \<rightharpoonup> string) option"

record ImageManifest =
  m_config :: Descriptor
  m_layers :: "Descriptor list"

record 'o Image =
  im_blobs :: "string \<rightharpoonup> blob_file"
  im_oci :: 'o

record 'o env =
  env_hex :: hex_ops
  env_sha256 :: "bytes \<Rightarrow> bytes"
  env_fs_verity_sha256 :: "bytes \<Rightarrow> bytes"  \<comment> \<open>\<open>fs_verity::FsVeritySha256\<close>\<close>
  env_fsverity_measure :: "blob_file \<Rightarrow> bytes io_result"  \<comment> \<open>\<open>fs_verity::linux::fsverity_measure\<close>\<close>
  env_seekable_init :: "file_handle \<Rightarrow> seekable io_result"  \<comment> \<open>\<open>zstd_seekable::Seekable::init\<close>\<close>
  env_read_message :: "bytes \<Rightarrow> capnp_rootfs wire_result"  \<comment> \<open>\<open>BufferSegments::new\<close>, \<open>Reader::new\<close>\<close>
  env_write_message :: "capnp_rootfs \<Rightarrow> bytes wire_result"  \<comment> \<open>\<open>capnp::serialize::write_message\<close>\<close>
  env_digest_from_str :: "string \<Rightarrow> string wire_result"  \<comment> \<open>\<open>oci_spec::image::Digest::from_str\<close>\<close>
  env_write_error :: "string \<Rightarrow> bytes \<Rightarrow> io_error option"  \<comment> \<open>failure of \<open>dir().write\<close>\<close>
  env_reopen_error :: "string \<Rightarrow> io_error option"  \<comment> \<open>failure of opening or reading a blob that exists\<close>
  env_find_manifest_with_tag :: "'o Image \<Rightarrow> string \<Rightarrow> ImageManifest option wire_result"
  env_find_manifest_descriptor_with_tag :: "'o Image \<Rightarrow> string \<Rightarrow> Descriptor option wire_result"

section \<open>fs-verity\<close>

definition get_fs_verity_digest :: "'o env \<Rightarrow> bytes \<Rightarrow> bytes wire_result" where
  "get_fs_verity_digest env data = Ok (env_fs_verity_sha256 env data)"

definition check_fs_verity :: "'o env \<Rightarrow> blob_file \<Rightarrow> bytes \<Rightarrow> unit wire_result" where
  "check_fs_verity env file expected =
     (if length expected \<noteq> SHA256_BLOCK_SIZE then Err InvalidFsVerityData
      else and_then (map_err IOError (env_fsverity_measure env file)) (\<lambda>measurement.
        if expected \<noteq> measurement then Err InvalidFsVerityData else Ok ()))"

section \<open>Writing blobs\<close>

text \<open>
  The type parameter \<open>C: Compression + Any\<close>: whether it is \<open>Noop\<close> (the \<open>TypeId\<close> test), the bytes
  that \<open>C::compress\<close>, \<open>io::copy\<close> and \<open>end\<close> leave in the cursor, and \<open>append_extension\<close>. For zstd these are
  the bytes of \<open>Zstd_compress_all\<close>.
\<close>

record compression =
  c_is_noop :: bool
  c_compress :: "bytes \<Rightarrow> bytes io_result"
  c_append_extension :: "string \<Rightarrow> string"

definition Noop :: compression where
  "Noop = \<lparr>c_is_noop = True, c_compress = Noop_compress_all,
           c_append_extension = Noop_append_extension\<rparr>"

definition Zstd :: "(bytes \<Rightarrow> bytes io_result) \<Rightarrow> compression" where
  "Zstd zstd_compress_all =
     \<lparr>c_is_noop = False, c_compress = zstd_compress_all,
      c_append_extension = Zstd_append_extension\<rparr>"

text \<open>
  \<open>self.0.dir()\<close> at \<open>blob_path().join(digest)\<close>: an existing blob is read again and kept if it hashes to
  its name, a new one is written.
\<close>

definition store_blob ::
    "'o env \<Rightarrow> 'o Image \<Rightarrow> string \<Rightarrow> bytes \<Rightarrow> bytes \<Rightarrow> 'o Image wire_result" where
  "store_blob env im name digest final_data =
     (case im_blobs im name of
        Some f \<Rightarrow>
          (case env_reopen_error env name of
             Some e \<Rightarrow> Err (IOError e)
           | None \<Rightarrow>
               if env_sha256 env (bf_data f) \<noteq> digest then Err (IOError (CustomError AlreadyExists))
               else Ok im)
      | None \<Rightarrow>
          (case env_write_error env name final_data of
             Some e \<Rightarrow> Err (IOError e)
           | None \<Rightarrow>
               Ok (im\<lparr>im_blobs := (im_blobs im)(name \<mapsto> \<lparr>bf_data = final_data, bf_verity = False\<rparr>)\<rparr>)))"

definition put_blob ::
    "'o env \<Rightarrow> compression \<Rightarrow> 'o Image \<Rightarrow> bytes \<Rightarrow> ImageManifest \<Rightarrow> PuzzleFSMediaType \<Rightarrow>
     ((Descriptor \<times> bytes \<times> bool) \<times> 'o Image \<times> ImageManifest) wire_result" where
  "put_blob env C im buf image_manifest media_type =
     and_then (map_err IOError (c_compress C buf)) (\<lambda>compressed_data.
     let compressed_size = length compressed_data;
         uncompressed_size = length buf;
         final_size = min compressed_size uncompressed_size;
         fallback = (\<not> c_is_noop C \<and> compressed_size \<ge> uncompressed_size);
         compressed_blob = (\<not> c_is_noop C \<and> \<not> fallback);
         final_data = (if fallback then buf else compressed_data);
         digest = env_sha256 env final_data;
         media_type_with_extension = c_append_extension C (media_name media_type);
         digest_string = ''sha256:'' @ hex_encode (env_hex env) digest
     in
     and_then (get_fs_verity_digest env compressed_data) (\<lambda>fs_verity_digest.
     and_then (env_digest_from_str env digest_string) (\<lambda>name.
     let descriptor =
           \<lparr>d_media_type = media_type_with_extension, d_size = final_size, d_digest = name,
            d_annotations =
              (if media_name media_type = PUZZLEFS_ROOTFS
               then Some [VERITY_ROOT_HASH_ANNOTATION \<mapsto> hex_encode (env_hex env) fs_verity_digest]
               else None)\<rparr>
     in
     and_then (store_blob env im name digest final_data) (\<lambda>im'.
       Ok ((descriptor, fs_verity_digest, compressed_blob), im',
           image_manifest\<lparr>m_layers :=
             (if media_name media_type = PUZZLEFS_ROOTFS then descriptor # m_layers image_manifest
              else m_layers image_manifest @ [descriptor])\<rparr>)))))"

section \<open>Reading blobs\<close>

definition open_raw_blob ::
    "'o env \<Rightarrow> 'o Image \<Rightarrow> string \<Rightarrow> bytes option \<Rightarrow> blob_file io_result" where
  "open_raw_blob env im digest verity =
     (case im_blobs im digest of
        None \<Rightarrow> Err (OsError (errno_code ENOENT))
      | Some file \<Rightarrow>
          (case verity of
             None \<Rightarrow> Ok file
           | Some v \<Rightarrow>
               and_then (map_err (\<lambda>e. CustomError OtherKind) (check_fs_verity env file v))
                 (\<lambda>_. Ok file)))"

definition open_compressed_blob_Noop ::
    "'o env \<Rightarrow> 'o Image \<Rightarrow> Digest \<Rightarrow> bytes option \<Rightarrow> NoopDecompressor io_result" where
  "open_compressed_blob_Noop env im digest verity =
     and_then (open_raw_blob env im (Digest_to_string (env_hex env) digest) verity) (\<lambda>f.
       Noop_decompress \<lparr>fh_data = bf_data f, fh_pos = 0\<rparr>)"

definition open_compressed_blob_Zstd ::
    "'o env \<Rightarrow> 'o Image \<Rightarrow> Digest \<Rightarrow> bytes option \<Rightarrow> ZstdDecompressor io_result" where
  "open_compressed_blob_Zstd env im digest verity =
     and_then (open_raw_blob env im (Digest_to_string (env_hex env) digest) verity) (\<lambda>f.
       Zstd_decompress (env_seekable_init env) \<lparr>fh_data = bf_data f, fh_pos = 0\<rparr>)"

text \<open>
  \<open>blob.seek(SeekFrom::Start(..))\<close> then \<open>blob.read(buf)\<close> on the boxed decompressor. The result is the
  bytes written to the front of the buffer; their number is the \<open>n\<close> the code returns.
\<close>

definition seek_and_read ::
    "('d \<Rightarrow> SeekFrom \<Rightarrow> (nat \<times> 'd) io_result) \<Rightarrow> ('d \<Rightarrow> nat \<Rightarrow> (bytes \<times> 'd) io_result) \<Rightarrow>
     'd \<Rightarrow> BlobRef \<Rightarrow> nat \<Rightarrow> nat \<Rightarrow> bytes io_result" where
  "seek_and_read seek read blob chunk addl_offset n =
     and_then (uadd 64 (unat (br_offset chunk)) addl_offset) (\<lambda>off.
     and_then (seek blob (Start off)) (\<lambda>(p, blob').
     and_then (read blob' n) (\<lambda>(out, blob''). Ok out)))"

text \<open>\<open>let file_verity = \<dots>\<close>: the digest to check the blob against, if verity data is in use.\<close>

definition file_verity_of :: "VerityData option \<Rightarrow> Digest \<Rightarrow> bytes option wire_result" where
  "file_verity_of verity_data digest =
     (case verity_data of
        None \<Rightarrow> Ok None
      | Some verity \<Rightarrow>
          map_ok Some (ok_or (btree_get verity (underlying digest)) InvalidFsVerityData))"

definition fill_from_chunk ::
    "'o env \<Rightarrow> 'o Image \<Rightarrow> VerityData option \<Rightarrow> BlobRef \<Rightarrow> nat \<Rightarrow> nat \<Rightarrow> bytes wire_result" where
  "fill_from_chunk env im verity_data chunk addl_offset n =
     and_then (Digest_try_from_BlobRef chunk) (\<lambda>digest.
     and_then (file_verity_of verity_data digest) (\<lambda>file_verity.
     map_err IOError
       (if br_compressed chunk
        then and_then (open_compressed_blob_Zstd env im digest file_verity) (\<lambda>blob.
               seek_and_read Zstd_seek Zstd_read blob chunk addl_offset n)
        else and_then (open_compressed_blob_Noop env im digest file_verity) (\<lambda>blob.
               seek_and_read Noop_seek Noop_read blob chunk addl_offset n))))"

section \<open>The manifest and the rootfs\<close>

definition find_manifest :: "'o env \<Rightarrow> 'o Image \<Rightarrow> string \<Rightarrow> ImageManifest wire_result" where
  "find_manifest env im tag =
     and_then (env_find_manifest_with_tag env im tag) (\<lambda>m. ok_or m (MissingManifest tag))"

definition find_rootfs_desc :: "ImageManifest \<Rightarrow> Descriptor wire_result" where
  "find_rootfs_desc manifest =
     ok_or (List.find (\<lambda>desc. d_media_type desc = PUZZLEFS_ROOTFS) (m_layers manifest)) MissingRootfs"

definition get_pfs_rootfs_verity :: "'o env \<Rightarrow> 'o Image \<Rightarrow> string \<Rightarrow> bytes wire_result" where
  "get_pfs_rootfs_verity env im tag =
     and_then (find_manifest env im tag) (\<lambda>manifest.
     and_then (find_rootfs_desc manifest) (\<lambda>rootfs_desc.
     and_then (ok_or (d_annotations rootfs_desc) InvalidFsVerityData) (\<lambda>annotations.
     and_then (ok_or (annotations VERITY_ROOT_HASH_ANNOTATION) InvalidFsVerityData) (\<lambda>rootfs_verity.
       decode_to_slice (env_hex env) rootfs_verity))))"

definition get_pfs_rootfs ::
    "'o env \<Rightarrow> 'o Image \<Rightarrow> string \<Rightarrow> bytes option \<Rightarrow> blob_file wire_result" where
  "get_pfs_rootfs env im tag verity =
     and_then (find_manifest env im tag) (\<lambda>manifest.
     and_then (find_rootfs_desc manifest) (\<lambda>rootfs_desc.
       map_err IOError (open_raw_blob env im (d_digest rootfs_desc) verity)))"

definition get_image_manifest_fd :: "'o env \<Rightarrow> 'o Image \<Rightarrow> string \<Rightarrow> blob_file wire_result" where
  "get_image_manifest_fd env im tag =
     and_then (env_find_manifest_descriptor_with_tag env im tag) (\<lambda>d.
     and_then (ok_or d (MissingManifest tag)) (\<lambda>image_manifest.
       map_err IOError (open_raw_blob env im (d_digest image_manifest) None)))"

text \<open>
  \<open>env_read_message\<close> covers the segments and the root pointer of the message: the error that \<open>reader.get()\<close> returns
  at the first access of the root is reported when the message is opened, which every caller does right before.
\<close>

definition RootfsReader_open :: "'o env \<Rightarrow> blob_file \<Rightarrow> capnp_rootfs wire_result" where
  "RootfsReader_open env f = env_read_message env (bf_data f)"

definition open_rootfs_blob ::
    "'o env \<Rightarrow> 'o Image \<Rightarrow> string \<Rightarrow> bytes option \<Rightarrow> capnp_rootfs wire_result" where
  "open_rootfs_blob env im tag verity =
     and_then (case verity of
         None \<Rightarrow> Ok None
       | Some v \<Rightarrow>
           and_then (get_image_manifest_fd env im tag) (\<lambda>manifest.
           and_then (check_fs_verity env manifest v) (\<lambda>_.
             map_ok Some (get_pfs_rootfs_verity env im tag)))) (\<lambda>rootfs_verity.
     and_then (get_pfs_rootfs env im tag rootfs_verity) (\<lambda>rootfs_file.
       RootfsReader_open env rootfs_file))"

section \<open>Laws of the environment\<close>

text \<open>
  \<open>env_lawful\<close>: the hex codec is one; an OCI digest \<open>sha256:<hex>\<close> parses to its hexadecimal part; a
  SHA-256 value has 32 bytes.
\<close>

definition env_lawful :: "'o env \<Rightarrow> bool" where
  "env_lawful env \<longleftrightarrow> hex_lawful (env_hex env) \<and>
     (\<forall>d. length d = SHA256_BLOCK_SIZE \<longrightarrow>
        env_digest_from_str env (''sha256:'' @ hex_encode (env_hex env) d) =
          Ok (hex_encode (env_hex env) d)) \<and>
     (\<forall>data. length (env_sha256 env data) = SHA256_BLOCK_SIZE)"

text \<open>
  \<open>zstd_lawful\<close>: opening what the compressor produced gives a seekable stream of the input. A
  compressed chunk shorter than \<open>2 ^ 63\<close> bytes is all that is ever opened.
\<close>

definition zstd_lawful :: "'o env \<Rightarrow> (bytes \<Rightarrow> bytes io_result) \<Rightarrow> bool" where
  "zstd_lawful env zstd_compress_all \<longleftrightarrow>
     (\<forall>data z. zstd_compress_all data = Ok z \<longrightarrow>
        (\<exists>s. env_seekable_init env \<lparr>fh_data = z, fh_pos = 0\<rparr> = Ok s \<and> seekable_of s data))"

section \<open>The contract of a chunk source\<close>

text \<open>
  What the file reader relies on: the bytes behind a chunk reference are a fixed byte string, and
  filling a buffer from an offset inside it gives exactly the wanted slice.
\<close>

locale chunk_source =
  fixes fill :: "'s \<Rightarrow> BlobRef \<Rightarrow> nat \<Rightarrow> nat \<Rightarrow> bytes wire_result"
    and chunk_data :: "'s \<Rightarrow> BlobRef \<Rightarrow> bytes option"
  assumes fill_slice: "chunk_data s b = Some data \<Longrightarrow> off \<le> length data \<Longrightarrow>
      fill s b off n = Ok (take n (drop off data))"
begin

lemma fill_length:
  assumes "chunk_data s b = Some data" and "off + n \<le> length data"
  shows "\<exists>out. fill s b off n = Ok out \<and> length out = n"
  using assms by (auto simp: fill_slice)

end

text \<open>
  The bytes an image holds behind a chunk reference: the blob named by the digest, verified if
  verity data is given, decompressed if the reference says so, from the chunk's offset on.
\<close>

definition file_contents :: "'o env \<Rightarrow> bool \<Rightarrow> blob_file \<Rightarrow> bytes option" where
  "file_contents env compressed f =
     (if compressed
      then (case Zstd_decompress (env_seekable_init env) \<lparr>fh_data = bf_data f, fh_pos = 0\<rparr> of
              Ok d \<Rightarrow> if Zstd_valid d then Some (Zstd_contents d) else None
            | _ \<Rightarrow> None)
      else if length (bf_data f) < 2 ^ 63 then Some (bf_data f) else None)"

definition blob_contents :: "'o env \<Rightarrow> 'o Image \<Rightarrow> VerityData option \<Rightarrow> BlobRef \<Rightarrow> bytes option" where
  "blob_contents env im verity_data chunk =
     (case and_then (file_verity_of verity_data (Digest (br_digest chunk))) (\<lambda>file_verity.
        map_err IOError
          (open_raw_blob env im (hex_encode (env_hex env) (br_digest chunk)) file_verity)) of
        Ok f \<Rightarrow> file_contents env (br_compressed chunk) f
      | _ \<Rightarrow> None)"

definition image_chunk_data ::
    "'o env \<times> 'o Image \<times> VerityData option \<Rightarrow> BlobRef \<Rightarrow> bytes option" where
  "image_chunk_data = (\<lambda>(env, im, vd) chunk.
     (case blob_contents env im vd chunk of
        Some data \<Rightarrow>
          if unat (br_offset chunk) \<le> length data then Some (drop (unat (br_offset chunk)) data)
          else None
      | None \<Rightarrow> None))"

context decompressor
begin

lemma seek_and_read_slice:
  assumes "valid d" and "unat (br_offset chunk) + addl_offset \<le> length (contents d)"
    and "length (contents d) < 2 ^ 64"
  shows "seek_and_read seek read d chunk addl_offset n =
    Ok (take n (drop (unat (br_offset chunk) + addl_offset) (contents d)))"
proof -
  let ?off = "unat (br_offset chunk) + addl_offset"
  from seek_start [OF assms(1,2)] obtain d' where d': "seek d (Start ?off) = Ok (?off, d')" "valid d'"
    "contents d' = contents d" "pos d' = ?off" by blast
  with read_pos [of d' n] assms(2) obtain d'' where "read d' n = Ok (take n (drop ?off (contents d)), d'')" by auto
  with d'(1) assms(2,3) show ?thesis by (simp add: seek_and_read_def uadd_def)
qed

end

lemma file_contents_length: "file_contents env c f = Some data \<Longrightarrow> length data < 2 ^ 63"
  by (auto simp: file_contents_def Zstd_valid_def split: outcome.splits if_splits)

lemma seek_and_read_file:
  assumes "file_contents env (br_compressed chunk) f = Some data"
    and "unat (br_offset chunk) + addl_offset \<le> length data"
  shows "(if br_compressed chunk
      then and_then (Zstd_decompress (env_seekable_init env) \<lparr>fh_data = bf_data f, fh_pos = 0\<rparr>)
        (\<lambda>blob. seek_and_read Zstd_seek Zstd_read blob chunk addl_offset n)
      else and_then (Noop_decompress \<lparr>fh_data = bf_data f, fh_pos = 0\<rparr>)
        (\<lambda>blob. seek_and_read Noop_seek Noop_read blob chunk addl_offset n)) =
    Ok (take n (drop (unat (br_offset chunk) + addl_offset) data))"
  using assms file_contents_length [OF assms(1)]
  by (auto simp: file_contents_def Noop_decompress_def Noop_valid_def
      noop.seek_and_read_slice zstd.seek_and_read_slice split: outcome.splits if_splits)

lemma fill_from_chunk_slice:
  assumes "blob_contents env im vd chunk = Some data"
    and "unat (br_offset chunk) + addl_offset \<le> length data"
  shows "fill_from_chunk env im vd chunk addl_offset n =
    Ok (take n (drop (unat (br_offset chunk) + addl_offset) data))"
proof -
  from assms(1) obtain fv f where "file_verity_of vd (Digest (br_digest chunk)) = Ok fv"
    and "open_raw_blob env im (hex_encode (env_hex env) (br_digest chunk)) fv = Ok f"
    and "file_contents env (br_compressed chunk) f = Some data"
    by (auto simp: blob_contents_def split: outcome.splits)
  with seek_and_read_file [OF this(3) assms(2), of n] show ?thesis
    by (auto simp: fill_from_chunk_def Digest_try_from_BlobRef_def open_compressed_blob_Noop_def
        open_compressed_blob_Zstd_def Digest_to_string_def and_then_assoc split: if_splits)
qed

interpretation image: chunk_source "\<lambda>(env, im, vd). fill_from_chunk env im vd" image_chunk_data
proof unfold_locales
  fix s :: "'a env \<times> 'a Image \<times> VerityData option" and b data off n
  assume cd: "image_chunk_data s b = Some data" and off: "off \<le> length data"
  obtain env im vd where s: "s = (env, im, vd)" by (cases s)
  from cd [unfolded s] obtain whole where whole: "blob_contents env im vd b = Some whole"
    and data: "data = drop (unat (br_offset b)) whole" and le: "unat (br_offset b) \<le> length whole"
    by (auto simp: image_chunk_data_def split: option.splits if_splits)
  from off data le have "unat (br_offset b) + off \<le> length whole" by simp
  from fill_from_chunk_slice [OF whole this, of n]
  show "(case s of (env, im, vd) \<Rightarrow> fill_from_chunk env im vd) b off n =
      Ok (take n (drop off data))"
    by (simp add: s data add.commute)
qed

section \<open>What put\_blob stores\<close>

text \<open>
  The stored bytes: the input when compression does not pay off, the compressed bytes otherwise.
\<close>

definition stored_data :: "compression \<Rightarrow> bytes \<Rightarrow> bytes \<Rightarrow> bytes" where
  "stored_data C buf compressed_data =
     (if \<not> c_is_noop C \<and> length compressed_data \<ge> length buf then buf else compressed_data)"

text \<open>
  Content addressing: every blob is stored under the digest of its bytes, and no two byte strings
  that matter share a digest.
\<close>

definition content_addressed :: "'o env \<Rightarrow> 'o Image \<Rightarrow> bool" where
  "content_addressed env im \<longleftrightarrow>
     (\<forall>name f. im_blobs im name = Some f \<longrightarrow>
        name = hex_encode (env_hex env) (env_sha256 env (bf_data f)))"

definition collision_free :: "'o env \<Rightarrow> 'o Image \<Rightarrow> bytes \<Rightarrow> bool" where
  "collision_free env im data \<longleftrightarrow>
     (\<forall>name f. im_blobs im name = Some f \<longrightarrow> env_sha256 env (bf_data f) = env_sha256 env data \<longrightarrow>
        bf_data f = data)"

lemma put_blobE:
  assumes "put_blob env C im buf m mt = Ok ((desc, verity, compressed), im', m')"
    and "env_lawful env"
  obtains z where "c_compress C buf = Ok z"
    "d_digest desc = hex_encode (env_hex env) (env_sha256 env (stored_data C buf z))"
    "store_blob env im (d_digest desc) (env_sha256 env (stored_data C buf z)) (stored_data C buf z) = Ok im'"
    "verity = env_fs_verity_sha256 env z"
    "compressed \<longleftrightarrow> \<not> c_is_noop C \<and> length z < length buf"
    "d_size desc = min (length z) (length buf)"
    "d_annotations desc =
       (if mt = RootfsMedia
        then Some [VERITY_ROOT_HASH_ANNOTATION \<mapsto> hex_encode (env_hex env) verity] else None)"
    "d_media_type desc = c_append_extension C (media_name mt)"
    "m' = m\<lparr>m_layers := (if mt = RootfsMedia then desc # m_layers m else m_layers m @ [desc])\<rparr>"
proof -
  have mt: "media_name mt = PUZZLEFS_ROOTFS \<longleftrightarrow> mt = RootfsMedia"
    by (cases mt) (simp_all add: PUZZLEFS_ROOTFS_def PUZZLEFS_CHUNK_DATA_def)
  show thesis
    using assms that
    by (auto simp: put_blob_def Let_def get_fs_verity_digest_def stored_data_def env_lawful_def mt
        not_le)
qed

lemma store_blob_lookup:
  assumes "store_blob env im name (env_sha256 env data) data = Ok im'" and "collision_free env im data"
  shows "\<exists>f. im_blobs im' name = Some f \<and> bf_data f = data"
  using assms
  by (auto simp: store_blob_def collision_free_def split: option.splits if_splits)

lemma store_blob_mono:
  assumes "store_blob env im name digest data = Ok im'" and "im_blobs im k = Some f"
  shows "im_blobs im' k = Some f"
  using assms by (auto simp: store_blob_def split: option.splits if_splits)

lemma store_blob_content_addressed:
  assumes "store_blob env im (hex_encode (env_hex env) (env_sha256 env data)) (env_sha256 env data) data = Ok im'"
    and "content_addressed env im"
  shows "content_addressed env im'"
  using assms by (auto simp: store_blob_def content_addressed_def split: option.splits if_splits)

text \<open>The blob written for a buffer reads back as the buffer.\<close>

lemma file_contents_put:
  assumes "c_compress C buf = Ok z" and "bf_data f = stored_data C buf z" and "length buf < 2 ^ 63"
    and C: "C = Noop \<or> (\<exists>zc. C = Zstd zc \<and> zstd_lawful env zc)"
  shows "file_contents env (\<not> c_is_noop C \<and> length z < length buf) f = Some buf"
proof (cases "\<not> c_is_noop C \<and> length z < length buf")
  case True
  with C obtain zc where zc: "C = Zstd zc" "zstd_lawful env zc" by (auto simp: Noop_def)
  with assms(1) obtain s where "env_seekable_init env \<lparr>fh_data = z, fh_pos = 0\<rparr> = Ok s"
    and "seekable_of s buf" by (auto simp: Zstd_def zstd_lawful_def)
  from Zstd_decompress_valid [where seekable_init = "env_seekable_init env", OF this assms(3)]
  show ?thesis using True assms(2) by (auto simp: file_contents_def stored_data_def)
next
  case False
  then have "stored_data C buf z = buf"
    using assms(1) C by (auto simp: stored_data_def Noop_def Noop_compress_all_def Zstd_def)
  with False assms(2,3) show ?thesis by (auto simp: file_contents_def)
qed

lemma put_blob_contents:
  assumes put: "put_blob env C im buf m mt = Ok ((desc, verity, compressed), im', m')"
    and env: "env_lawful env" and C: "C = Noop \<or> (\<exists>zc. C = Zstd zc \<and> zstd_lawful env zc)"
    and len: "length buf < 2 ^ 63"
    and cf: "\<And>z. c_compress C buf = Ok z \<Longrightarrow> collision_free env im (stored_data C buf z)"
    and dg: "Digest_try_from_str (env_hex env) (d_digest desc) = Ok (Digest dg)"
  shows "blob_contents env im' None \<lparr>br_digest = dg, br_offset = off, br_compressed = compressed\<rparr> = Some buf"
proof -
  from put env obtain z where z: "c_compress C buf = Ok z"
    "d_digest desc = hex_encode (env_hex env) (env_sha256 env (stored_data C buf z))"
    "store_blob env im (d_digest desc) (env_sha256 env (stored_data C buf z)) (stored_data C buf z) = Ok im'"
    "compressed \<longleftrightarrow> \<not> c_is_noop C \<and> length z < length buf"
    by (rule put_blobE)
  from dg z(2) env have "dg = env_sha256 env (stored_data C buf z)"
    by (auto simp: Digest_try_from_str_def decode_to_slice_encode env_lawful_def)
  moreover from store_blob_lookup [OF z(3) cf [OF z(1)]] obtain f where
    f: "im_blobs im' (d_digest desc) = Some f" "bf_data f = stored_data C buf z" by blast
  moreover from file_contents_put [OF z(1) f(2) len C] z(4)
  have "file_contents env compressed f = Some buf" by simp
  ultimately show ?thesis
    using z(2) by (simp add: blob_contents_def file_verity_of_def open_raw_blob_def)
qed

end
