(* ===== verification/File_Reader.thy ===== *)
theory File_Reader
  imports Image_Store
begin

text \<open>
  Reading file contents: \<open>file_read\<close> and \<open>FileReader\<close> of \<open>puzzlefs-lib/src/reader/puzzlefs.rs\<close>. The
  loop takes the function that fills a buffer from a chunk as an argument, so that its correctness is
  proved once for every \<open>chunk_source\<close>; the property of the program is the instance for an image.
\<close>

section \<open>file\_read\<close>

text \<open>Writing \<open>out\<close> into the buffer at \<open>start\<close>.\<close>

definition overwrite :: "'a list \<Rightarrow> nat \<Rightarrow> 'a list \<Rightarrow> 'a list" where
  "overwrite xs start out = take start xs @ out @ drop (start + length out) xs"

text \<open>
  The loop over the chunks. \<open>data\<close> is the caller's buffer; the result is the number of bytes read and
  the buffer afterwards.
\<close>

primrec file_read_loop ::
    "(BlobRef \<Rightarrow> nat \<Rightarrow> nat \<Rightarrow> bytes wire_result) \<Rightarrow> nat \<Rightarrow> nat \<Rightarrow> nat \<Rightarrow> nat \<Rightarrow> bytes \<Rightarrow>
     FileChunk list \<Rightarrow> (nat \<times> bytes) wire_result" where
  "file_read_loop fill offset end_off file_offset buf_offset data [] = Ok (buf_offset, data)"
| "file_read_loop fill offset end_off file_offset buf_offset data (chunk # chunks) =
     (if file_offset > end_off then Ok (buf_offset, data)
      else
        and_then (uadd 64 file_offset (unat (fc_len chunk))) (\<lambda>chunk_end.
        if chunk_end < offset
        then file_read_loop fill offset end_off chunk_end buf_offset data chunks
        else
          let addl_offset = offset - file_offset in
          and_then (usub (length data) buf_offset) (\<lambda>left_in_buf.
          and_then (usub (unat (fc_len chunk)) addl_offset) (\<lambda>left_in_chunk.
          let to_read = min left_in_buf left_in_chunk; start = buf_offset in
          and_then (uadd 64 start to_read) (\<lambda>finish.
          and_then (uadd 64 file_offset addl_offset) (\<lambda>file_offset'.
          if finish > length data then Panic IndexOutOfBounds
          else
            and_then (fill (fc_blob chunk) addl_offset (finish - start)) (\<lambda>out.
            and_then (uadd 64 file_offset' (length out)) (\<lambda>file_offset''.
            and_then (uadd 64 buf_offset (length out)) (\<lambda>buf_offset'.
              file_read_loop fill offset end_off file_offset'' buf_offset'
                (overwrite data start out) chunks)))))))))"

definition file_read ::
    "'o env \<Rightarrow> 'o Image \<Rightarrow> Inode \<Rightarrow> nat \<Rightarrow> bytes \<Rightarrow> VerityData option \<Rightarrow> (nat \<times> bytes) wire_result" where
  "file_read env oci inode offset data verity_data =
     (case i_mode inode of
        File chunks \<Rightarrow>
          and_then (uadd 64 offset (length data)) (\<lambda>end_off.
            file_read_loop (fill_from_chunk env oci verity_data) offset end_off 0 0 data chunks)
      | _ \<Rightarrow> Err (from_errno ENOTDIR))"

section \<open>FileReader\<close>

record 'o FileReader =
  fr_oci :: "'o Image"
  fr_inode :: Inode
  fr_offset :: nat
  fr_len :: nat

definition FileReader_new :: "'o Image \<Rightarrow> Inode \<Rightarrow> 'o FileReader wire_result" where
  "FileReader_new oci inode =
     and_then (file_len inode) (\<lambda>len.
       Ok \<lparr>fr_oci = oci, fr_inode = inode, fr_offset = 0, fr_len = unat len\<rparr>)"

text \<open>\<open>io::Read::read\<close> on a buffer of length \<open>n\<close>: the bytes read and the new reader.\<close>

definition FileReader_read ::
    "'o env \<Rightarrow> 'o FileReader \<Rightarrow> nat \<Rightarrow> (bytes \<times> 'o FileReader) io_result" where
  "FileReader_read env r n =
     and_then (usub (fr_len r) (fr_offset r)) (\<lambda>left.
     let to_read = min left n in
     if to_read = 0 then Ok ([], r)
     else
       and_then (map_err (\<lambda>e. OsError (to_errno e))
         (file_read env (fr_oci r) (fr_inode r) (fr_offset r) (replicate to_read 0) None))
         (\<lambda>(read, buf).
       and_then (uadd 64 (fr_offset r) read) (\<lambda>off.
         Ok (take read buf, r\<lparr>fr_offset := off\<rparr>))))"

text \<open>
  \<open>io::copy\<close> from the reader: read into a buffer of \<open>n\<close> bytes until a read returns nothing. \<open>None\<close> is
  a loop that does not end.
\<close>

partial_function (option) copy_from_reader ::
    "'o env \<Rightarrow> nat \<Rightarrow> 'o FileReader \<Rightarrow> bytes \<Rightarrow> bytes io_result option" where
  "copy_from_reader env n r acc =
     (case FileReader_read env r n of
        Err e \<Rightarrow> Some (Err e)
      | Panic p \<Rightarrow> Some (Panic p)
      | Ok (out, r') \<Rightarrow>
          (if out = [] then Some (Ok acc) else copy_from_reader env n r' (acc @ out)))"

section \<open>Specification\<close>

text \<open>
  The bytes of a file: the chunks' bytes one after the other. A chunk is readable when the source
  has at least as many bytes behind its reference as its length says.
\<close>

definition chunks_readable :: "(BlobRef \<Rightarrow> bytes option) \<Rightarrow> FileChunk list \<Rightarrow> bool" where
  "chunks_readable cd chunks \<longleftrightarrow>
     list_all (\<lambda>c. case cd (fc_blob c) of
         Some d \<Rightarrow> unat (fc_len c) \<le> length d | None \<Rightarrow> False) chunks"

definition file_bytes :: "(BlobRef \<Rightarrow> bytes option) \<Rightarrow> FileChunk list \<Rightarrow> bytes" where
  "file_bytes cd chunks =
     concat (map (\<lambda>c. take (unat (fc_len c)) (the (cd (fc_blob c)))) chunks)"

section \<open>Correctness for every chunk source\<close>

lemma file_bytes_Nil [simp]: "file_bytes cd [] = []"
  by (simp add: file_bytes_def)

lemma file_bytes_Cons: "file_bytes cd (c # cs) = take (unat (fc_len c)) (the (cd (fc_blob c))) @ file_bytes cd cs"
  by (simp add: file_bytes_def)

lemma chunks_readable_Cons:
  "chunks_readable cd (c # cs) \<longleftrightarrow>
     (\<exists>d. cd (fc_blob c) = Some d \<and> unat (fc_len c) \<le> length d) \<and> chunks_readable cd cs"
  by (auto simp: chunks_readable_def split: option.splits)

lemma length_file_bytes: "chunks_readable cd cs \<Longrightarrow> length (file_bytes cd cs) = chunks_total cs"
  by (induction cs) (auto simp: chunks_readable_Cons file_bytes_Cons)

lemma overwrite_empty [simp]: "overwrite xs start [] = xs"
  by (simp add: overwrite_def)

lemma length_overwrite: "start + length out \<le> length xs \<Longrightarrow> length (overwrite xs start out) = length xs"
  by (simp add: overwrite_def)

lemma overwrite_append:
  "start + length us + length vs \<le> length xs \<Longrightarrow>
   overwrite (overwrite xs start us) (start + length us) vs = overwrite xs start (us @ vs)"
  by (simp add: overwrite_def ac_simps)

text \<open>One iteration that reads: what the loop does when the chunk is not skipped.\<close>

lemma file_read_loop_step:
  fixes fill :: "BlobRef \<Rightarrow> nat \<Rightarrow> nat \<Rightarrow> bytes wire_result"
  assumes "fo \<le> end_off" and "offset \<le> fo + unat (fc_len c)" and "fo + unat (fc_len c) < 2 ^ 64"
    and "bo \<le> length data" and "length data < 2 ^ 64"
    and n: "n = min (length data - bo) (unat (fc_len c) - (offset - fo))"
  shows "file_read_loop fill offset end_off fo bo data (c # cs) =
    and_then (fill (fc_blob c) (offset - fo) n) (\<lambda>out.
      and_then (uadd 64 (fo + (offset - fo)) (length out)) (\<lambda>fo'.
      and_then (uadd 64 bo (length out)) (\<lambda>bo'.
        file_read_loop fill offset end_off fo' bo' (overwrite data bo out) cs)))"
proof -
  have ok: "uadd 64 fo (unat (fc_len c)) = Ok (fo + unat (fc_len c))"
    "usub (length data) bo = Ok (length data - bo)"
    "usub (unat (fc_len c)) (offset - fo) = Ok (unat (fc_len c) - (offset - fo))"
    "uadd 64 bo n = Ok (bo + n)" "uadd 64 fo (offset - fo) = Ok (fo + (offset - fo))"
    using assms by auto
  have guards: "(end_off < fo) = False" "(fo + unat (fc_len c) < offset) = False"
    "(length data < bo + n) = False" "bo + n - bo = n"
    using assms by auto
  show ?thesis
    by (simp only: file_read_loop.simps Let_def n [symmetric] ok guards and_then.simps if_False)
qed

lemma take_drop_append:
  "k \<le> length xs \<Longrightarrow>
   take m (drop k (xs @ ys)) = take (min m (length xs - k)) (drop k xs) @ take (m - (length xs - k)) ys"
  by (simp add: min_def)

context chunk_source
begin

text \<open>
  The invariant: \<open>buf_offset\<close> bytes of the buffer are filled and the file offset is at most
  \<open>offset + buf_offset\<close>. Then the rest of the loop appends the slice of the remaining bytes that
  starts \<open>offset - file_offset\<close> in, cut to what is left of the buffer.
\<close>

lemma file_read_loop_correct:
  assumes "chunks_readable (chunk_data s) chunks"
    and "bo \<le> length data" and "fo \<le> offset + bo" and "fo + chunks_total chunks < 2 ^ 64"
    and "offset + length data < 2 ^ 64"
  shows "file_read_loop (fill s) offset (offset + length data) fo bo data chunks =
    (let out = take (length data - bo) (drop (offset - fo) (file_bytes (chunk_data s) chunks))
     in Ok (bo + length out, overwrite data bo out))"
  using assms
proof (induction chunks arbitrary: bo fo data)
  case (Cons c cs)
  from Cons.prems(1) obtain d where d: "chunk_data s (fc_blob c) = Some d" "unat (fc_len c) \<le> length d"
    and cs: "chunks_readable (chunk_data s) cs" by (auto simp: chunks_readable_Cons)
  let ?len = "unat (fc_len c)" and ?rest = "file_bytes (chunk_data s) cs"
  have fb: "file_bytes (chunk_data s) (c # cs) = take ?len d @ ?rest" by (simp add: file_bytes_Cons d)
  from Cons.prems have guard: "\<not> fo > offset + length data" and add: "fo + ?len < 2 ^ 64" by auto
  show ?case
  proof (cases "fo + ?len < offset")
    case True
    have "file_read_loop (fill s) offset (offset + length data) (fo + ?len) bo data cs =
      (let out = take (length data - bo) (drop (offset - (fo + ?len)) ?rest)
       in Ok (bo + length out, overwrite data bo out))"
      by (rule Cons.IH) (use True cs Cons.prems in auto)
    with True guard add d(2) show ?thesis by (simp add: uadd_def fb)
  next
    case False
    define n where "n = min (length data - bo) (?len - (offset - fo))"
    define out where "out = take n (drop (offset - fo) d)"
    define fo' where "fo' = fo + (offset - fo) + n"
    have fill: "fill s (fc_blob c) (offset - fo) n = Ok out" using False d by (simp add: fill_slice out_def)
    have len_out: "length out = n" using False d(2) by (auto simp: out_def n_def)
    have "fo' \<le> offset + (bo + n)" "fo' + chunks_total cs < 2 ^ 64" "bo + n \<le> length data"
      using False Cons.prems by (auto simp: fo'_def n_def)
    then have step: "file_read_loop (fill s) offset (offset + length data) fo bo data (c # cs) =
        file_read_loop (fill s) offset (offset + length data) fo' (bo + n) (overwrite data bo out) cs"
      using False guard add Cons.prems(2-5)
      by (subst file_read_loop_step [OF _ _ add _ _ n_def]) (auto simp: fill len_out fo'_def uadd_def)
    have len': "length (overwrite data bo out) = length data"
      using \<open>bo + n \<le> length data\<close> len_out by (intro length_overwrite) simp
    define out' where "out' = take (length data - (bo + n)) (drop (offset - fo') ?rest)"
    have IH: "file_read_loop (fill s) offset (offset + length data) fo' (bo + n) (overwrite data bo out) cs =
      Ok (bo + n + length out', overwrite (overwrite data bo out) (bo + n) out')"
      using Cons.IH [of "bo + n" "overwrite data bo out" fo'] cs len' Cons.prems(5)
        \<open>fo' \<le> offset + (bo + n)\<close> \<open>fo' + chunks_total cs < 2 ^ 64\<close> \<open>bo + n \<le> length data\<close>
      by (simp add: out'_def Let_def)
    have "take (length data - bo - (?len - (offset - fo))) ?rest = out'"
      using False by (cases "length data - bo \<le> ?len - (offset - fo)") (auto simp: out'_def n_def fo'_def)
    then have whole: "take (length data - bo) (drop (offset - fo) (take ?len d @ ?rest)) = out @ out'"
      using False d(2) by (subst take_drop_append) (auto simp: out_def n_def drop_take min.commute)
    have "overwrite (overwrite data bo out) (bo + n) out' = overwrite data bo (out @ out')"
      using overwrite_append [of bo out out' data] len_out \<open>bo + n \<le> length data\<close>
      by (simp add: out'_def)
    then show ?thesis unfolding step IH fb whole by (simp add: Let_def len_out add.assoc)
  qed
qed simp

text \<open>
  After the chunks of a readable prefix the loop is at some file offset that is either the prefix's
  end or already at or past the requested offset: it never stops early.
\<close>

lemma file_read_loop_prefix:
  assumes "chunks_readable (chunk_data s) pre"
    and "bo \<le> length data" and "fo \<le> offset + bo" and "fo + chunks_total pre < 2 ^ 64"
    and "offset + length data < 2 ^ 64"
  shows "\<exists>fo' bo' data'. file_read_loop (fill s) offset (offset + length data) fo bo data (pre @ rest) =
      file_read_loop (fill s) offset (offset + length data) fo' bo' data' rest \<and>
    length data' = length data \<and> bo' \<le> length data \<and> fo' \<le> offset + bo' \<and>
    fo' \<le> fo + chunks_total pre \<and> (fo' = fo + chunks_total pre \<or> offset \<le> fo')"
  using assms
proof (induction pre arbitrary: bo fo data)
  case (Cons c cs)
  from Cons.prems(1) obtain d where d: "chunk_data s (fc_blob c) = Some d" "unat (fc_len c) \<le> length d"
    and cs: "chunks_readable (chunk_data s) cs" by (auto simp: chunks_readable_Cons)
  let ?len = "unat (fc_len c)"
  from Cons.prems have guard: "\<not> fo > offset + length data" and add: "fo + ?len < 2 ^ 64" by auto
  show ?case
  proof (cases "fo + ?len < offset")
    case True
    from Cons.IH [of bo data "fo + ?len"] True cs Cons.prems guard show ?thesis
      by (fastforce simp: uadd_def)
  next
    case False
    define n where "n = min (length data - bo) (?len - (offset - fo))"
    define out where "out = take n (drop (offset - fo) d)"
    define fo' where "fo' = fo + (offset - fo) + n"
    have fill: "fill s (fc_blob c) (offset - fo) n = Ok out" using False d by (simp add: fill_slice out_def)
    have len_out: "length out = n" using False d(2) by (auto simp: out_def n_def)
    have inv: "fo' \<le> offset + (bo + n)" "fo' \<le> fo + ?len" "bo + n \<le> length data" "offset \<le> fo'"
      using False Cons.prems by (auto simp: fo'_def n_def)
    with Cons.prems False guard add have "file_read_loop (fill s) offset (offset + length data) fo bo data (c # cs @ rest) =
        file_read_loop (fill s) offset (offset + length data) fo' (bo + n) (overwrite data bo out) (cs @ rest)"
      by (subst file_read_loop_step [OF _ _ add _ _ n_def]) (auto simp: fill len_out fo'_def uadd_def)
    moreover have "length (overwrite data bo out) = length data"
      using inv(3) len_out by (intro length_overwrite) simp
    ultimately show ?thesis
      using Cons.IH [of "bo + n" "overwrite data bo out" fo'] cs inv Cons.prems by fastforce
  qed
qed auto

lemma file_read_loop_failing_chunk:
  assumes "chunks_readable (chunk_data s) pre" and "chunks_total pre + unat (fc_len c) < 2 ^ 64"
    and "offset + length data < 2 ^ 64" and "offset \<le> chunks_total pre + unat (fc_len c)"
    and fail: "\<And>off n. fill s (fc_blob c) off n = Err e"
  shows "file_read_loop (fill s) offset (offset + length data) 0 0 data (pre @ c # post) = Err e"
proof -
  from file_read_loop_prefix [OF assms(1), of 0 data 0 offset "c # post"] assms(2,3)
  obtain fo bo data' where eq: "file_read_loop (fill s) offset (offset + length data) 0 0 data (pre @ c # post) =
      file_read_loop (fill s) offset (offset + length data) fo bo data' (c # post)"
    and inv: "length data' = length data" "bo \<le> length data" "fo \<le> offset + bo" "fo \<le> chunks_total pre"
      "fo = chunks_total pre \<or> offset \<le> fo" by auto
  show ?thesis
    unfolding eq
    by (subst file_read_loop_step [OF _ _ _ _ _ refl]) (use inv assms(2-4) in \<open>auto simp: fail\<close>)
qed

end

section \<open>The reader of an image\<close>

lemma file_read_image:
  assumes "i_mode inode = File chunks" and "chunks_readable (image_chunk_data (env, oci, vd)) chunks"
    and "chunks_total chunks < 2 ^ 64" and "offset + length data < 2 ^ 64"
  shows "file_read env oci inode offset data vd =
    (let out = take (length data) (drop offset (file_bytes (image_chunk_data (env, oci, vd)) chunks))
     in Ok (length out, out @ drop (length out) data))"
  using assms image.file_read_loop_correct [OF assms(2), of 0 data 0 offset]
  by (simp add: file_read_def uadd_def overwrite_def Let_def)

text \<open>A reader is at an offset of a readable regular file.\<close>

definition reader_at :: "'o env \<Rightarrow> 'o FileReader \<Rightarrow> FileChunk list \<Rightarrow> bool" where
  "reader_at env r chunks \<longleftrightarrow>
     i_mode (fr_inode r) = File chunks \<and>
     chunks_readable (image_chunk_data (env, fr_oci r, None)) chunks \<and>
     chunks_total chunks < 2 ^ 63 \<and> fr_len r = chunks_total chunks \<and> fr_offset r \<le> fr_len r"

definition reader_rest :: "'o env \<Rightarrow> 'o FileReader \<Rightarrow> FileChunk list \<Rightarrow> bytes" where
  "reader_rest env r chunks =
     drop (fr_offset r) (file_bytes (image_chunk_data (env, fr_oci r, None)) chunks)"

lemma length_reader_rest: "reader_at env r chunks \<Longrightarrow> length (reader_rest env r chunks) = fr_len r - fr_offset r"
  by (simp add: reader_at_def reader_rest_def length_file_bytes)

lemma FileReader_read_spec:
  assumes "reader_at env r chunks"
  shows "\<exists>r'. FileReader_read env r n = Ok (take n (reader_rest env r chunks), r') \<and>
    reader_at env r' chunks \<and> reader_rest env r' chunks = drop n (reader_rest env r chunks)"
proof (cases "min (fr_len r - fr_offset r) n = 0")
  case True
  with assms have "take n (reader_rest env r chunks) = []" "drop n (reader_rest env r chunks) = reader_rest env r chunks"
    using length_reader_rest [OF assms] by (auto simp: min_def split: if_splits)
  with True assms show ?thesis by (simp add: FileReader_read_def reader_at_def)
next
  case False
  define k where "k = min (fr_len r - fr_offset r) n"
  from assms have r: "i_mode (fr_inode r) = File chunks" "fr_offset r + k \<le> fr_len r"
    "chunks_readable (image_chunk_data (env, fr_oci r, None)) chunks" "fr_len r < 2 ^ 63"
    "fr_len r = chunks_total chunks"
    by (auto simp: reader_at_def k_def)
  have eq: "take k (reader_rest env r chunks) = take n (reader_rest env r chunks)"
    and len: "length (take k (reader_rest env r chunks)) = k"
    using length_reader_rest [OF assms] by (simp_all add: k_def min_def)
  have *: "file_read env (fr_oci r) (fr_inode r) (fr_offset r) (replicate k 0) None =
      Ok (k, take k (reader_rest env r chunks))"
    using file_read_image [of "fr_inode r" chunks env "fr_oci r" None "fr_offset r" "replicate k 0"] r len
    by (simp add: reader_rest_def)
  have "FileReader_read env r n =
      Ok (take k (reader_rest env r chunks), r\<lparr>fr_offset := fr_offset r + k\<rparr>)"
  proof -
    have "min (chunks_total chunks - fr_offset r) n = k" "k \<noteq> 0" using False r(5) by (auto simp: k_def)
    with r * show ?thesis by (simp add: FileReader_read_def Let_def uadd_def usub_def)
  qed
  moreover have "drop n (reader_rest env r chunks) = drop k (reader_rest env r chunks)"
    using length_reader_rest [OF assms] by (simp add: k_def min_def)
  ultimately show ?thesis
    using assms r eq by (auto simp: reader_at_def reader_rest_def add.commute)
qed

lemma copy_from_reader_spec:
  assumes "reader_at env r chunks" and "0 < n"
  shows "copy_from_reader env n r acc = Some (Ok (acc @ reader_rest env r chunks))"
  using assms(1)
proof (induction "length (reader_rest env r chunks)" arbitrary: r acc rule: less_induct)
  case less
  from FileReader_read_spec [OF less.prems, of n] obtain r' where
    r': "FileReader_read env r n = Ok (take n (reader_rest env r chunks), r')"
      "reader_at env r' chunks" "reader_rest env r' chunks = drop n (reader_rest env r chunks)" by blast
  show ?case
  proof (cases "reader_rest env r chunks = []")
    case True
    with r' show ?thesis by (simp add: copy_from_reader.simps [of env n r])
  next
    case False
    with assms(2) r'(3) have "length (reader_rest env r' chunks) < length (reader_rest env r chunks)" by simp
    from less.hyps [OF this r'(2)] False assms(2) r' show ?thesis
      by (simp add: copy_from_reader.simps [of env n r])
  qed
qed

end
