(* ===== verification/Host_Path.thy ===== *)
theory Host_Path
  imports Digest
begin

text \<open>
  \<open>std::path\<close> as the sources use it. Two Rust paths are equal iff their component lists are, so a path
  is its list of components. Byte strings become paths through \<open>components\<close>: separators are merged,
  \<open>.\<close> is dropped except as the first component, \<open>..\<close> is kept.
\<close>

datatype component = Prefix | RootDir | CurDir | ParentDir | Normal bytes

type_synonym path = "component list"

definition slash :: u8 where "slash = 47"
definition dot :: u8 where "dot = 46"

definition component_of :: "bytes \<Rightarrow> component option" where
  "component_of part =
     (if part = [] \<or> part = [dot] then None
      else if part = [dot, dot] then Some ParentDir
      else Some (Normal part))"

definition components :: "bytes \<Rightarrow> path" where
  "components bs =
     (let parts = split_on slash bs in
      (if bs \<noteq> [] \<and> hd bs = slash then [RootDir]
       else if hd parts = [dot] then [CurDir] else []) @
      List.map_filter component_of parts)"

text \<open>\<open>Path::join\<close>: an absolute argument replaces the path.\<close>

definition join :: "path \<Rightarrow> bytes \<Rightarrow> path" where
  "join p name =
     (let cs = components name in
      if cs \<noteq> [] \<and> hd cs = RootDir then cs
      else if p = [] then cs
      else p @ filter (\<lambda>c. c \<noteq> CurDir) cs)"

text \<open>\<open>PathBuf::pop\<close>: nothing is above a root.\<close>

definition pop :: "path \<Rightarrow> path" where
  "pop p = (if p = [] \<or> last p \<in> {RootDir, Prefix} then p else butlast p)"

text \<open>A file name as a directory entry of a well-formed image has it.\<close>

definition plain_name :: "bytes \<Rightarrow> bool" where
  "plain_name name \<longleftrightarrow> name \<noteq> [] \<and> slash \<notin> set name \<and> name \<noteq> [dot] \<and> name \<noteq> [dot, dot]"

lemma components_plain: "plain_name name \<Longrightarrow> components name = [Normal name]"
  by (auto simp: components_def plain_name_def split_on_no_sep component_of_def map_filter_simps
      dest: hd_in_set)

lemma join_plain: "plain_name name \<Longrightarrow> p \<noteq> [] \<Longrightarrow> join p name = p @ [Normal name]"
  by (simp add: join_def components_plain)

lemma map_filter_component_of: "c \<in> set (List.map_filter component_of ps) \<Longrightarrow> c = ParentDir \<or> (\<exists>n. c = Normal n)"
  by (induction ps) (auto simp: map_filter_simps component_of_def split: if_splits option.splits)

lemma components_root: "components [slash] = [RootDir]"
  by (simp add: components_def map_filter_simps component_of_def slash_def)

end
