(* ===== verification/Pfs.thy ===== *)
theory Pfs
  imports File_Reader Host_Path
begin

text \<open>
  \<open>PuzzleFS\<close> of \<open>puzzlefs-lib/src/reader/puzzlefs.rs\<close>: opening an image and resolving paths. Path
  resolution takes the inode lookup as an argument; it is characterised for every \<open>inode_store\<close> by the
  inductive relation \<open>path_to\<close>, and the property of the program is the instance for the reader.
\<close>

section \<open>Opening\<close>

definition PUZZLEFS_IMAGE_MANIFEST_VERSION :: u64 where
  "PUZZLEFS_IMAGE_MANIFEST_VERSION = 3"

record 'o PuzzleFS =
  pfs_oci :: "'o Image"
  pfs_rootfs :: capnp_rootfs
  pfs_verity_data :: "VerityData option"
  pfs_manifest_verity :: "bytes option"

definition PuzzleFS_open ::
    "'o env \<Rightarrow> 'o Image \<Rightarrow> string \<Rightarrow> bytes option \<Rightarrow> 'o PuzzleFS wire_result" where
  "PuzzleFS_open env oci tag manifest_verity =
     and_then (open_rootfs_blob env oci tag manifest_verity) (\<lambda>rootfs.
     and_then (RootfsReader_get_manifest_version rootfs) (\<lambda>version.
     if version \<noteq> PUZZLEFS_IMAGE_MANIFEST_VERSION then Err InvalidImageVersion
     else
       and_then (if manifest_verity \<noteq> None
                 then map_ok Some (RootfsReader_get_verity_data rootfs)
                 else Ok None) (\<lambda>verity_data.
         Ok \<lparr>pfs_oci = oci, pfs_rootfs = rootfs, pfs_verity_data = verity_data,
             pfs_manifest_verity = manifest_verity\<rparr>)))"

definition PuzzleFS_find_inode :: "'o PuzzleFS \<Rightarrow> Ino \<Rightarrow> Inode wire_result" where
  "PuzzleFS_find_inode pfs ino = RootfsReader_find_inode (pfs_rootfs pfs) ino"

definition PuzzleFS_max_inode :: "'o PuzzleFS \<Rightarrow> Ino wire_result" where
  "PuzzleFS_max_inode pfs = RootfsReader_max_inode (pfs_rootfs pfs)"

section \<open>Path lookup\<close>

fun lookup_loop ::
    "(Ino \<Rightarrow> Inode wire_result) \<Rightarrow> Inode \<Rightarrow> component list \<Rightarrow> Inode option wire_result" where
  "lookup_loop find_ino cur [] = Ok (Some cur)"
| "lookup_loop find_ino cur (Normal p # comps) =
     (case i_mode cur of
        Dir dir_list \<Rightarrow>
          (case List.find (\<lambda>dir_entry. de_name dir_entry = p) (dl_entries dir_list) of
             Some d \<Rightarrow> and_then (find_ino (de_ino d)) (\<lambda>cur'. lookup_loop find_ino cur' comps)
           | None \<Rightarrow> Ok None)
      | _ \<Rightarrow> Ok None)"
| "lookup_loop find_ino cur (c # comps) = Err (from_errno EINVAL)"

definition lookup_path :: "(Ino \<Rightarrow> Inode wire_result) \<Rightarrow> path \<Rightarrow> Inode option wire_result" where
  "lookup_path find_ino p =
     and_then (list_get p 0) (\<lambda>first.
     if first \<noteq> RootDir then Err (from_errno EINVAL)
     else and_then (find_ino 1) (\<lambda>cur. lookup_loop find_ino cur (drop 1 p)))"

definition PuzzleFS_lookup :: "'o PuzzleFS \<Rightarrow> path \<Rightarrow> Inode option wire_result" where
  "PuzzleFS_lookup pfs p = lookup_path (PuzzleFS_find_inode pfs) p"

section \<open>Specification\<close>

text \<open>The entry a name selects in a directory: the first one with this name.\<close>

definition entry_named :: "Inode \<Rightarrow> bytes \<Rightarrow> DirEnt option" where
  "entry_named i name =
     (case i_mode i of
        Dir dl \<Rightarrow> List.find (\<lambda>d. de_name d = name) (dl_entries dl)
      | _ \<Rightarrow> None)"

text \<open>\<open>path_to view names i\<close>: walking the names from the root inode ends at \<open>i\<close>.\<close>

inductive path_to :: "(Ino \<Rightarrow> Inode option) \<Rightarrow> bytes list \<Rightarrow> Inode \<Rightarrow> bool"
  for view :: "Ino \<Rightarrow> Inode option" where
  root: "view 1 = Some i \<Longrightarrow> path_to view [] i"
| step: "path_to view names d \<Longrightarrow> entry_named d name = Some e \<Longrightarrow> view (de_ino e) = Some i \<Longrightarrow>
     path_to view (names @ [name]) i"

inductive_cases path_to_NilE: "path_to view [] i"
inductive_cases path_to_snocE: "path_to view (names @ [name]) i"

definition abs_path :: "bytes list \<Rightarrow> path" where
  "abs_path names = RootDir # map Normal names"

lemma path_to_fun: "path_to view names i \<Longrightarrow> path_to view names j \<Longrightarrow> i = j"
proof (induction arbitrary: j rule: path_to.induct)
  case (root i)
  from root(2) root(1) show ?case by (auto elim: path_to.cases)
next
  case (step names d name e i)
  from step.prems obtain d' e' where "path_to view names d'" "entry_named d' name = Some e'"
    "view (de_ino e') = Some j" by (auto elim: path_to_snocE)
  with step.IH [of d'] step.hyps show ?case by simp
qed

section \<open>Resolution for every inode store\<close>

text \<open>
  One more component: resolution of a longer path continues at the inode of its prefix.
\<close>

lemma lookup_loop_snoc:
  "lookup_loop find_ino cur (map Normal names @ [Normal name]) =
     and_then (lookup_loop find_ino cur (map Normal names)) (\<lambda>r.
       case r of
         None \<Rightarrow> Ok None
       | Some d \<Rightarrow>
           (case entry_named d name of
              None \<Rightarrow> Ok None
            | Some e \<Rightarrow> and_then (find_ino (de_ino e)) (\<lambda>i. Ok (Some i))))"
proof (induction names arbitrary: cur)
  case Nil
  then show ?case by (simp add: entry_named_def split: InodeMode.split option.split)
next
  case (Cons n names)
  then show ?case
    by (simp add: and_then_assoc split: InodeMode.split option.split)
qed

lemma lookup_loop_snoc_Some:
  "lookup_loop find_ino cur (map Normal names @ [Normal name]) = Ok (Some i) \<longleftrightarrow>
   (\<exists>d e. lookup_loop find_ino cur (map Normal names) = Ok (Some d) \<and>
      entry_named d name = Some e \<and> find_ino (de_ino e) = Ok i)"
  unfolding lookup_loop_snoc
  by (cases "lookup_loop find_ino cur (map Normal names)")
    (auto simp del: and_then_Ok_iff split: option.splits simp: and_then_Ok_iff [of "find_ino _"])

context inode_store
begin

lemma lookup_path_iff:
  assumes "valid s"
  shows "lookup_path (find s) (abs_path names) = Ok (Some i) \<longleftrightarrow> path_to (view s) names i"
proof (induction names arbitrary: i rule: rev_induct)
  case Nil
  show ?case
    by (auto simp: lookup_path_def abs_path_def list_get_def find_Ok_iff [OF assms]
        intro: path_to.root elim: path_to_NilE)
next
  case (snoc name names)
  have "lookup_path (find s) (abs_path (names @ [name])) = Ok (Some i) \<longleftrightarrow>
      (\<exists>d e. lookup_path (find s) (abs_path names) = Ok (Some d) \<and>
        entry_named d name = Some e \<and> view s (de_ino e) = Some i)"
    by (auto simp: lookup_path_def abs_path_def list_get_def lookup_loop_snoc_Some find_Ok_iff [OF assms])
  also have "\<dots> \<longleftrightarrow> path_to (view s) (names @ [name]) i"
    by (auto simp: snoc.IH intro: path_to.step elim!: path_to_snocE)
  finally show ?case .
qed

lemma lookup_loop_total:
  assumes "valid s"
  shows "(\<exists>r. lookup_loop (find s) cur (map Normal names) = Ok r) \<or>
    lookup_loop (find s) cur (map Normal names) = Err (from_errno ENOENT)"
proof (induction names arbitrary: cur)
  case (Cons n names)
  show ?case
  proof (cases "entry_named cur n")
    case None
    then show ?thesis by (auto simp: entry_named_def split: InodeMode.splits)
  next
    case (Some e)
    then obtain dl where "i_mode cur = Dir dl" "List.find (\<lambda>d. de_name d = n) (dl_entries dl) = Some e"
      by (auto simp: entry_named_def split: InodeMode.splits)
    with Cons show ?thesis by (cases rule: find_cases [OF assms, of "de_ino e"]) auto
  qed
qed simp

end

definition wf_pfs :: "'o PuzzleFS \<Rightarrow> bool" where
  "wf_pfs pfs \<longleftrightarrow> wf_reader (pfs_rootfs pfs)"

definition pfs_view :: "'o PuzzleFS \<Rightarrow> Ino \<Rightarrow> Inode option" where
  "pfs_view pfs = reader_view (pfs_rootfs pfs)"

interpretation pfs: inode_store PuzzleFS_find_inode pfs_view wf_pfs
  by unfold_locales
    (auto simp: PuzzleFS_find_inode_def pfs_view_def wf_pfs_def reader.find_view
      dest: reader.view_ino reader.view_not_whiteout)

end
