(* ===== verification/Fuse.thy ===== *)
theory Fuse
  imports Pfs
begin

text \<open>
  \<open>puzzlefs-lib/src/reader/fuse.rs\<close>: the FUSE file system. A request of the kernel is a value of
  \<open>fs_request\<close>, one constructor per method of \<open>impl Filesystem for Fuse\<close>; \<open>fuse_reply_to\<close> is the reply.
  The methods take \<open>&mut self\<close>, but only \<open>init\<close> assigns to a field: it is the state transformer \<open>fuse_init\<close>,
  with its effects on pipes, and the others are functions of the server and of their arguments. The \<open>fuser\<close> and \<open>nix\<close> crates
  are parameters: the flag constants (\<open>oflags\<close>) and the capacity of a directory reply (\<open>fits\<close>).
\<close>

section \<open>Data\<close>

datatype FileType =
    NamedPipeType | CharDevice | BlockDevice | Directory | RegularFile | Symlink | Socket

datatype PipeDescriptor = UnnamedPipe | NamedPipe path

record 'o Fuse =
  fu_pfs :: "'o PuzzleFS"
  fu_sender :: bool  \<comment> \<open>whether a \<open>Sender\<close> is there\<close>
  fu_init_notify :: "PipeDescriptor option"

text \<open>\<open>fuser::FileAttr\<close>; the four time stamps are the Unix epoch.\<close>

record FileAttr =
  fa_ino :: u64
  fa_size :: u64
  fa_blocks :: u64
  fa_kind :: FileType
  fa_perm :: u16
  fa_nlink :: u32
  fa_uid :: u32
  fa_gid :: u32
  fa_rdev :: u32
  fa_blksize :: u32
  fa_flags :: u32

record dir_reply_entry =
  dr_ino :: u64
  dr_offset :: nat
  dr_kind :: FileType
  dr_name :: bytes

text \<open>The flags of \<open>nix::fcntl::OFlag\<close>; \<open>of_all\<close> is the union of all flags it defines.\<close>

record oflags =
  O_RDONLY :: u32
  O_PATH :: u32
  O_NONBLOCK :: u32
  O_DIRECTORY :: u32
  O_NOFOLLOW :: u32
  O_NOATIME :: u32
  of_all :: u32

datatype fuse_reply =
    ReplyError int
  | ReplyOk
  | ReplyEntry nat FileAttr nat
  | ReplyAttr nat FileAttr
  | ReplyData bytes
  | ReplyOpened nat u32
  | ReplySize nat
  | ReplyDirectory "dir_reply_entry list"
  | ReplyStatfs nat nat nat nat nat nat nat nat

datatype fuse_effect = PipeWrite bytes | SpawnNotifier path | SendUnmounted

section \<open>The operations behind the handlers\<close>

definition mode_to_fuse_type :: "Inode \<Rightarrow> FileType wire_result" where
  "mode_to_fuse_type inode =
     (case i_mode inode of
        File _ \<Rightarrow> Ok RegularFile
      | Dir _ \<Rightarrow> Ok Directory
      | Fifo \<Rightarrow> Ok NamedPipeType
      | Chr _ _ \<Rightarrow> Ok CharDevice
      | Blk _ _ \<Rightarrow> Ok BlockDevice
      | Lnk \<Rightarrow> Ok Symlink
      | Sock \<Rightarrow> Ok Socket
      | _ \<Rightarrow> Err (from_errno EINVAL))"

definition Fuse_new :: "'o PuzzleFS \<Rightarrow> bool \<Rightarrow> PipeDescriptor option \<Rightarrow> 'o Fuse" where
  "Fuse_new pfs sender init_notify =
     \<lparr>fu_pfs = pfs, fu_sender = sender, fu_init_notify = init_notify\<rparr>"

fun unwrap_or :: "'a wire_result \<Rightarrow> 'a \<Rightarrow> 'a wire_result" where
  "unwrap_or (Ok x) d = Ok x"
| "unwrap_or (Err e) d = Ok d"
| "unwrap_or (Panic p) d = Panic p"

definition fuse_getattr :: "'o Fuse \<Rightarrow> u64 \<Rightarrow> FileAttr wire_result" where
  "fuse_getattr fs ino =
     and_then (PuzzleFS_find_inode (fu_pfs fs) ino) (\<lambda>ic.
     and_then (mode_to_fuse_type ic) (\<lambda>kind.
     and_then (unwrap_or (file_len ic) 0) (\<lambda>len.
       Ok \<lparr>fa_ino = i_ino ic, fa_size = len, fa_blocks = 0, fa_kind = kind,
           fa_perm = i_permissions ic, fa_nlink = 0, fa_uid = i_uid ic, fa_gid = i_gid ic,
           fa_rdev = 0, fa_blksize = 0, fa_flags = 0\<rparr>)))"

definition fuse_lookup :: "'o Fuse \<Rightarrow> u64 \<Rightarrow> bytes \<Rightarrow> FileAttr wire_result" where
  "fuse_lookup fs parent name =
     and_then (PuzzleFS_find_inode (fu_pfs fs) parent) (\<lambda>dir.
     and_then (dir_lookup dir name) (\<lambda>ino. fuse_getattr fs ino))"

definition allowed_flags :: "oflags \<Rightarrow> u32" where
  "allowed_flags ofl =
     O_RDONLY ofl OR O_PATH ofl OR O_NONBLOCK ofl OR O_DIRECTORY ofl OR O_NOFOLLOW ofl OR O_NOATIME ofl"

text \<open>
  \<open>_open\<close>: \<open>flags_i\<close> is an \<open>i32\<close>, here as its bit pattern. \<open>from_bits_truncate\<close> drops unknown bits;
  \<open>flags_i.try_into::<u32>().unwrap()\<close> panics on a negative value.
\<close>

definition fuse_open :: "oflags \<Rightarrow> u32 \<Rightarrow> fuse_reply wire_result" where
  "fuse_open ofl flags_i =
     (let flags = flags_i AND of_all ofl in
      if flags AND allowed_flags ofl \<noteq> flags then Ok (ReplyError (errno_code EROFS))
      else if sint flags_i < 0 then Panic UnwrapFailed
      else Ok (ReplyOpened 0 flags_i))"

definition fuse_read :: "'o env \<Rightarrow> 'o Fuse \<Rightarrow> u64 \<Rightarrow> nat \<Rightarrow> u32 \<Rightarrow> bytes wire_result" where
  "fuse_read env fs ino offset sz =
     and_then (PuzzleFS_find_inode (fu_pfs fs) ino) (\<lambda>inode.
     and_then (file_read env (pfs_oci (fu_pfs fs)) inode offset (replicate (unat sz) 0)
         (pfs_verity_data (fu_pfs fs))) (\<lambda>(read, buf).
       Ok (take read buf)))"

text \<open>
  The loop of \<open>_readdir\<close> over \<open>entries.iter().enumerate().skip(offset)\<close>. \<open>reply.add\<close> refuses an entry
  that does not fit any more.
\<close>

fun readdir_loop ::
    "(Ino \<Rightarrow> Inode wire_result) \<Rightarrow> (dir_reply_entry list \<Rightarrow> dir_reply_entry \<Rightarrow> bool) \<Rightarrow>
     dir_reply_entry list \<Rightarrow> (nat \<times> DirEnt) list \<Rightarrow> dir_reply_entry list wire_result" where
  "readdir_loop find_ino fits acc [] = Ok acc"
| "readdir_loop find_ino fits acc ((index, d) # ents) =
     and_then (find_ino (de_ino d)) (\<lambda>inode.
     and_then (mode_to_fuse_type inode) (\<lambda>kind.
     let ent = \<lparr>dr_ino = de_ino d, dr_offset = index + 1, dr_kind = kind, dr_name = de_name d\<rparr> in
     if \<not> fits acc ent then Ok acc
     else readdir_loop find_ino fits (acc @ [ent]) ents))"

text \<open>\<open>offset as usize\<close> of an \<open>i64\<close>.\<close>

definition i64_as_usize :: "int \<Rightarrow> nat" where
  "i64_as_usize off = nat (off mod 2 ^ 64)"

definition fuse_readdir ::
    "'o Fuse \<Rightarrow> (dir_reply_entry list \<Rightarrow> dir_reply_entry \<Rightarrow> bool) \<Rightarrow> u64 \<Rightarrow> int \<Rightarrow>
     dir_reply_entry list wire_result" where
  "fuse_readdir fs fits ino offset =
     and_then (PuzzleFS_find_inode (fu_pfs fs) ino) (\<lambda>inode.
     and_then (dir_entries inode) (\<lambda>entries.
       readdir_loop (PuzzleFS_find_inode (fu_pfs fs)) fits []
         (drop (i64_as_usize offset) (enumerate 0 entries))))"

definition fuse_readlink :: "'o Fuse \<Rightarrow> u64 \<Rightarrow> bytes wire_result" where
  "fuse_readlink fs ino =
     and_then (PuzzleFS_find_inode (fu_pfs fs) ino) (\<lambda>inode.
     and_then (mode_to_fuse_type inode) (\<lambda>kind.
       (case kind of
          Symlink \<Rightarrow>
            ok_or (Option.bind (i_additional inode) ia_symlink_target) (from_errno EINVAL)
        | _ \<Rightarrow> Err (from_errno EINVAL))))"

text \<open>\<open>CString::new\<close> refuses an interior NUL byte, which \<open>expect\<close> turns into a panic.\<close>

definition cstring_bytes :: "bytes \<Rightarrow> bytes wire_result" where
  "cstring_bytes s = (if 0 \<in> set s then Panic UnwrapFailed else Ok (s @ [0]))"

definition fuse_listxattr :: "'o Fuse \<Rightarrow> u64 \<Rightarrow> bytes wire_result" where
  "fuse_listxattr fs ino =
     and_then (PuzzleFS_find_inode (fu_pfs fs) ino) (\<lambda>inode.
       (case i_additional inode of
          None \<Rightarrow> Ok []
        | Some add \<Rightarrow> map_ok concat (collect (\<lambda>x. cstring_bytes (x_key x)) (ia_xattrs add))))"

definition fuse_getxattr :: "'o Fuse \<Rightarrow> u64 \<Rightarrow> bytes \<Rightarrow> bytes wire_result" where
  "fuse_getxattr fs ino name =
     and_then (PuzzleFS_find_inode (fu_pfs fs) ino) (\<lambda>inode.
       ok_or (map_option x_val
         (Option.bind (i_additional inode) (\<lambda>add. List.find (\<lambda>elem. x_key elem = name) (ia_xattrs add))))
         (from_errno ENODATA))"

section \<open>Requests\<close>

datatype fs_request =
    Init
  | Destroy
  | Forget u64
  | Setattr u64
  | Mknod u64 bytes
  | Mkdir u64 bytes
  | Unlink u64 bytes
  | Rmdir u64 bytes
  | SymlinkReq u64 bytes bytes
  | Rename u64 bytes u64 bytes
  | Link u64 u64 bytes
  | Write u64 int bytes
  | Flush u64
  | Fsync u64
  | Fsyncdir u64
  | Setxattr u64 bytes bytes
  | Removexattr u64 bytes
  | Create u64 bytes
  | Getlk u64
  | Setlk u64
  | Lookup u64 bytes
  | Getattr u64
  | Readlink u64
  | Open u64 u32
  | Read u64 int u32
  | Release u64
  | Opendir u64 u32
  | Readdir u64 int
  | Releasedir u64
  | Statfs u64
  | Getxattr u64 bytes u32
  | Listxattr u64 u32
  | Access u64
  | Bmap u64

text \<open>\<open>reply.error(e.to_errno())\<close> for an error, the given reply for a value; a panic stays one.\<close>

fun reply_with :: "('a \<Rightarrow> fuse_reply wire_result) \<Rightarrow> 'a wire_result \<Rightarrow> fuse_reply wire_result" where
  "reply_with f (Ok x) = f x"
| "reply_with f (Err e) = Ok (ReplyError (to_errno e))"
| "reply_with f (Panic p) = Panic p"

text \<open>The size protocol, which \<open>getxattr\<close> and \<open>listxattr\<close> write out in the same way.\<close>

definition reply_xattr :: "u32 \<Rightarrow> bytes \<Rightarrow> fuse_reply wire_result" where
  "reply_xattr sz xattr =
     (if length xattr \<ge> 2 ^ 32 then Panic UnwrapFailed
      else if sz = 0 then Ok (ReplySize (length xattr))
      else if length xattr \<le> unat sz then Ok (ReplyData xattr)
      else Ok (ReplyError (errno_code ERANGE)))"

definition ttl_max :: nat where
  "ttl_max = 2 ^ 64 - 1"

definition EROFS_reply :: "fuse_reply wire_result option" where
  "EROFS_reply = Some (Ok (ReplyError (errno_code EROFS)))"

text \<open>The methods of \<open>Filesystem\<close>, one definition each.\<close>

definition Filesystem_setattr :: "u64 \<Rightarrow> fuse_reply wire_result option" where
  "Filesystem_setattr ino = EROFS_reply"

definition Filesystem_mknod :: "u64 \<Rightarrow> bytes \<Rightarrow> fuse_reply wire_result option" where
  "Filesystem_mknod parent name = EROFS_reply"

definition Filesystem_mkdir :: "u64 \<Rightarrow> bytes \<Rightarrow> fuse_reply wire_result option" where
  "Filesystem_mkdir parent name = EROFS_reply"

definition Filesystem_unlink :: "u64 \<Rightarrow> bytes \<Rightarrow> fuse_reply wire_result option" where
  "Filesystem_unlink parent name = EROFS_reply"

definition Filesystem_rmdir :: "u64 \<Rightarrow> bytes \<Rightarrow> fuse_reply wire_result option" where
  "Filesystem_rmdir parent name = EROFS_reply"

definition Filesystem_symlink :: "u64 \<Rightarrow> bytes \<Rightarrow> bytes \<Rightarrow> fuse_reply wire_result option" where
  "Filesystem_symlink parent name lnk = EROFS_reply"

definition Filesystem_rename :: "u64 \<Rightarrow> bytes \<Rightarrow> u64 \<Rightarrow> bytes \<Rightarrow> fuse_reply wire_result option" where
  "Filesystem_rename parent name newparent newname = EROFS_reply"

definition Filesystem_link :: "u64 \<Rightarrow> u64 \<Rightarrow> bytes \<Rightarrow> fuse_reply wire_result option" where
  "Filesystem_link ino newparent newname = EROFS_reply"

definition Filesystem_write :: "u64 \<Rightarrow> int \<Rightarrow> bytes \<Rightarrow> fuse_reply wire_result option" where
  "Filesystem_write ino offset data = EROFS_reply"

definition Filesystem_flush :: "u64 \<Rightarrow> fuse_reply wire_result option" where
  "Filesystem_flush ino = Some (Ok (ReplyError (errno_code ENOSYS)))"

definition Filesystem_fsync :: "u64 \<Rightarrow> fuse_reply wire_result option" where
  "Filesystem_fsync ino = EROFS_reply"

definition Filesystem_fsyncdir :: "u64 \<Rightarrow> fuse_reply wire_result option" where
  "Filesystem_fsyncdir ino = EROFS_reply"

definition Filesystem_setxattr :: "u64 \<Rightarrow> bytes \<Rightarrow> bytes \<Rightarrow> fuse_reply wire_result option" where
  "Filesystem_setxattr ino name val = EROFS_reply"

definition Filesystem_removexattr :: "u64 \<Rightarrow> bytes \<Rightarrow> fuse_reply wire_result option" where
  "Filesystem_removexattr ino name = EROFS_reply"

definition Filesystem_create :: "u64 \<Rightarrow> bytes \<Rightarrow> fuse_reply wire_result option" where
  "Filesystem_create parent name = EROFS_reply"

definition Filesystem_getlk :: "u64 \<Rightarrow> fuse_reply wire_result option" where
  "Filesystem_getlk ino = EROFS_reply"

definition Filesystem_setlk :: "u64 \<Rightarrow> fuse_reply wire_result option" where
  "Filesystem_setlk ino = EROFS_reply"

definition Filesystem_lookup :: "'o Fuse \<Rightarrow> u64 \<Rightarrow> bytes \<Rightarrow> fuse_reply wire_result option" where
  "Filesystem_lookup fs parent name =
     Some (reply_with (\<lambda>attr. Ok (ReplyEntry ttl_max attr 0)) (fuse_lookup fs parent name))"

definition Filesystem_getattr :: "'o Fuse \<Rightarrow> u64 \<Rightarrow> fuse_reply wire_result option" where
  "Filesystem_getattr fs ino =
     Some (reply_with (\<lambda>attr. Ok (ReplyAttr ttl_max attr)) (fuse_getattr fs ino))"

definition Filesystem_readlink :: "'o Fuse \<Rightarrow> u64 \<Rightarrow> fuse_reply wire_result option" where
  "Filesystem_readlink fs ino =
     Some (reply_with (\<lambda>symlink. Ok (ReplyData symlink)) (fuse_readlink fs ino))"

definition Filesystem_open :: "oflags \<Rightarrow> u64 \<Rightarrow> u32 \<Rightarrow> fuse_reply wire_result option" where
  "Filesystem_open ofl ino flags = Some (fuse_open ofl flags)"

definition Filesystem_read :: "'o env \<Rightarrow> 'o Fuse \<Rightarrow> u64 \<Rightarrow> int \<Rightarrow> u32 \<Rightarrow> fuse_reply wire_result option" where
  "Filesystem_read env fs ino offset sz =
     Some (if offset < 0 then Panic UnwrapFailed
           else reply_with (\<lambda>data. Ok (ReplyData data)) (fuse_read env fs ino (nat offset) sz))"

definition Filesystem_release :: "u64 \<Rightarrow> fuse_reply wire_result option" where
  "Filesystem_release ino = Some (Ok ReplyOk)"

definition Filesystem_opendir :: "oflags \<Rightarrow> u64 \<Rightarrow> u32 \<Rightarrow> fuse_reply wire_result option" where
  "Filesystem_opendir ofl ino flags = Some (fuse_open ofl flags)"

definition Filesystem_readdir :: "(dir_reply_entry list \<Rightarrow> dir_reply_entry \<Rightarrow> bool) \<Rightarrow> 'o Fuse \<Rightarrow> u64 \<Rightarrow> int \<Rightarrow> fuse_reply wire_result option" where
  "Filesystem_readdir fits fs ino offset =
     Some (reply_with (\<lambda>ents. Ok (ReplyDirectory ents)) (fuse_readdir fs fits ino offset))"

definition Filesystem_releasedir :: "u64 \<Rightarrow> fuse_reply wire_result option" where
  "Filesystem_releasedir ino = Some (Ok ReplyOk)"

definition Filesystem_statfs :: "u64 \<Rightarrow> fuse_reply wire_result option" where
  "Filesystem_statfs ino = Some (Ok (ReplyStatfs 0 0 0 0 0 0 256 0))"

definition Filesystem_getxattr :: "'o Fuse \<Rightarrow> u64 \<Rightarrow> bytes \<Rightarrow> u32 \<Rightarrow> fuse_reply wire_result option" where
  "Filesystem_getxattr fs ino name sz = Some (reply_with (reply_xattr sz) (fuse_getxattr fs ino name))"

definition Filesystem_listxattr :: "'o Fuse \<Rightarrow> u64 \<Rightarrow> u32 \<Rightarrow> fuse_reply wire_result option" where
  "Filesystem_listxattr fs ino sz = Some (reply_with (reply_xattr sz) (fuse_listxattr fs ino))"

definition Filesystem_access :: "u64 \<Rightarrow> fuse_reply wire_result option" where
  "Filesystem_access ino = Some (Ok ReplyOk)"

definition Filesystem_bmap :: "u64 \<Rightarrow> fuse_reply wire_result option" where
  "Filesystem_bmap ino = Some (Ok (ReplyError (errno_code ENOLCK)))"

lemmas filesystem_defs [simp] =
  Filesystem_setattr_def Filesystem_mknod_def Filesystem_mkdir_def Filesystem_unlink_def
  Filesystem_rmdir_def Filesystem_symlink_def Filesystem_rename_def Filesystem_link_def Filesystem_write_def
  Filesystem_flush_def Filesystem_fsync_def Filesystem_fsyncdir_def Filesystem_setxattr_def
  Filesystem_removexattr_def Filesystem_create_def Filesystem_getlk_def Filesystem_setlk_def
  Filesystem_lookup_def Filesystem_getattr_def Filesystem_readlink_def Filesystem_open_def
  Filesystem_read_def Filesystem_release_def Filesystem_opendir_def Filesystem_readdir_def
  Filesystem_releasedir_def Filesystem_statfs_def Filesystem_getxattr_def Filesystem_listxattr_def
  Filesystem_access_def Filesystem_bmap_def

text \<open>The dispatch of a request; \<open>destroy\<close> and \<open>forget\<close> have no reply.\<close>

fun fuse_reply_to ::
    "'o env \<Rightarrow> oflags \<Rightarrow> (dir_reply_entry list \<Rightarrow> dir_reply_entry \<Rightarrow> bool) \<Rightarrow> 'o Fuse \<Rightarrow>
     fs_request \<Rightarrow> fuse_reply wire_result option" where
  "fuse_reply_to env ofl fits fs Init = Some (Ok ReplyOk)"
| "fuse_reply_to env ofl fits fs Destroy = None"
| "fuse_reply_to env ofl fits fs (Forget ino) = None"
| "fuse_reply_to env ofl fits fs (Setattr ino) = Filesystem_setattr ino"
| "fuse_reply_to env ofl fits fs (Mknod parent name) = Filesystem_mknod parent name"
| "fuse_reply_to env ofl fits fs (Mkdir parent name) = Filesystem_mkdir parent name"
| "fuse_reply_to env ofl fits fs (Unlink parent name) = Filesystem_unlink parent name"
| "fuse_reply_to env ofl fits fs (Rmdir parent name) = Filesystem_rmdir parent name"
| "fuse_reply_to env ofl fits fs (SymlinkReq parent name lnk) = Filesystem_symlink parent name lnk"
| "fuse_reply_to env ofl fits fs (Rename parent name newparent newname) = Filesystem_rename parent name newparent newname"
| "fuse_reply_to env ofl fits fs (Link ino newparent newname) = Filesystem_link ino newparent newname"
| "fuse_reply_to env ofl fits fs (Write ino offset data) = Filesystem_write ino offset data"
| "fuse_reply_to env ofl fits fs (Flush ino) = Filesystem_flush ino"
| "fuse_reply_to env ofl fits fs (Fsync ino) = Filesystem_fsync ino"
| "fuse_reply_to env ofl fits fs (Fsyncdir ino) = Filesystem_fsyncdir ino"
| "fuse_reply_to env ofl fits fs (Setxattr ino name val) = Filesystem_setxattr ino name val"
| "fuse_reply_to env ofl fits fs (Removexattr ino name) = Filesystem_removexattr ino name"
| "fuse_reply_to env ofl fits fs (Create parent name) = Filesystem_create parent name"
| "fuse_reply_to env ofl fits fs (Getlk ino) = Filesystem_getlk ino"
| "fuse_reply_to env ofl fits fs (Setlk ino) = Filesystem_setlk ino"
| "fuse_reply_to env ofl fits fs (Lookup parent name) = Filesystem_lookup fs parent name"
| "fuse_reply_to env ofl fits fs (Getattr ino) = Filesystem_getattr fs ino"
| "fuse_reply_to env ofl fits fs (Readlink ino) = Filesystem_readlink fs ino"
| "fuse_reply_to env ofl fits fs (Open ino flags) = Filesystem_open ofl ino flags"
| "fuse_reply_to env ofl fits fs (Read ino offset sz) = Filesystem_read env fs ino offset sz"
| "fuse_reply_to env ofl fits fs (Release ino) = Filesystem_release ino"
| "fuse_reply_to env ofl fits fs (Opendir ino flags) = Filesystem_opendir ofl ino flags"
| "fuse_reply_to env ofl fits fs (Readdir ino offset) = Filesystem_readdir fits fs ino offset"
| "fuse_reply_to env ofl fits fs (Releasedir ino) = Filesystem_releasedir ino"
| "fuse_reply_to env ofl fits fs (Statfs ino) = Filesystem_statfs ino"
| "fuse_reply_to env ofl fits fs (Getxattr ino name sz) = Filesystem_getxattr fs ino name sz"
| "fuse_reply_to env ofl fits fs (Listxattr ino sz) = Filesystem_listxattr fs ino sz"
| "fuse_reply_to env ofl fits fs (Access ino) = Filesystem_access ino"
| "fuse_reply_to env ofl fits fs (Bmap ino) = Filesystem_bmap ino"

text \<open>\<open>init\<close> takes the notifier out of the server.\<close>

definition fuse_init :: "'o Fuse \<Rightarrow> 'o Fuse \<times> fuse_effect list" where
  "fuse_init fs =
     (case fu_init_notify fs of
        None \<Rightarrow> (fs, [])
      | Some UnnamedPipe \<Rightarrow> (fs\<lparr>fu_init_notify := None\<rparr>, [PipeWrite [115]])
      | Some (NamedPipe p) \<Rightarrow> (fs\<lparr>fu_init_notify := None\<rparr>, [SpawnNotifier p]))"

text \<open>
  The thread spawned for a named pipe: \<open>is_fifo\<close> is what \<open>fs::metadata\<close> says of the file,
  \<open>can_open\<close> whether it opens for writing.
\<close>

definition notifier_thread :: "bool io_result \<Rightarrow> unit io_result \<Rightarrow> fuse_effect list" where
  "notifier_thread is_fifo can_open =
     (case is_fifo of
        Ok True \<Rightarrow> (case can_open of Ok () \<Rightarrow> [PipeWrite [115]] | _ \<Rightarrow> [])
      | _ \<Rightarrow> [])"

definition fuse_drop :: "'o Fuse \<Rightarrow> fuse_effect list" where
  "fuse_drop fs = (if fu_sender fs then [SendUnmounted] else [])"

text \<open>The notification is sent at the first \<open>init\<close> and never again; the mounted image stays the same.\<close>

lemma fuse_init_once:
  "fu_pfs (fst (fuse_init fs)) = fu_pfs fs" "fu_sender (fst (fuse_init fs)) = fu_sender fs"
  "fuse_init (fst (fuse_init fs)) = (fst (fuse_init fs), [])"
  by (auto simp: fuse_init_def split: option.split PipeDescriptor.split)

section \<open>Path resolution by the kernel\<close>

text \<open>
  The kernel resolves a path with one lookup per component, each below the inode number that the
  previous reply carried.
\<close>

fun kernel_resolve :: "'o Fuse \<Rightarrow> FileAttr \<Rightarrow> bytes list \<Rightarrow> FileAttr wire_result" where
  "kernel_resolve fs attr [] = Ok attr"
| "kernel_resolve fs attr (name # names) =
     and_then (fuse_lookup fs (fa_ino attr) name) (\<lambda>attr'. kernel_resolve fs attr' names)"

lemma fuse_getattr_ino:
  "wf_pfs (fu_pfs fs) \<Longrightarrow> fuse_getattr fs ino = Ok attr \<Longrightarrow> fa_ino attr = ino"
  by (auto simp: fuse_getattr_def pfs.find_Ok_iff pfs.view_ino)

lemma fuse_getattr_Dir:
  "PuzzleFS_find_inode (fu_pfs fs) ino = Ok i \<Longrightarrow> i_mode i = Dir dl \<Longrightarrow> \<exists>attr. fuse_getattr fs ino = Ok attr"
  by (auto simp: fuse_getattr_def mode_to_fuse_type_def file_len_def)

lemma fuse_lookup_iff:
  assumes "wf_pfs (fu_pfs fs)" and "PuzzleFS_find_inode (fu_pfs fs) parent = Ok d"
  shows "fuse_lookup fs parent name = Ok attr \<longleftrightarrow>
    (\<exists>e. entry_named d name = Some e \<and> fuse_getattr fs (de_ino e) = Ok attr)"
  using assms(2)
  by (auto simp: fuse_lookup_def dir_lookup_def dir_entries_def entry_named_def split: InodeMode.splits)

lemma lookup_needs_attr:
  assumes "wf_pfs (fu_pfs fs)" and "PuzzleFS_find_inode (fu_pfs fs) ino = Ok d"
    and "lookup_loop (PuzzleFS_find_inode (fu_pfs fs)) d (map Normal names) = Ok (Some i)"
    and "fuse_getattr fs (i_ino i) = Ok attr"
  shows "\<exists>a. fuse_getattr fs ino = Ok a"
proof (cases names)
  case Nil
  with assms show ?thesis by (auto simp: pfs.find_Ok_iff pfs.view_ino)
next
  case (Cons n ns)
  with assms(3) obtain dl where "i_mode d = Dir dl" by (auto split: InodeMode.splits)
  with assms(2) show ?thesis by (rule fuse_getattr_Dir)
qed

lemma kernel_resolve_iff:
  assumes "wf_pfs (fu_pfs fs)" and "PuzzleFS_find_inode (fu_pfs fs) (fa_ino a0) = Ok d"
    and "fuse_getattr fs (fa_ino a0) = Ok a0"
  shows "kernel_resolve fs a0 names = Ok attr \<longleftrightarrow>
    (\<exists>i. lookup_loop (PuzzleFS_find_inode (fu_pfs fs)) d (map Normal names) = Ok (Some i) \<and>
      fuse_getattr fs (i_ino i) = Ok attr)"
  using assms(2,3)
proof (induction names arbitrary: a0 d)
  case Nil
  with assms(1) have "i_ino d = fa_ino a0" by (auto simp: pfs.find_Ok_iff pfs.view_ino)
  with Nil show ?case by auto
next
  case (Cons n names)
  let ?find = "PuzzleFS_find_inode (fu_pfs fs)"
  show ?case
  proof (cases "entry_named d n")
    case None
    then have "lookup_loop ?find d (map Normal (n # names)) = Ok None"
      by (auto simp: entry_named_def split: InodeMode.splits)
    with None fuse_lookup_iff [OF assms(1) Cons.prems(1)] show ?thesis by auto
  next
    case (Some e)
    then have step: "lookup_loop ?find d (map Normal (n # names)) =
        and_then (?find (de_ino e)) (\<lambda>d'. lookup_loop ?find d' (map Normal names))"
      by (auto simp: entry_named_def split: InodeMode.splits)
    have eq: "fuse_lookup fs (fa_ino a0) n = Ok a \<longleftrightarrow> fuse_getattr fs (de_ino e) = Ok a" for a
      using fuse_lookup_iff [OF assms(1) Cons.prems(1)] Some by simp
    show ?thesis
    proof (cases "\<exists>a. fuse_getattr fs (de_ino e) = Ok a")
      case True
      then obtain a where Ok: "fuse_getattr fs (de_ino e) = Ok a" ..
      with assms(1) have a: "fa_ino a = de_ino e" by (rule fuse_getattr_ino)
      from Ok obtain d' where d': "?find (de_ino e) = Ok d'" by (auto simp: fuse_getattr_def)
      from Cons.IH [of a d'] a d' Ok eq [of a] show ?thesis
        by (simp add: step del: lookup_loop.simps list.map)
    next
      case False
      with lookup_needs_attr [OF assms(1), of "de_ino e" _ names _ attr] eq show ?thesis
        by (auto simp: step simp del: lookup_loop.simps list.map)
    qed
  qed
qed

section \<open>Directory listing\<close>

text \<open>The entry a complete listing has at each index.\<close>

definition listing_entry :: "'o Fuse \<Rightarrow> nat \<Rightarrow> DirEnt \<Rightarrow> dir_reply_entry wire_result" where
  "listing_entry fs index d =
     and_then (PuzzleFS_find_inode (fu_pfs fs) (de_ino d)) (\<lambda>inode.
     and_then (mode_to_fuse_type inode) (\<lambda>kind.
       Ok \<lparr>dr_ino = de_ino d, dr_offset = index + 1, dr_kind = kind, dr_name = de_name d\<rparr>))"

definition dir_listing :: "'o Fuse \<Rightarrow> DirEnt list \<Rightarrow> dir_reply_entry list wire_result" where
  "dir_listing fs ents = collect (\<lambda>(i, d). listing_entry fs i d) (enumerate 0 ents)"

text \<open>
  The kernel's side of the protocol: ask again from the offset of the last entry until a reply is
  empty. \<open>None\<close> is a listing that never ends.
\<close>

partial_function (option) read_whole_dir ::
    "'o Fuse \<Rightarrow> (dir_reply_entry list \<Rightarrow> dir_reply_entry \<Rightarrow> bool) \<Rightarrow> u64 \<Rightarrow> nat \<Rightarrow>
     dir_reply_entry list \<Rightarrow> dir_reply_entry list wire_result option" where
  "read_whole_dir fs fits ino off acc =
     (case fuse_readdir fs fits ino (int off) of
        Err e \<Rightarrow> Some (Err e)
      | Panic p \<Rightarrow> Some (Panic p)
      | Ok ents \<Rightarrow>
          (if ents = [] then Some (Ok acc)
           else read_whole_dir fs fits ino (dr_offset (last ents)) (acc @ ents)))"

text \<open>A call returns a prefix of what is left, which is not empty when the first entry fits.\<close>

lemma readdir_loop_prefix:
  assumes "collect (\<lambda>(i, d). listing_entry fs i d) ents = Ok rs"
  shows "\<exists>n. readdir_loop (PuzzleFS_find_inode (fu_pfs fs)) fits acc ents = Ok (acc @ take n rs) \<and>
    n \<le> length rs"
  using assms
proof (induction ents arbitrary: acc rs)
  case (Cons p ents)
  obtain i d where p: "p = (i, d)" by (cases p)
  with Cons.prems obtain r rs' where r: "listing_entry fs i d = Ok r" "rs = r # rs'"
    "collect (\<lambda>(i, d). listing_entry fs i d) ents = Ok rs'" by auto
  let ?find = "PuzzleFS_find_inode (fu_pfs fs)"
  have eq: "readdir_loop ?find fits acc (p # ents) =
      (if fits acc r then readdir_loop ?find fits (acc @ [r]) ents else Ok acc)"
    using r(1) by (auto simp: p listing_entry_def Let_def)
  show ?case
  proof (cases "fits acc r")
    case True
    from Cons.IH [OF r(3), of "acc @ [r]"] obtain n where
      "readdir_loop ?find fits (acc @ [r]) ents = Ok ((acc @ [r]) @ take n rs')" "n \<le> length rs'" by blast
    with True eq r(2) show ?thesis by (intro exI [of _ "Suc n"]) simp
  next
    case False
    with eq show ?thesis by (intro exI [of _ 0]) auto
  qed
qed simp

lemma readdir_loop_first:
  assumes "collect (\<lambda>(i, d). listing_entry fs i d) ents = Ok rs" and "rs \<noteq> []" and "fits acc (hd rs)"
  shows "\<exists>n. readdir_loop (PuzzleFS_find_inode (fu_pfs fs)) fits acc ents = Ok (acc @ take n rs) \<and>
    0 < n \<and> n \<le> length rs"
proof (cases ents)
  case (Cons p ents')
  obtain i d where p: "p = (i, d)" by (cases p)
  with Cons assms(1) obtain r rs' where r: "listing_entry fs i d = Ok r" "rs = r # rs'"
    "collect (\<lambda>(i, d). listing_entry fs i d) ents' = Ok rs'" by auto
  from readdir_loop_prefix [OF r(3), of fits "acc @ [r]"] obtain n where
    "readdir_loop (PuzzleFS_find_inode (fu_pfs fs)) fits (acc @ [r]) ents' = Ok ((acc @ [r]) @ take n rs')"
    "n \<le> length rs'" by blast
  with r Cons p assms(3) show ?thesis
    by (intro exI [of _ "Suc n"]) (auto simp: listing_entry_def Let_def)
qed (use assms in simp)

lemma collect_drop:
  "collect f xs = Ok ys \<Longrightarrow> collect f (drop n xs) = Ok (drop n ys)"
  by (auto simp: collect_Ok_iff intro: list_all2_dropI)

lemma dir_listing_offset:
  assumes "dir_listing fs ents = Ok rs" and "k < length rs"
  shows "dr_offset (rs ! k) = Suc k"
proof -
  from assms(1) have all2: "list_all2 (\<lambda>(i, d) r. listing_entry fs i d = Ok r) (enumerate 0 ents) rs"
    by (simp add: dir_listing_def collect_Ok_iff case_prod_unfold)
  from list_all2_nthD2 [OF all2 assms(2)] list_all2_lengthD [OF all2] assms(2)
  have "listing_entry fs k (ents ! k) = Ok (rs ! k)" by (simp add: nth_enumerate_eq)
  then show ?thesis by (auto simp: listing_entry_def) (metis dir_reply_entry.select_convs(2))
qed

lemma fuse_readdir_page:
  assumes "PuzzleFS_find_inode (fu_pfs fs) ino = Ok i" and "dir_entries i = Ok ents"
    and "dir_listing fs ents = Ok rs" and "off < length ents" and "length ents < 2 ^ 63"
    and "\<forall>r\<in>set rs. fits [] r"
  shows "\<exists>n. fuse_readdir fs fits ino (int off) = Ok (take n (drop off rs)) \<and> 0 < n \<and> off + n \<le> length rs"
proof -
  have len: "length rs = length ents" using assms(3) by (auto simp: dir_listing_def dest: collect_length)
  have "collect (\<lambda>(i, d). listing_entry fs i d) (drop off (enumerate 0 ents)) = Ok (drop off rs)"
    using assms(3) by (simp add: dir_listing_def collect_drop)
  from readdir_loop_first [OF this, of fits "[]"] assms(4,6) len obtain n where
    "readdir_loop (PuzzleFS_find_inode (fu_pfs fs)) fits [] (drop off (enumerate 0 ents)) = Ok (take n (drop off rs))"
    "0 < n" "n \<le> length (drop off rs)"
    by (auto simp: hd_drop_conv_nth)
  moreover have "i64_as_usize (int off) = off" using assms(4,5) by (simp add: i64_as_usize_def)
  ultimately show ?thesis using assms(1,2,4) len by (auto simp: fuse_readdir_def)
qed

lemma read_whole_dir_spec:
  assumes "PuzzleFS_find_inode (fu_pfs fs) ino = Ok i" and "dir_entries i = Ok ents"
    and "dir_listing fs ents = Ok rs" and "length ents < 2 ^ 63" and "\<forall>r\<in>set rs. fits [] r"
    and "off \<le> length ents"
  shows "read_whole_dir fs fits ino off acc = Some (Ok (acc @ drop off rs))"
  using assms(6)
proof (induction "length ents - off" arbitrary: off acc rule: less_induct)
  case less
  have len: "length rs = length ents" using assms(3) by (auto simp: dir_listing_def dest: collect_length)
  show ?case
  proof (cases "off = length ents")
    case True
    then have "fuse_readdir fs fits ino (int off) = Ok []"
      using assms(1,2,4) by (simp add: fuse_readdir_def i64_as_usize_def)
    with True len show ?thesis by (subst read_whole_dir.simps) simp
  next
    case False
    with less.prems have "off < length ents" by simp
    from fuse_readdir_page [where fits = fits, OF assms(1-3) this assms(4,5)] obtain n where
      n: "fuse_readdir fs fits ino (int off) = Ok (take n (drop off rs))" "0 < n" "off + n \<le> length rs"
      by blast
    then have ne: "take n (drop off rs) \<noteq> []" by auto
    have "last (take n (drop off rs)) = rs ! (off + n - 1)"
      using n(2,3) ne by (simp add: last_conv_nth min_absorb2)
    then have last: "dr_offset (last (take n (drop off rs))) = off + n"
      using dir_listing_offset [OF assms(3), of "off + n - 1"] n(2,3) by simp
    have "read_whole_dir fs fits ino off acc = read_whole_dir fs fits ino (off + n) (acc @ take n (drop off rs))"
      using n(1) ne last by (simp add: read_whole_dir.simps [of fs fits ino off])
    also have "\<dots> = Some (Ok ((acc @ take n (drop off rs)) @ drop (off + n) rs))"
      using n len less.prems False by (intro less.hyps) auto
    also have "take n (drop off rs) @ drop (off + n) rs = drop off rs"
      by (metis add.commute append_take_drop_id drop_drop)
    then have "(acc @ take n (drop off rs)) @ drop (off + n) rs = acc @ drop off rs" by simp
    finally show ?thesis .
  qed
qed

lemma readdir_loop_missing:
  assumes "collect (\<lambda>(i, d). listing_entry fs i d) pre = Ok rs"
    and "PuzzleFS_find_inode (fu_pfs fs) (de_ino d) = Err e"
    and "\<And>rs' r. fits rs' r"
  shows "readdir_loop (PuzzleFS_find_inode (fu_pfs fs)) fits acc (pre @ (k, d) # post) = Err e"
  using assms(1)
proof (induction pre arbitrary: acc rs)
  case (Cons p pre)
  then show ?case by (cases p) (auto simp: listing_entry_def Let_def assms(3))
qed (simp add: assms(2))

section \<open>Extended attributes\<close>

lemma fuse_getxattr_listed:
  assumes "PuzzleFS_find_inode (fu_pfs fs) ino = Ok i" and "i_additional i = Some add"
    and "x \<in> set (ia_xattrs add)" and "distinct (map x_key (ia_xattrs add))"
  shows "fuse_getxattr fs ino (x_key x) = Ok (x_val x)"
  using assms find_unique [OF assms(4,3) refl] by (simp add: fuse_getxattr_def)

lemma fuse_listxattr_keys:
  assumes "PuzzleFS_find_inode (fu_pfs fs) ino = Ok i" and "i_additional i = Some add"
    and "\<forall>x\<in>set (ia_xattrs add). 0 \<notin> set (x_key x)"
  shows "fuse_listxattr fs ino = Ok (concat (map (\<lambda>x. x_key x @ [0]) (ia_xattrs add)))"
  using assms collect_total [of "ia_xattrs add" "\<lambda>x. cstring_bytes (x_key x)" "\<lambda>x. x_key x @ [0]"]
  by (simp add: fuse_listxattr_def cstring_bytes_def)

lemma split_on_concat:
  assumes "\<forall>k\<in>set ks. sep \<notin> set k"
  shows "split_on sep (concat (map (\<lambda>k. k @ [sep]) ks)) = ks @ [[]]"
  using assms by (induction ks) (simp_all add: split_on_one)

end
