(* ===== verification/Walk.thy ===== *)
theory Walk
  imports Pfs "HOL-Library.Multiset"
begin

text \<open>
  \<open>puzzlefs-lib/src/reader/walk.rs\<close>: the breadth-first iterator over an image. \<open>next\<close> is a step of a
  state machine whose state is the queue; \<open>walk_all\<close> drives it the way \<open>try_for_each\<close> does, up to the
  first error. The lemmas are proved for every \<open>inode_store\<close>.
\<close>

section \<open>The iterator\<close>

record 'o DirEntry =
  wd_oci :: "'o Image"
  wd_path :: path
  wd_inode :: Inode

definition DirEntry_open :: "'o DirEntry \<Rightarrow> 'o FileReader wire_result" where
  "DirEntry_open de = FileReader_new (wd_oci de) (wd_inode de)"

definition root_entry :: "'o Image \<Rightarrow> Inode \<Rightarrow> 'o DirEntry" where
  "root_entry oci inode = \<lparr>wd_oci = oci, wd_path = components [slash], wd_inode = inode\<rparr>"

definition child_entry :: "'o DirEntry \<Rightarrow> DirEnt \<Rightarrow> Inode \<Rightarrow> 'o DirEntry" where
  "child_entry dir entry inode =
     \<lparr>wd_oci = wd_oci dir, wd_path = join (wd_path dir) (de_name entry), wd_inode = inode\<rparr>"

definition walk_start :: "'o Image \<Rightarrow> (Ino \<Rightarrow> Inode wire_result) \<Rightarrow> 'o DirEntry list wire_result" where
  "walk_start oci find_ino = and_then (find_ino 1) (\<lambda>inode. Ok [root_entry oci inode])"

text \<open>
  The loop of \<open>add_dir_entries\<close>: entries already pushed stay in the queue when a later one fails.
\<close>

fun push_entries ::
    "(Ino \<Rightarrow> Inode wire_result) \<Rightarrow> 'o DirEntry \<Rightarrow> 'o DirEntry list \<Rightarrow> DirEnt list \<Rightarrow>
     'o DirEntry list \<times> unit wire_result" where
  "push_entries find_ino dir q [] = (q, Ok ())"
| "push_entries find_ino dir q (entry # entries) =
     (case find_ino (de_ino entry) of
        Ok inode \<Rightarrow> push_entries find_ino dir (q @ [child_entry dir entry inode]) entries
      | Err e \<Rightarrow> (q, Err e)
      | Panic p \<Rightarrow> (q, Panic p))"

definition add_dir_entries ::
    "(Ino \<Rightarrow> Inode wire_result) \<Rightarrow> 'o DirEntry list \<Rightarrow> 'o DirEntry \<Rightarrow>
     'o DirEntry list \<times> unit wire_result" where
  "add_dir_entries find_ino q dir =
     (case i_mode (wd_inode dir) of
        Dir dir_list \<Rightarrow> push_entries find_ino dir q (dl_entries dir_list)
      | _ \<Rightarrow> (q, Ok ()))"

fun walk_next ::
    "(Ino \<Rightarrow> Inode wire_result) \<Rightarrow> 'o DirEntry list \<Rightarrow>
     'o DirEntry list \<times> 'o DirEntry wire_result option" where
  "walk_next find_ino [] = ([], None)"
| "walk_next find_ino (de # q) =
     (let (q', r) = add_dir_entries find_ino q de in (q', Some (map_ok (\<lambda>_. de) r)))"

partial_function (option) walk_all ::
    "(Ino \<Rightarrow> Inode wire_result) \<Rightarrow> 'o DirEntry list \<Rightarrow> 'o DirEntry list \<Rightarrow>
     'o DirEntry list wire_result option" where
  "walk_all find_ino seen q =
     (case walk_next find_ino q of
        (q', None) \<Rightarrow> Some (Ok seen)
      | (q', Some (Err e)) \<Rightarrow> Some (Err e)
      | (q', Some (Panic p)) \<Rightarrow> Some (Panic p)
      | (q', Some (Ok de)) \<Rightarrow> walk_all find_ino (seen @ [de]) q')"

definition walk :: "'o PuzzleFS \<Rightarrow> 'o DirEntry list wire_result option" where
  "walk pfs =
     (case walk_start (pfs_oci pfs) (PuzzleFS_find_inode pfs) of
        Ok q \<Rightarrow> walk_all (PuzzleFS_find_inode pfs) [] q
      | Err e \<Rightarrow> Some (Err e)
      | Panic p \<Rightarrow> Some (Panic p))"

section \<open>Specification\<close>

definition dir_ents :: "Inode \<Rightarrow> DirEnt list" where
  "dir_ents i = (case i_mode i of Dir dl \<Rightarrow> dl_entries dl | _ \<Rightarrow> [])"

text \<open>
  An image tree: in the directories that can be reached from the root every entry leads to an inode,
  entry names are plain and unique, and a rank decreases from a directory to its entries (no
  directory contains itself).
\<close>

definition tree_view :: "(Ino \<Rightarrow> Inode option) \<Rightarrow> (Ino \<Rightarrow> nat) \<Rightarrow> bool" where
  "tree_view view rank \<longleftrightarrow>
     view 1 \<noteq> None \<and>
     (\<forall>names d. path_to view names d \<longrightarrow>
        distinct (map de_name (dir_ents d)) \<and>
        (\<forall>e\<in>set (dir_ents d).
           plain_name (de_name e) \<and> view (de_ino e) \<noteq> None \<and> rank (de_ino e) < rank (i_ino d)))"

text \<open>The children a directory contributes to the queue.\<close>

definition children :: "(Ino \<Rightarrow> Inode option) \<Rightarrow> 'o DirEntry \<Rightarrow> 'o DirEntry list" where
  "children view dir =
     map (\<lambda>e. child_entry dir e (the (view (de_ino e)))) (dir_ents (wd_inode dir))"

text \<open>The iteration as a relation on (entries already yielded, queue).\<close>

inductive walk_step ::
    "(Ino \<Rightarrow> Inode option) \<Rightarrow> 'o DirEntry list \<times> 'o DirEntry list \<Rightarrow>
     'o DirEntry list \<times> 'o DirEntry list \<Rightarrow> bool"
  for view :: "Ino \<Rightarrow> Inode option" where
  visit: "\<forall>e\<in>set (dir_ents (wd_inode de)). view (de_ino e) \<noteq> None \<Longrightarrow>
    walk_step view (seen, de # q) (seen @ [de], q @ children view de)"

inductive_cases walk_stepE: "walk_step view (seen, q) st"

inductive walk_reachable ::
    "(Ino \<Rightarrow> Inode option) \<Rightarrow> 'o Image \<Rightarrow> 'o DirEntry list \<times> 'o DirEntry list \<Rightarrow> bool"
  for view :: "Ino \<Rightarrow> Inode option" and oci :: "'o Image" where
  start: "view 1 = Some i \<Longrightarrow> walk_reachable view oci ([], [root_entry oci i])"
| step: "walk_reachable view oci st \<Longrightarrow> walk_step view st st' \<Longrightarrow> walk_reachable view oci st'"

section \<open>The iterator follows the relation\<close>

lemma dir_ents_Dir [simp]: "i_mode i = Dir dl \<Longrightarrow> dir_ents i = dl_entries dl"
  by (simp add: dir_ents_def)

lemma entry_named_dir_ents: "entry_named i name = List.find (\<lambda>d. de_name d = name) (dir_ents i)"
  by (cases "i_mode i") (simp_all add: entry_named_def dir_ents_def)

lemma add_dir_entries_alt:
  "add_dir_entries find_ino q dir = push_entries find_ino dir q (dir_ents (wd_inode dir))"
  by (cases "i_mode (wd_inode dir)") (simp_all add: add_dir_entries_def dir_ents_def)

context inode_store
begin

lemma push_entries_Ok:
  assumes "valid s" and "\<forall>e\<in>set es. view s (de_ino e) \<noteq> None"
  shows "push_entries (find s) dir q es =
    (q @ map (\<lambda>e. child_entry dir e (the (view s (de_ino e)))) es, Ok ())"
  using assms(2) by (induction es arbitrary: q) (auto simp: find_view [OF assms(1)])

lemma push_entries_missing:
  assumes "valid s" and "\<exists>e\<in>set es. view s (de_ino e) = None"
  shows "\<exists>q'. push_entries (find s) dir q es = (q', Err (from_errno ENOENT))"
  using assms(2)
proof (induction es arbitrary: q)
  case (Cons e es)
  then show ?case by (cases "view s (de_ino e)") (auto simp: find_view [OF assms(1)])
qed simp

lemma walk_next_Ok:
  assumes "valid s" and "\<forall>e\<in>set (dir_ents (wd_inode de)). view s (de_ino e) \<noteq> None"
  shows "walk_next (find s) (de # q) = (q @ children (view s) de, Some (Ok de))"
  by (simp add: add_dir_entries_alt push_entries_Ok [OF assms] children_def)

lemma walk_next_missing:
  assumes "valid s" and "e \<in> set (dir_ents (wd_inode de))" and "view s (de_ino e) = None"
  shows "\<exists>q'. walk_next (find s) (de # q) = (q', Some (Err (from_errno ENOENT)))"
proof -
  from push_entries_missing [OF assms(1), of "dir_ents (wd_inode de)" de q] assms(2,3)
  obtain q' where "push_entries (find s) de q (dir_ents (wd_inode de)) = (q', Err (from_errno ENOENT))"
    by blast
  then show ?thesis by (simp add: add_dir_entries_alt)
qed

lemma walk_all_step:
  assumes "valid s" and "\<forall>e\<in>set (dir_ents (wd_inode de)). view s (de_ino e) \<noteq> None"
  shows "walk_all (find s) seen (de # q) = walk_all (find s) (seen @ [de]) (q @ children (view s) de)"
  using walk_next_Ok [OF assms, of q] by (subst walk_all.simps) simp

end

section \<open>Invariants of the iteration\<close>

text \<open>
  Every queued or yielded entry is a path of the image; the children of a yielded entry are queued or
  yielded; the root is there.
\<close>

definition walk_inv ::
    "(Ino \<Rightarrow> Inode option) \<Rightarrow> 'o Image \<Rightarrow> 'o DirEntry list \<times> 'o DirEntry list \<Rightarrow> bool" where
  "walk_inv view oci = (\<lambda>(seen, q).
     (\<forall>x\<in>set (seen @ q). wd_oci x = oci \<and>
        (\<exists>names. wd_path x = abs_path names \<and> path_to view names (wd_inode x))) \<and>
     (\<forall>x\<in>set seen. set (children view x) \<subseteq> set (seen @ q)) \<and>
     (\<exists>i. view 1 = Some i \<and> root_entry oci i \<in> set (seen @ q)))"

text \<open>Breadth first: depths never decrease, and the queue spans at most two levels.\<close>

definition depth :: "'o DirEntry \<Rightarrow> nat" where
  "depth x = length (wd_path x)"

definition bfs_inv :: "'o DirEntry list \<times> 'o DirEntry list \<Rightarrow> bool" where
  "bfs_inv = (\<lambda>(seen, q). sorted (map depth (seen @ q)) \<and>
     (\<forall>x\<in>set q. depth x \<le> Suc (depth (hd q))))"

lemma path_to_view: "path_to view names i \<Longrightarrow> \<exists>ino. view ino = Some i"
  by (induction rule: path_to.induct) auto

lemma tree_viewD:
  assumes "tree_view view rank" and "path_to view names d"
  shows "distinct (map de_name (dir_ents d))" "\<And>e. e \<in> set (dir_ents d) \<Longrightarrow> plain_name (de_name e)"
    "\<And>e. e \<in> set (dir_ents d) \<Longrightarrow> view (de_ino e) \<noteq> None"
    "\<And>e. e \<in> set (dir_ents d) \<Longrightarrow> rank (de_ino e) < rank (i_ino d)"
  using assms unfolding tree_view_def by blast+

lemma root_entry_path [simp]: "wd_path (root_entry oci i) = abs_path []"
  by (simp add: root_entry_def components_root abs_path_def)

lemma root_entry_sel [simp]: "wd_oci (root_entry oci i) = oci" "wd_inode (root_entry oci i) = i"
  by (simp_all add: root_entry_def)

lemma abs_path_snoc: "abs_path names @ [Normal n] = abs_path (names @ [n])"
  by (simp add: abs_path_def)

lemma children_path_to:
  assumes tree: "tree_view view rank" and x: "wd_path x = abs_path names" "path_to view names (wd_inode x)"
    and y: "y \<in> set (children view x)"
  shows "\<exists>n. wd_path y = abs_path (names @ [n]) \<and> path_to view (names @ [n]) (wd_inode y) \<and> wd_oci y = wd_oci x"
proof -
  from y obtain e where e: "e \<in> set (dir_ents (wd_inode x))"
    and ye: "y = child_entry x e (the (view (de_ino e)))" by (auto simp: children_def)
  note t = tree_viewD(1) [OF tree x(2)] tree_viewD(2,3) [OF tree x(2) e]
  have "wd_path y = abs_path (names @ [de_name e])"
    using t(2) x(1) by (simp add: ye child_entry_def join_plain abs_path_def)
  moreover have "entry_named (wd_inode x) (de_name e) = Some e"
    using t(1) e by (simp add: entry_named_dir_ents find_unique)
  with x(2) t(3) have "path_to view (names @ [de_name e]) (wd_inode y)"
    by (auto simp: ye child_entry_def intro: path_to.step)
  ultimately show ?thesis by (auto simp: ye child_entry_def)
qed

lemma walk_inv_step:
  assumes "tree_view view rank" and "walk_step view st st'" and "walk_inv view oci st"
  shows "walk_inv view oci st'"
  using assms(2,3)
proof (cases rule: walk_step.cases)
  case (visit de seen q)
  have ch: "wd_oci y = oci \<and> (\<exists>names. wd_path y = abs_path names \<and> path_to view names (wd_inode y))"
    if "y \<in> set (children view de)" for y
    using assms(3) visit(1) children_path_to [OF assms(1) _ _ that] by (fastforce simp: walk_inv_def)
  with assms(3) show ?thesis unfolding visit by (fastforce simp: walk_inv_def)
qed

lemma depth_children:
  assumes "tree_view view rank" and "walk_inv view oci (seen, de # q)" and "y \<in> set (children view de)"
  shows "depth y = Suc (depth de)"
  using assms(2) children_path_to [OF assms(1) _ _ assms(3)]
  by (fastforce simp: walk_inv_def depth_def abs_path_def)

lemma bfs_inv_step:
  assumes "tree_view view rank" and "walk_step view st st'" and "walk_inv view oci st" and "bfs_inv st"
  shows "bfs_inv st'"
  using assms(2)
proof (cases rule: walk_step.cases)
  case (visit de seen q)
  let ?cs = "children view de"
  have ch: "\<forall>y\<in>set ?cs. depth y = Suc (depth de)"
    using depth_children [OF assms(1)] assms(3) by (auto simp: visit)
  then have "sorted (map depth ?cs)" by (auto simp: sorted_iff_nth_mono)
  moreover from assms(4) have old: "sorted (map depth (seen @ de # q))"
    "\<forall>x\<in>set q. depth x \<le> Suc (depth de)" by (auto simp: visit bfs_inv_def)
  ultimately have "sorted (map depth ((seen @ [de]) @ q @ ?cs))"
    using ch by (auto simp: sorted_append)
  moreover have "depth x \<le> Suc (depth (hd (q @ ?cs)))" if "x \<in> set (q @ ?cs)" for x
  proof (cases q)
    case Nil
    with that have "hd ?cs \<in> set ?cs" by (cases ?cs) auto
    with Nil that ch show ?thesis by simp
  next
    case (Cons a as)
    with old(1) have "depth de \<le> depth a" by (simp add: sorted_append)
    with Cons that ch old(2) show ?thesis by fastforce
  qed
  ultimately show ?thesis unfolding visit bfs_inv_def by simp
qed

lemma walk_reachable_inv:
  assumes "tree_view view rank" and "walk_reachable view oci st"
  shows "walk_inv view oci st \<and> bfs_inv st"
  using assms(2)
proof (induction rule: walk_reachable.induct)
  case (start i)
  then show ?case by (auto simp: walk_inv_def bfs_inv_def intro: path_to.root exI [of _ "[]"])
next
  case (step st st')
  then show ?case using walk_inv_step [OF assms(1)] bfs_inv_step [OF assms(1)] by blast
qed

text \<open>When the queue is empty, exactly the paths of the image have been yielded.\<close>

lemma walk_inv_finished:
  assumes "walk_inv view oci (seen, [])" and "tree_view view rank" and "path_to view names i"
  shows "\<exists>x\<in>set seen. wd_path x = abs_path names \<and> wd_inode x = i"
  using assms(3)
proof (induction rule: path_to.induct)
  case (root i)
  with assms(1) show ?case by (force simp: walk_inv_def)
next
  case (step names d name e i)
  then obtain x where x: "x \<in> set seen" "wd_path x = abs_path names" "wd_inode x = d" by blast
  from step.hyps have e: "e \<in> set (dir_ents d)" "de_name e = name"
    by (auto simp: entry_named_dir_ents find_Some_iff)
  let ?y = "child_entry x e i"
  have "?y \<in> set (children view x)"
    using e x step.hyps(3) by (force simp: children_def)
  with assms(1) x(1) have "?y \<in> set seen" by (auto simp: walk_inv_def)
  moreover have "plain_name name" using tree_viewD(2) [OF assms(2) step.hyps(1) e(1)] e(2) by simp
  then have "wd_path ?y = abs_path (names @ [name])"
    using e x by (simp add: child_entry_def join_plain abs_path_def)
  ultimately show ?case by (intro bexI [of _ ?y]) (simp_all add: child_entry_def)
qed

text \<open>No path is yielded twice: all paths differ, and the parent of every entry was yielded before.\<close>

definition once_inv :: "'o DirEntry list \<times> 'o DirEntry list \<Rightarrow> bool" where
  "once_inv = (\<lambda>(seen, q). distinct (map wd_path (seen @ q)) \<and>
     (\<forall>y\<in>set (seen @ q). wd_path y = abs_path [] \<or> (\<exists>x\<in>set seen. butlast (wd_path y) = wd_path x)))"

lemma children_paths:
  assumes "tree_view view rank" and "wd_path x = abs_path names" and "path_to view names (wd_inode x)"
  shows "map wd_path (children view x) = map (\<lambda>e. wd_path x @ [Normal (de_name e)]) (dir_ents (wd_inode x))"
    and "distinct (map wd_path (children view x))"
proof -
  have t: "distinct (map de_name (dir_ents (wd_inode x)))" "\<forall>e\<in>set (dir_ents (wd_inode x)). plain_name (de_name e)"
    using tree_viewD(1,2) [OF assms(1,3)] by blast+
  from t(2) assms(2) show eq: "map wd_path (children view x) =
      map (\<lambda>e. wd_path x @ [Normal (de_name e)]) (dir_ents (wd_inode x))"
    by (simp add: children_def child_entry_def join_plain abs_path_def)
  show "distinct (map wd_path (children view x))"
    unfolding eq using t(1) by (auto simp: distinct_map inj_on_def)
qed

lemma once_inv_step:
  assumes "tree_view view rank" and "walk_step view st st'" and "walk_inv view oci st" and "once_inv st"
  shows "once_inv st'"
  using assms(2)
proof (cases rule: walk_step.cases)
  case (visit de seen q)
  from assms(3) visit(1) obtain names where de: "wd_path de = abs_path names" "path_to view names (wd_inode de)"
    by (auto simp: walk_inv_def)
  note ch = children_paths [OF assms(1) de]
  have bl: "butlast (wd_path c) = wd_path de \<and> wd_path c \<noteq> abs_path []" if "c \<in> set (children view de)" for c
  proof -
    from that have "wd_path c \<in> set (map wd_path (children view de))" by simp
    then obtain n where "wd_path c = wd_path de @ [Normal n]" unfolding ch(1) by auto
    then show ?thesis by (simp add: de(1) abs_path_def)
  qed
  from assms(4) have old: "distinct (map wd_path (seen @ de # q))"
    "\<And>y. y \<in> set (seen @ de # q) \<Longrightarrow> wd_path y = abs_path [] \<or> (\<exists>x\<in>set seen. butlast (wd_path y) = wd_path x)"
    by (auto simp: visit once_inv_def)
  have ne: "wd_path c \<noteq> wd_path y" if "c \<in> set (children view de)" "y \<in> set (seen @ de # q)" for c y
    using old(2) [OF that(2)] bl [OF that(1)] old(1) by force
  have "wd_path ` set (seen @ de # q) \<inter> wd_path ` set (children view de) = {}"
    by (auto simp only: disjoint_iff image_iff dest: ne)
  then have "distinct (map wd_path (seen @ de # q) @ map wd_path (children view de))"
    using old(1) ch(2) by (simp only: distinct_append set_map simp_thms)
  then have "distinct (map wd_path ((seen @ [de]) @ q @ children view de))"
    by (simp only: map_append append.assoc list.map append_Cons append_Nil)
  moreover have "\<forall>y\<in>set ((seen @ [de]) @ q @ children view de).
      wd_path y = abs_path [] \<or> (\<exists>x\<in>set (seen @ [de]). butlast (wd_path y) = wd_path x)"
  proof
    fix y
    assume "y \<in> set ((seen @ [de]) @ q @ children view de)"
    then consider "y \<in> set (seen @ de # q)" | "y \<in> set (children view de)" by auto
    then show "wd_path y = abs_path [] \<or> (\<exists>x\<in>set (seen @ [de]). butlast (wd_path y) = wd_path x)"
    proof cases
      case 1
      from old(2) [OF this] show ?thesis by auto
    next
      case 2
      from bl [OF this] show ?thesis by auto
    qed
  qed
  ultimately show ?thesis by (simp only: visit once_inv_def prod.case simp_thms)
qed

lemma walk_reachable_once:
  assumes "tree_view view rank" and "walk_reachable view oci st"
  shows "once_inv st"
  using assms(2)
proof (induction rule: walk_reachable.induct)
  case (start i)
  then show ?case by (simp add: once_inv_def)
next
  case (step st st')
  then show ?case using once_inv_step [OF assms(1)] walk_reachable_inv [OF assms(1)] by blast
qed

section \<open>Termination\<close>

text \<open>
  A step replaces the rank of the visited entry by smaller ranks, so the multiset of the queue's ranks
  decreases in the multiset order.
\<close>

definition q_ranks :: "(Ino \<Rightarrow> nat) \<Rightarrow> 'o DirEntry list \<Rightarrow> nat multiset" where
  "q_ranks rank q = mset (map (\<lambda>x. rank (i_ino (wd_inode x))) q)"

context inode_store
begin

lemma q_ranks_decrease:
  assumes "valid s" and "tree_view (view s) rank" and "path_to (view s) names (wd_inode de)"
  shows "(q_ranks rank (q @ children (view s) de), q_ranks rank (de # q)) \<in> mult less_than"
proof -
  have "rank (i_ino (wd_inode y)) < rank (i_ino (wd_inode de))" if "y \<in> set (children (view s) de)" for y
  proof -
    from that obtain e where e: "e \<in> set (dir_ents (wd_inode de))"
      "y = child_entry de e (the (view s (de_ino e)))" by (auto simp: children_def)
    from tree_viewD(3,4) [OF assms(2,3) e(1)] e(2) view_ino [OF assms(1)] show ?thesis
      by (auto simp: child_entry_def)
  qed
  then have "(q_ranks rank q + q_ranks rank (children (view s) de), q_ranks rank q + {#rank (i_ino (wd_inode de))#}) \<in> mult less_than"
    by (intro one_step_implies_mult) (auto simp: q_ranks_def)
  then show ?thesis by (simp add: q_ranks_def)
qed

lemma walk_all_terminates:
  assumes "valid s" and tree: "tree_view (view s) rank" and "walk_reachable (view s) oci (seen, q)"
  shows "\<exists>res. walk_all (find s) seen q = Some (Ok res) \<and> walk_reachable (view s) oci (res, [])"
  using assms(3)
proof (induction "q_ranks rank q" arbitrary: seen q rule: wf_induct_rule [OF wf_mult [OF wf_less_than]])
  case less: 1
  show ?case
  proof (cases q)
    case Nil
    have "walk_all (find s) seen [] = Some (Ok seen)" by (subst walk_all.simps) simp
    with less.prems Nil show ?thesis by blast
  next
    case (Cons de q')
    from walk_reachable_inv [OF tree less.prems] Cons obtain names where
      path: "path_to (view s) names (wd_inode de)" by (auto simp: walk_inv_def)
    have res: "\<forall>e\<in>set (dir_ents (wd_inode de)). view s (de_ino e) \<noteq> None"
      using tree_viewD(3) [OF tree path] by blast
    let ?q = "q' @ children (view s) de"
    have "walk_reachable (view s) oci (seen @ [de], ?q)"
      using less.prems walk_step.visit [OF res] unfolding Cons by (rule walk_reachable.step)
    with q_ranks_decrease [OF assms(1) tree path, of q'] less.hyps [of ?q "seen @ [de]"]
    show ?thesis unfolding Cons walk_all_step [OF assms(1) res] by blast
  qed
qed

end

text \<open>The walk of an opened image.\<close>

lemma walk_tree:
  assumes "wf_pfs pfs" and "tree_view (pfs_view pfs) rank"
  shows "\<exists>res. walk pfs = Some (Ok res) \<and> distinct (map wd_path res) \<and> sorted (map depth res) \<and>
    {(wd_path x, wd_inode x) |x. x \<in> set res} = {(abs_path names, i) |names i. path_to (pfs_view pfs) names i}"
proof -
  let ?view = "pfs_view pfs" and ?oci = "pfs_oci pfs"
  from assms(2) obtain i where i: "?view 1 = Some i" by (auto simp: tree_view_def)
  then have start: "walk_reachable ?view ?oci ([], [root_entry ?oci i])" by (rule walk_reachable.start)
  from pfs.walk_all_terminates [OF assms this] obtain res where
    res: "walk_all (PuzzleFS_find_inode pfs) [] [root_entry ?oci i] = Some (Ok res)"
    "walk_reachable ?view ?oci (res, [])" by blast
  from i assms(1) res(1) have walk: "walk pfs = Some (Ok res)"
    by (simp add: walk_def walk_start_def pfs.find_view)
  from walk_reachable_inv [OF assms(2) res(2)] walk_reachable_once [OF assms(2) res(2)]
  have inv: "walk_inv ?view ?oci (res, [])" "sorted (map depth res)" "distinct (map wd_path res)"
    by (simp_all add: bfs_inv_def once_inv_def)
  have "(wd_path x, wd_inode x) \<in> {(abs_path names, i) |names i. path_to ?view names i}" if "x \<in> set res" for x
    using inv(1) that by (fastforce simp: walk_inv_def)
  moreover have "(abs_path names, i) \<in> {(wd_path x, wd_inode x) |x. x \<in> set res}" if "path_to ?view names i" for names i
  proof -
    from walk_inv_finished [OF inv(1) assms(2) that] obtain x where "x \<in> set res" "wd_path x = abs_path names"
      "wd_inode x = i" by blast
    then have "(abs_path names, i) = (wd_path x, wd_inode x) \<and> x \<in> set res" by simp
    then show ?thesis by blast
  qed
  ultimately show ?thesis using walk inv(2,3) by blast
qed

end
