(* ===== verification/Sample_Image.thy ===== *)
theory Sample_Image
  imports Fuse Walk
begin

text \<open>
  A small concrete image on which the theorems of the development are instantiated: two metadata
  layers (the upper one replaces the root directory and hides inode 5 with a whiteout), a file of
  two chunks, a sub-directory and a symbolic link. The external crates are given by simple concrete
  functions that meet the laws of \<open>env_lawful\<close> and \<open>zstd_lawful\<close>.
\<close>

section \<open>External functions\<close>

text \<open>A digest of 32 bytes (the padded input) in place of SHA-256 and of the fs-verity digest.\<close>

definition pad32 :: "bytes \<Rightarrow> bytes" where
  "pad32 xs = take 32 (xs @ replicate 32 0)"

text \<open>A codec in place of zstd: one constant string is shortened, the others get a marker byte.\<close>

definition sample_zstd :: "bytes \<Rightarrow> bytes io_result" where
  "sample_zstd xs = Ok (if xs = replicate 8 7 then [0] else 1 # xs)"

definition sample_unzstd :: "bytes \<Rightarrow> bytes" where
  "sample_unzstd zs = (if zs = [0] then replicate 8 7 else tl zs)"

definition seekable_on :: "bytes \<Rightarrow> seekable" where
  "seekable_on xs = \<lparr>sk_frame_sizes = [length xs], sk_decompress = (\<lambda>n off. Ok (take n (drop off xs)))\<rparr>"

definition sample_env :: "capnp_rootfs \<Rightarrow> ImageManifest \<Rightarrow> unit env" where
  "sample_env rootfs manifest =
     \<lparr>env_hex = base16, env_sha256 = pad32, env_fs_verity_sha256 = pad32,
      env_fsverity_measure = (\<lambda>f. Ok (pad32 (bf_data f))),
      env_seekable_init = (\<lambda>fh. Ok (seekable_on (sample_unzstd (fh_data fh)))),
      env_read_message = (\<lambda>bs. Ok rootfs),
      env_write_message = (\<lambda>c. Ok []),
      env_digest_from_str = (\<lambda>s. Ok (drop 7 s)),
      env_write_error = (\<lambda>name data. None), env_reopen_error = (\<lambda>name. None),
      env_find_manifest_with_tag = (\<lambda>im tag. Ok (Some manifest)),
      env_find_manifest_descriptor_with_tag = (\<lambda>im tag. Ok None)\<rparr>"

lemma seekable_on_of: "seekable_of (seekable_on xs) xs"
  by (simp add: seekable_of_def seekable_on_def)

lemma length_pad32 [simp]: "length (pad32 xs) = 32"
  by (auto simp: pad32_def min_def)

lemma sample_env_lawful: "env_lawful (sample_env rootfs manifest)"
  by (simp add: env_lawful_def sample_env_def base16_lawful SHA256_BLOCK_SIZE_def)

lemma sample_zstd_lawful: "zstd_lawful (sample_env rootfs manifest) sample_zstd"
  using seekable_on_of
  by (auto simp: zstd_lawful_def sample_env_def sample_zstd_def sample_unzstd_def)

text \<open>A stream that takes four bytes at a time and gives its output at the end.\<close>

definition sample_cstream :: "(bytes \<times> bool) cstream_ops" where
  "sample_cstream =
     \<lparr>cs_compress = (\<lambda>(given, ended) buf. Ok ([], min 4 (length buf), (given @ take 4 buf, ended))),
      cs_end_stream = (\<lambda>(given, ended).
        if ended then Ok ([], (given, ended)) else map_ok (\<lambda>z. (z, (given, True))) (sample_zstd given))\<rparr>"

lemma sample_cstream_lawful:
  "cstream_lawful (env_seekable_init (sample_env rootfs manifest)) sample_cstream (\<lambda>level frame_size. Ok ([], False))"
proof -
  let ?fed = "\<lambda>c given made. c = (given, False) \<and> made = []"
  let ?ending = "\<lambda>(m :: nat) c given made. if m = 0 then c = (given, True) \<and> sample_zstd given = Ok made else ?fed c given made"
  have "cstream_feeds sample_cstream (\<lambda>level frame_size. Ok ([], False)) ?fed"
    by (auto simp: cstream_feeds_def sample_cstream_def min_def)
  moreover have opens: "\<exists>s. env_seekable_init (sample_env rootfs manifest) \<lparr>fh_data = made, fh_pos = 0\<rparr> = Ok s \<and> seekable_of s given"
    if "sample_zstd given = Ok made" for given made
    using sample_zstd_lawful [of rootfs manifest] that unfolding zstd_lawful_def by blast
  have "cstream_ends (env_seekable_init (sample_env rootfs manifest)) sample_cstream ?ending"
    unfolding cstream_ends_def
  proof (intro allI impI)
    fix m :: nat and c given made
    assume "?ending m c given made"
    then show "case cs_end_stream sample_cstream c of Err e \<Rightarrow> True | Panic p \<Rightarrow> False
      | Ok (out, c') \<Rightarrow> if out = [] then \<exists>s. env_seekable_init (sample_env rootfs manifest) \<lparr>fh_data = made, fh_pos = 0\<rparr> = Ok s \<and> seekable_of s given
          else \<exists>k<m. ?ending k c' given (made @ out)"
      using opens [of given made] by (cases "m = 0") (auto simp: sample_cstream_def sample_zstd_def intro!: exI [of _ 0])
  qed
  moreover have "\<exists>m. ?ending m c given made" if "?fed c given made" for c given made
    using that by (intro exI [of _ 1]) simp
  ultimately show ?thesis unfolding cstream_lawful_def by blast
qed

section \<open>Blobs\<close>

definition sample_blob :: bytes where
  "sample_blob = [10, 11, 12, 13, 14, 15]"

definition sample_image :: "unit Image" where
  "sample_image =
     \<lparr>im_blobs = [base16_encode (pad32 sample_blob) \<mapsto> \<lparr>bf_data = sample_blob, bf_verity = False\<rparr>],
      im_oci = ()\<rparr>"

definition sample_chunk :: "u64 \<Rightarrow> u64 \<Rightarrow> FileChunk" where
  "sample_chunk off len =
     \<lparr>fc_blob = \<lparr>br_digest = pad32 sample_blob, br_offset = off, br_compressed = False\<rparr>, fc_len = len\<rparr>"

section \<open>Metadata\<close>

definition sample_inode :: "Ino \<Rightarrow> InodeMode \<Rightarrow> InodeAdditional option \<Rightarrow> Inode" where
  "sample_inode ino mode add =
     \<lparr>i_ino = ino, i_mode = mode, i_uid = 0, i_gid = 0, i_permissions = 0x1A4, i_additional = add\<rparr>"

definition sample_dir :: "(bytes \<times> Ino) list \<Rightarrow> InodeMode" where
  "sample_dir ents = Dir \<lparr>dl_look_below = False,
     dl_entries = map (\<lambda>(name, ino). \<lparr>de_ino = ino, de_name = name\<rparr>) ents\<rparr>"

definition sample_xattr :: Xattr where
  "sample_xattr = \<lparr>x_key = [117, 46, 107], x_val = [1, 2]\<rparr>"

definition sample_layers :: "Inode list list" where
  "sample_layers =
     [[sample_inode 1 (sample_dir [([97], 2), ([100], 3)]) None,
       new_whiteout 5],
      [sample_inode 1 (sample_dir [([97], 2), ([100], 3), ([111], 5)]) None,
       sample_inode 2 (File [sample_chunk 1 3, sample_chunk 0 2])
         (Some \<lparr>ia_xattrs = [sample_xattr], ia_symlink_target = None\<rparr>),
       sample_inode 3 (sample_dir [([108], 4)]) None,
       sample_inode 4 Lnk (Some \<lparr>ia_xattrs = [], ia_symlink_target = Some [47, 97]\<rparr>),
       sample_inode 5 (File []) None]]"

definition sample_rootfs :: Rootfs where
  "sample_rootfs =
     \<lparr>rf_metadatas = sample_layers, rf_fs_verity_data = [(pad32 sample_blob, pad32 sample_blob)],
      rf_manifest_version = PUZZLEFS_IMAGE_MANIFEST_VERSION\<rparr>"

definition empty_message :: capnp_rootfs where
  "empty_message = \<lparr>cp_metadatas = Null, cp_fs_verity_data = Null, cp_manifest_version = 0\<rparr>"

definition sample_message :: capnp_rootfs where
  "sample_message = (case Rootfs_fill_capnp sample_rootfs of Ok c \<Rightarrow> c | _ \<Rightarrow> empty_message)"

definition sample_pfs :: "unit PuzzleFS" where
  "sample_pfs =
     \<lparr>pfs_oci = sample_image, pfs_rootfs = sample_message, pfs_verity_data = None,
      pfs_manifest_verity = None\<rparr>"

definition sample_fuse :: "unit Fuse" where
  "sample_fuse = Fuse_new sample_pfs True (Some UnnamedPipe)"

lemmas sample_defs =
  sample_rootfs_def sample_layers_def sample_inode_def sample_dir_def sample_chunk_def

lemma sample_fill: "Rootfs_fill_capnp sample_rootfs = Ok sample_message"
proof -
  have "fits_Rootfs sample_rootfs"
    by (simp add: fits_Rootfs_def fits_Inode_def sample_defs new_whiteout_def)
  with Rootfs_fill_cases [of sample_rootfs] show ?thesis by (auto simp: sample_message_def)
qed

lemma sample_wf_Rootfs: "wf_Rootfs sample_rootfs"
  by (simp add: wf_Rootfs_def sample_defs wf_BlobRef_def wf_VerityData_def SHA256_BLOCK_SIZE_def btree_invar_def)

lemma sample_reader_layers: "reader_layers sample_message = Ok sample_layers"
  using Rootfs_roundtrip [OF sample_wf_Rootfs sample_fill]
  by (auto simp: Rootfs_from_capnp_def reader_layers_def sample_rootfs_def)

lemma sample_layers_wf: "list_all wf_layer sample_layers"
  by (simp add: sample_defs wf_layer_def)

lemma sample_wf_pfs: "wf_pfs sample_pfs"
  by (simp add: wf_pfs_def wf_reader_def sample_pfs_def sample_reader_layers sample_layers_wf)

lemma sample_view: "pfs_view sample_pfs = layers_view sample_layers"
  by (simp add: fun_eq_iff pfs_view_def reader_view_def sample_pfs_def sample_reader_layers)

lemma sample_view_cases:
  assumes "layers_view sample_layers ino = Some i"
  shows "(ino, i) \<in> {(1, sample_layers ! 0 ! 0), (2, sample_layers ! 1 ! 1), (3, sample_layers ! 1 ! 2),
    (4, sample_layers ! 1 ! 3)}"
  using assms
  by (auto simp: sample_layers_def sample_inode_def split: if_splits)

end
