(* ===== verification/Format_Properties.thy ===== *)
theory Format_Properties
  imports Sample_Image
begin

text \<open>
  Properties of the image format: the Cap'n Proto codec, the search for inodes in the metadata
  layers and the textual forms of digests.
\<close>

section \<open>Lemmas\<close>

text \<open>The search without any assumption on the order of the inodes.\<close>

definition searchable :: "capnp_inode_vector \<Rightarrow> bool" where
  "searchable v \<longleftrightarrow>
     (case get_ptr [] (cp_inodes v) of Ok cs \<Rightarrow> cs \<noteq> [] \<and> length cs < 2 ^ 32 | _ \<Rightarrow> True)"

lemma InodeVector_find_inode_safe:
  assumes "searchable v"
  shows "case InodeVector_find_inode v ino of
    Ok res \<Rightarrow> (case res of Some c \<Rightarrow> cp_ino c = ino | None \<Rightarrow> True) | Err e \<Rightarrow> True | Panic p \<Rightarrow> False"
proof (cases "get_ptr [] (cp_inodes v)")
  case (Ok cs)
  with assms have cs: "length cs - 1 < length cs" "length cs < 2 ^ 32" "1 \<le> length cs"
    by (auto simp: searchable_def Suc_le_eq)
  from find_inode_loop_sound [OF cs(1,2), of ino 0] Ok cs(3) show ?thesis
    by (auto simp: InodeVector_find_inode_def usub_def split: option.split)
qed (use get_ptr_not_panic [of "[]" "cp_inodes v"] in \<open>auto simp: InodeVector_find_inode_def\<close>)

lemma find_in_layers_safe:
  assumes "list_all searchable vs"
  shows "case find_in_layers vs ino of
    Ok i \<Rightarrow> i_ino i = ino \<and> i_mode i \<noteq> Wht | Err e \<Rightarrow> True | Panic p \<Rightarrow> False"
  using assms
proof (induction vs)
  case (Cons v vs)
  then have "searchable v" by simp
  note v = InodeVector_find_inode_safe [OF this, of ino]
  show ?case
  proof (cases "InodeVector_find_inode v ino")
    case (Ok found)
    show ?thesis
    proof (cases found)
      case None
      with Ok Cons show ?thesis by simp
    next
      case (Some c)
      with Ok v have "cp_ino c = ino" by simp
      then show ?thesis
        using Ok Some Inode_from_capnp_not_panic [of c] Inode_from_capnp_ino [of c]
        by (cases "Inode_from_capnp c") (auto split: InodeMode.split)
    qed
  qed (use v in simp_all)
qed simp

section \<open>Properties of the codec\<close>

text \<open>
  C12: Writing a rootfs as a message and reading it back gives the rootfs: the layers, the verity
  data and the version, through \<open>Rootfs::from_capnp\<close> and through the accessors of the reader.
\<close>

theorem rootfs_codec_roundtrip:
  assumes "wf_Rootfs r" and "Rootfs_fill_capnp r = Ok c"
  shows "Rootfs_from_capnp c = Ok r \<and> reader_layers c = Ok (rf_metadatas r) \<and>
    RootfsReader_get_verity_data c = Ok (rf_fs_verity_data r) \<and>
    RootfsReader_get_manifest_version c = Ok (rf_manifest_version r)"
  using Rootfs_roundtrip [OF assms]
  by (auto simp: Rootfs_from_capnp_def reader_layers_def RootfsReader_get_verity_data_def
      RootfsReader_get_manifest_version_def)

theorem rootfs_codec_roundtrip_witness:
  "Rootfs_from_capnp sample_message = Ok sample_rootfs \<and>
   RootfsReader_get_verity_data sample_message = Ok (rf_fs_verity_data sample_rootfs)"
  using rootfs_codec_roundtrip [OF sample_wf_Rootfs sample_fill] by simp

text \<open>
  Writing a rootfs succeeds exactly when every list in it has fewer than \<open>2 ^ 32\<close> elements; a
  longer list is reported as an integer conversion error and never panics.
\<close>

lemma rootfs_fill_total:
  "if fits_Rootfs r then \<exists>c. Rootfs_fill_capnp r = Ok c else Rootfs_fill_capnp r = Err FromIntError"
  by (rule Rootfs_fill_cases)

text \<open>
  C27: Reading an arbitrary message, however malformed its pointers, lengths and union tags are, never
  panics, and what it accepts is a well-formed rootfs: every digest has 32 bytes and the verity map
  is sorted without duplicates.
\<close>

theorem rootfs_decode_safe:
  "case Rootfs_from_capnp c of Ok r \<Rightarrow> wf_Rootfs r | Err e \<Rightarrow> True | Panic p \<Rightarrow> False"
  using Rootfs_from_capnp_not_panic [of c] Rootfs_from_capnp_wf [of c]
  by (cases "Rootfs_from_capnp c") auto

section \<open>Properties of the inode index\<close>

text \<open>
  C3: On layers that are non-empty and sorted by inode number, the layered binary search is the
  metadata stack: the topmost layer with the number decides, a whiteout hides it, and a number that
  is nowhere is \<open>ENOENT\<close>.
\<close>

theorem find_inode_refines_layers:
  assumes "wf_reader r"
  shows "RootfsReader_find_inode r ino = ok_or (reader_view r ino) (from_errno ENOENT)"
  using assms by (rule reader.find_view)

theorem find_inode_refines_layers_witness:
  "RootfsReader_find_inode sample_message 3 = Ok (sample_layers ! 1 ! 2) \<and>
   RootfsReader_find_inode sample_message 5 = Err (from_errno ENOENT)"
proof -
  have "wf_reader sample_message" using sample_wf_pfs by (simp add: wf_pfs_def sample_pfs_def)
  note this [THEN find_inode_refines_layers]
  then show ?thesis
    by (simp add: reader_view_def sample_reader_layers sample_layers_def sample_inode_def sample_dir_def
        new_whiteout_def)
qed

text \<open>
  C26: On layers in any order, as long as each has at least one and fewer than \<open>2 ^ 32\<close> inodes, the
  search neither overflows nor reads out of bounds, and an inode it returns has the wanted number
  and is not a whiteout.
\<close>

theorem find_inode_memory_safe:
  assumes "get_ptr [] (cp_metadatas r) = Ok vs" and "list_all searchable vs"
  shows "case RootfsReader_find_inode r ino of
    Ok i \<Rightarrow> i_ino i = ino \<and> i_mode i \<noteq> Wht | Err e \<Rightarrow> True | Panic p \<Rightarrow> False"
  using assms find_in_layers_safe [of vs ino] by (simp add: RootfsReader_find_inode_def)

definition unsorted_message :: capnp_rootfs where
  "unsorted_message =
     (let node = (\<lambda>n. \<lparr>cp_ino = n, cp_mode = MFifo, cp_uid = 0, cp_gid = 0, cp_permissions = 0,
        cp_additional = Null\<rparr>)
      in \<lparr>cp_metadatas = Ptr [\<lparr>cp_inodes = Ptr [node 7, node 2, node 9]\<rparr>],
          cp_fs_verity_data = Null, cp_manifest_version = 3\<rparr>)"

theorem find_inode_memory_safe_witness:
  "case RootfsReader_find_inode unsorted_message 2 of
    Ok i \<Rightarrow> i_ino i = 2 \<and> i_mode i \<noteq> Wht | Err e \<Rightarrow> True | Panic p \<Rightarrow> False"
  by (rule find_inode_memory_safe [OF _, where vs = "case cp_metadatas unsorted_message of Ptr vs \<Rightarrow> vs | _ \<Rightarrow> []"])
    (simp_all add: unsorted_message_def searchable_def Let_def)

text \<open>
  C37: A message whose topmost layer has no inodes makes the reader panic: \<open>inodes.len() - 1\<close>
  underflows before the loop that guards against underflow.
\<close>

theorem empty_layer_panics:
  assumes "get_ptr [] (cp_metadatas r) = Ok (v # vs)" and "get_ptr [] (cp_inodes v) = Ok []"
  shows "RootfsReader_find_inode r ino = Panic ArithOverflow \<and>
    RootfsReader_max_inode r = Panic ArithOverflow"
  using assms
  by (simp add: RootfsReader_find_inode_def RootfsReader_max_inode_def InodeVector_find_inode_def
      InodeVector_max_ino_def usub_def)

theorem empty_layer_panics_witness:
  "RootfsReader_find_inode (empty_message\<lparr>cp_metadatas := Ptr [\<lparr>cp_inodes = Null\<rparr>]\<rparr>) 1 =
     Panic ArithOverflow"
  using empty_layer_panics [of "empty_message\<lparr>cp_metadatas := Ptr [\<lparr>cp_inodes = Null\<rparr>]\<rparr>"
      "\<lparr>cp_inodes = Null\<rparr>" "[]" 1] by simp

text \<open>
  \<open>max_inode\<close> is the largest number used in any layer (at least 1, the root), so that every larger
  number is free in the image: the builder numbers the inodes of a new layer from there.
\<close>

lemma max_inode_is_fresh:
  assumes "wf_reader r" and "reader_layers r = Ok layers"
  shows "RootfsReader_max_inode r = Ok (Max (insert 1 (i_ino ` set (concat layers)))) \<and>
    (\<forall>ino > Max (insert 1 (i_ino ` set (concat layers))). reader_view r ino = None)"
proof
  show "RootfsReader_max_inode r = Ok (Max (insert 1 (i_ino ` set (concat layers))))"
    using assms by (rule max_inode_Max)
  show "\<forall>ino > Max (insert 1 (i_ino ` set (concat layers))). reader_view r ino = None"
  proof (intro allI impI)
    fix ino
    assume gt: "Max (insert 1 (i_ino ` set (concat layers))) < ino"
    have False if "layers_view layers ino = Some i" for i
    proof -
      have "ino \<in> i_ino ` set (concat layers)"
        using layers_view_mem [OF that] layers_view_ino [OF that] by blast
      then have "ino \<le> Max (insert 1 (i_ino ` set (concat layers)))" by (intro Max_ge) auto
      with gt show False by (rule less_le_not_le [THEN iffD1, THEN conjunct2, THEN notE])
    qed
    then show "reader_view r ino = None"
      using assms(2) by (cases "layers_view layers ino") (auto simp: reader_view_def)
  qed
qed

lemma max_inode_is_fresh_sample:
  "RootfsReader_max_inode sample_message = Ok 5 \<and> reader_view sample_message 6 = None"
proof -
  have wf: "wf_reader sample_message" using sample_wf_pfs by (simp add: wf_pfs_def sample_pfs_def)
  have M: "Max (insert 1 (i_ino ` set (concat sample_layers))) = 5"
    by (simp add: sample_layers_def sample_inode_def new_whiteout_def)
  show ?thesis using max_inode_is_fresh [OF wf sample_reader_layers] unfolding M by simp
qed

section \<open>Properties of digests\<close>

lemma split_on_append_last:
  "split_on sep xs = [a, b] \<longleftrightarrow> xs = a @ sep # b \<and> sep \<notin> set a \<and> sep \<notin> set b"
proof
  assume "split_on sep xs = [a, b]"
  then show "xs = a @ sep # b \<and> sep \<notin> set a \<and> sep \<notin> set b"
  proof (induction xs arbitrary: a)
    case (Cons x xs)
    have single: "split_on sep ys = [b] \<Longrightarrow> ys = b \<and> sep \<notin> set b" for ys
      by (induction ys arbitrary: b) (auto simp: split_on_nonempty split: if_splits list.splits)
    from Cons show ?case by (auto dest: single split: if_splits list.splits)
  qed simp
qed (simp add: split_on_one split_on_no_sep)

text \<open>
  The deserializer accepts a digest exactly when the string is \<open>sha256:\<close> followed by hexadecimal
  digits that decode to 32 bytes, and then yields these bytes.
\<close>

lemma digest_visit_str_iff:
  "DigestVisitor_visit_str hx s = Ok (Digest d) \<longleftrightarrow>
     (\<exists>h. s = ''sha256:'' @ h \<and> CHR '':'' \<notin> set h \<and> hex_decode hx h = Some d \<and> length d = SHA256_BLOCK_SIZE)"
proof -
  have two: "length parts = 2 \<longleftrightarrow> parts = [parts ! 0, parts ! 1]" for parts :: "string list"
    by (cases parts rule: list.exhaust [of _ "length parts = 2 \<longleftrightarrow> parts = [parts ! 0, parts ! 1]"])
      (auto simp: length_Suc_conv numeral_2_eq_2)
  have "DigestVisitor_visit_str hx s = Ok (Digest d) \<longleftrightarrow>
      (\<exists>h. split_on CHR '':'' s = [''sha256'', h] \<and> hex_decode hx h = Some d \<and> length d = SHA256_BLOCK_SIZE)"
    using two [of "split_on CHR '':'' s"]
    by (auto simp: DigestVisitor_visit_str_def Let_def)
  also have "\<dots> \<longleftrightarrow> (\<exists>h. s = ''sha256:'' @ h \<and> CHR '':'' \<notin> set h \<and> hex_decode hx h = Some d \<and>
      length d = SHA256_BLOCK_SIZE)"
    by (auto simp: split_on_append_last)
  finally show ?thesis .
qed

text \<open>
  Both textual forms of a digest parse back to it: the serialized \<open>sha256:<hex>\<close> and the plain
  hexadecimal form that names blobs.
\<close>

lemma digest_text_roundtrip:
  assumes "hex_lawful hx" and "length d = SHA256_BLOCK_SIZE"
  shows "DigestVisitor_visit_str hx (Digest_serialize hx (Digest d)) = Ok (Digest d) \<and>
    Digest_try_from_str hx (Digest_to_string hx (Digest d)) = Ok (Digest d)"
proof
  have "split_on CHR '':'' (''sha256'' @ CHR '':'' # hex_encode hx d) = [''sha256'', hex_encode hx d]"
    using assms(1) by (subst split_on_one) (auto simp: split_on_no_sep hex_lawful_def)
  then show "DigestVisitor_visit_str hx (Digest_serialize hx (Digest d)) = Ok (Digest d)"
    using assms by (simp add: DigestVisitor_visit_str_def Digest_serialize_def hex_lawful_def
        del: split_on.simps)
  show "Digest_try_from_str hx (Digest_to_string hx (Digest d)) = Ok (Digest d)"
    using assms by (simp add: Digest_try_from_str_def Digest_to_string_def decode_to_slice_encode)
qed

lemma digest_text_roundtrip_sample:
  "Digest_try_from_str base16 (Digest_to_string base16 (Digest (pad32 [1, 2]))) = Ok (Digest (pad32 [1, 2]))"
  using digest_text_roundtrip [OF base16_lawful, of "pad32 [1, 2]"] by (simp add: SHA256_BLOCK_SIZE_def)

end
