(* ===== verification/Store_Properties.thy ===== *)
theory Store_Properties
  imports Sample_Image
begin

text \<open>
  Properties of the image store: the two decompressors, writing and reading blobs, fs-verity.
\<close>

section \<open>Decompressors\<close>

text \<open>
  C28: A zstd stream and the plain file with its contents, at the same position, agree wherever a seek leads into
  the contents: seeking from the start, from the end or from the current position to a place between the
  start and the end of the data gives the same position on both, every read there returns the same bytes and
  leaves both at the same position again, and both report the same length. Outside they differ, and this is
  how: past the end the file reads as empty, while the zstd stream refuses a seek from the end and panics on
  the first read after the other seeks; before the start the file reports \<open>EINVAL\<close> and the zstd
  stream panics.
\<close>

theorem zstd_reads_like_noop:
  assumes "Zstd_valid z" and "Noop_valid p" and "fh_data (nd_decoder p) = Zstd_contents z"
    and "zd_offset z = fh_pos (nd_decoder p)" and "zd_offset z \<le> length (Zstd_contents z)"
    and "t = seek_target (length (Zstd_contents z)) (zd_offset z) whence" and "t < 2 ^ 63"
  shows "Zstd_get_uncompressed_length z = Noop_get_uncompressed_length p \<and>
    (0 \<le> t \<and> t \<le> int (length (Zstd_contents z)) \<longrightarrow>
       (\<exists>z' p'. Zstd_seek z whence = Ok (nat t, z') \<and> Noop_seek p whence = Ok (nat t, p') \<and>
          (\<forall>n. \<exists>z'' p''. Zstd_read z' n = Ok (take n (drop (nat t) (Zstd_contents z)), z'') \<and>
             Noop_read p' n = Ok (take n (drop (nat t) (Zstd_contents z)), p'') \<and>
             zd_offset z'' = fh_pos (nd_decoder p'')))) \<and>
    (int (length (Zstd_contents z)) < t \<longrightarrow>
       (\<exists>p'. Noop_seek p whence = Ok (nat t, p') \<and> (\<forall>n. Noop_read p' n = Ok ([], p'))) \<and>
       (case whence of End e \<Rightarrow> Zstd_seek z whence = Err (CustomError OtherKind)
        | _ \<Rightarrow> \<exists>z'. Zstd_seek z whence = Ok (nat t, z') \<and> (\<forall>n. Zstd_read z' n = Panic ArithOverflow))) \<and>
    (t < 0 \<longrightarrow> Noop_seek p whence = Err (OsError (errno_code EINVAL)) \<and> Zstd_seek z whence = Panic ArithOverflow)"
proof (intro conjI impI)
  let ?len = "length (Zstd_contents z)"
  show "Zstd_get_uncompressed_length z = Noop_get_uncompressed_length p"
    using zstd.uncompressed_length [OF assms(1)] noop.uncompressed_length [OF assms(2)] assms(3) by simp
  show "\<exists>z' p'. Zstd_seek z whence = Ok (nat t, z') \<and> Noop_seek p whence = Ok (nat t, p') \<and>
      (\<forall>n. \<exists>z'' p''. Zstd_read z' n = Ok (take n (drop (nat t) (Zstd_contents z)), z'') \<and>
         Noop_read p' n = Ok (take n (drop (nat t) (Zstd_contents z)), p'') \<and> zd_offset z'' = fh_pos (nd_decoder p''))"
    if "0 \<le> t \<and> t \<le> int ?len"
  proof -
    from that have t: "nat t \<le> ?len" by linarith
    have target: "seek_target ?len (zd_offset z) whence = int (nat t)" using that assms(6) by simp
    from zstd.seek_read [OF assms(1,5) t target] obtain z' where z': "Zstd_seek z whence = Ok (nat t, z')"
      "\<And>n. \<exists>z''. Zstd_read z' n = Ok (take n (drop (nat t) (Zstd_contents z)), z'') \<and> zd_offset z'' = min (nat t + n) ?len" by blast
    from noop.seek_read [OF assms(2), unfolded assms(3), folded assms(4), OF assms(5) t target] obtain p' where
      p': "Noop_seek p whence = Ok (nat t, p')" "\<And>n. \<exists>p''. Noop_read p' n = Ok (take n (drop (nat t) (Zstd_contents z)), p'') \<and>
        fh_pos (nd_decoder p'') = min (nat t + n) ?len" by blast
    from z' p' show ?thesis by metis
  qed
  show "\<exists>p'. Noop_seek p whence = Ok (nat t, p') \<and> (\<forall>n. Noop_read p' n = Ok ([], p'))" if "int ?len < t"
    using that assms(3,4,6,7) by (cases whence) (auto simp: Noop_seek_def Noop_read_def file_seek_to_def file_read_into_def)
  show "case whence of End e \<Rightarrow> Zstd_seek z whence = Err (CustomError OtherKind)
      | _ \<Rightarrow> \<exists>z'. Zstd_seek z whence = Ok (nat t, z') \<and> (\<forall>n. Zstd_read z' n = Panic ArithOverflow)" if "int ?len < t"
    using that assms(1,5-7) by (cases whence) (auto simp: Zstd_read_def Zstd_valid_def usub_def uadd_def nat_add_distrib)
  show "Noop_seek p whence = Err (OsError (errno_code EINVAL))" if "t < 0"
    using that assms(3,4,6) by (cases whence) (auto simp: Noop_seek_def file_seek_to_def)
  show "Zstd_seek z whence = Panic ArithOverflow" if "t < 0"
    using that assms(1,6) by (cases whence) (auto simp: neg_i64_def Zstd_valid_def usub_def)
qed

definition sample_zstd_blob :: ZstdDecompressor where
  "sample_zstd_blob = \<lparr>zd_stream = seekable_on [1, 2, 3], zd_offset = 1, zd_uncompressed_length = 3\<rparr>"

definition sample_noop_blob :: NoopDecompressor where
  "sample_noop_blob = \<lparr>nd_decoder = \<lparr>fh_data = [1, 2, 3], fh_pos = 1\<rparr>\<rparr>"

theorem zstd_reads_like_noop_witness:
  "\<exists>z' z'' p' p''. Zstd_seek sample_zstd_blob (Current 1) = Ok (2, z') \<and> Noop_seek sample_noop_blob (Current 1) = Ok (2, p') \<and>
    Zstd_read z' 5 = Ok ([3], z'') \<and> Noop_read p' 5 = Ok ([3], p'') \<and>
    (\<exists>y. Zstd_seek sample_zstd_blob (Current 4) = Ok (5, y) \<and> Zstd_read y 1 = Panic ArithOverflow) \<and>
    (\<exists>q. Noop_seek sample_noop_blob (Current 4) = Ok (5, q) \<and> Noop_read q 1 = Ok ([], q))"
proof -
  have c: "Zstd_contents sample_zstd_blob = [1, 2, 3]"
    by (simp add: Zstd_contents_def sample_zstd_blob_def seekable_on_def)
  have v: "Zstd_valid sample_zstd_blob"
    using seekable_on_of [of "[1, 2, 3]"] c by (simp add: Zstd_valid_def) (simp add: sample_zstd_blob_def)
  have s: "Noop_valid sample_noop_blob" "fh_data (nd_decoder sample_noop_blob) = Zstd_contents sample_zstd_blob"
    "zd_offset sample_zstd_blob = fh_pos (nd_decoder sample_noop_blob)" "zd_offset sample_zstd_blob = 1"
    unfolding c by (simp_all add: sample_noop_blob_def sample_zstd_blob_def Noop_valid_def)
  have "\<exists>z' p'. Zstd_seek sample_zstd_blob (Current 1) = Ok (2, z') \<and> Noop_seek sample_noop_blob (Current 1) = Ok (2, p') \<and>
      (\<forall>n. \<exists>z'' p''. Zstd_read z' n = Ok (take n [3], z'') \<and> Noop_read p' n = Ok (take n [3], p'') \<and>
        zd_offset z'' = fh_pos (nd_decoder p''))"
    using zstd_reads_like_noop [OF v s(1-3), of 2 "Current 1"] s(4) c by (simp del: Zstd_seek.simps)
  then obtain z' p' where in2: "Zstd_seek sample_zstd_blob (Current 1) = Ok (2, z')"
    "Noop_seek sample_noop_blob (Current 1) = Ok (2, p')"
    "\<forall>n. \<exists>z'' p''. Zstd_read z' n = Ok (take n [3], z'') \<and> Noop_read p' n = Ok (take n [3], p'')" by blast
  from in2(3) [rule_format, of 5] obtain z'' p'' where rd: "Zstd_read z' 5 = Ok ([3], z'')" "Noop_read p' 5 = Ok ([3], p'')" by auto
  from zstd_reads_like_noop [OF v s(1-3), of 5 "Current 4"]
  have past: "\<exists>y. Zstd_seek sample_zstd_blob (Current 4) = Ok (5, y) \<and> (\<forall>n. Zstd_read y n = Panic ArithOverflow)"
    "\<exists>q. Noop_seek sample_noop_blob (Current 4) = Ok (5, q) \<and> (\<forall>n. Noop_read q n = Ok ([], q))" using s(4) c by auto
  with in2(1,2) rd show ?thesis by blast
qed

section \<open>Writing and reading blobs\<close>

text \<open>
  C2: A chunk that was written with \<open>put_blob\<close> reads back: for every offset into it and every buffer
  size, \<open>fill_from_chunk\<close> on the reference the builder records (digest of the descriptor and the
  compressed flag) returns the slice of the written bytes, with or without zstd and also when
  compression is skipped because it does not pay off.
\<close>

theorem put_blob_fill_roundtrip:
  assumes "put_blob env C im buf m mt = Ok ((desc, verity, compressed), im', m')"
    and "env_lawful env" and "C = Noop \<or> (\<exists>zc. C = Zstd zc \<and> zstd_lawful env zc)"
    and "length buf < 2 ^ 63"
    and "\<And>z. c_compress C buf = Ok z \<Longrightarrow> collision_free env im (stored_data C buf z)"
    and "Digest_try_from_str (env_hex env) (d_digest desc) = Ok (Digest dg)"
    and "unat off + k \<le> length buf"
  shows "fill_from_chunk env im' None \<lparr>br_digest = dg, br_offset = off, br_compressed = compressed\<rparr> k n =
    Ok (take n (drop (unat off + k) buf))"
  using fill_from_chunk_slice [OF put_blob_contents [OF assms(1-6), of off], of k n] assms(7) by simp

definition plain_manifest :: ImageManifest where
  "plain_manifest =
     \<lparr>m_config = \<lparr>d_media_type = ''config'', d_size = 0, d_digest = ''0'', d_annotations = None\<rparr>,
      m_layers = []\<rparr>"

definition store_env :: "unit env" where
  "store_env = sample_env empty_message plain_manifest"

definition empty_image :: "unit Image" where
  "empty_image = \<lparr>im_blobs = (\<lambda>name. None), im_oci = ()\<rparr>"

lemma store_env_simps [simp]:
  "env_hex store_env = base16" "env_sha256 store_env = pad32" "env_fs_verity_sha256 store_env = pad32"
  "env_digest_from_str store_env str = Ok (drop 7 str)" "env_write_error store_env name data = None" "env_reopen_error store_env name = None"
  "env_fsverity_measure store_env f = Ok (pad32 (bf_data f))"
  by (simp_all add: store_env_def sample_env_def)

lemma store_env_laws: "env_lawful store_env" "zstd_lawful store_env sample_zstd"
  by (simp_all add: store_env_def sample_env_lawful sample_zstd_lawful)

lemma base16_pad32: "Digest_try_from_str base16 (base16_encode (pad32 xs)) = Ok (Digest (pad32 xs))"
  using decode_to_slice_encode [OF base16_lawful, of "pad32 xs"]
  by (simp add: Digest_try_from_str_def SHA256_BLOCK_SIZE_def base16_def)

lemma put_blob_sample:
  assumes "sample_zstd buf = Ok z"
  defines "stored \<equiv> stored_data (Zstd sample_zstd) buf z"
  shows "\<exists>desc m'. put_blob store_env (Zstd sample_zstd) empty_image buf plain_manifest ChunkMedia =
      Ok ((desc, pad32 z, length z < length buf),
        \<lparr>im_blobs = [base16_encode (pad32 stored) \<mapsto> \<lparr>bf_data = stored, bf_verity = False\<rparr>], im_oci = ()\<rparr>, m') \<and>
    d_digest desc = base16_encode (pad32 stored)"
  using assms
  by (simp add: put_blob_def Zstd_def Let_def get_fs_verity_digest_def store_blob_def empty_image_def
      stored_data_def base16_def not_le)

theorem put_blob_fill_roundtrip_witness:
  "\<exists>desc verity im' m' dg.
     put_blob store_env (Zstd sample_zstd) empty_image (replicate 8 7) plain_manifest ChunkMedia =
       Ok ((desc, verity, True), im', m') \<and>
     fill_from_chunk store_env im' None \<lparr>br_digest = dg, br_offset = 1, br_compressed = True\<rparr> 2 3 =
       Ok [7, 7, 7]"
proof -
  have z: "sample_zstd (replicate 8 7) = Ok [0]" by (simp add: sample_zstd_def)
  then have st: "stored_data (Zstd sample_zstd) (replicate 8 7) [0] = [0]"
    by (simp add: stored_data_def Zstd_def)
  from put_blob_sample [OF z] obtain desc m' im' where
    put: "put_blob store_env (Zstd sample_zstd) empty_image (replicate 8 7) plain_manifest ChunkMedia =
      Ok ((desc, pad32 [0], True), im', m')" "d_digest desc = base16_encode (pad32 [0])"
    unfolding st by auto
  have "fill_from_chunk store_env im' None
      \<lparr>br_digest = pad32 [0], br_offset = 1, br_compressed = True\<rparr> 2 3 =
      Ok (take 3 (drop (unat (1 :: u64) + 2) (replicate 8 7)))"
    by (rule put_blob_fill_roundtrip [OF put(1)])
      (auto simp: store_env_laws put(2) base16_pad32 collision_free_def empty_image_def)
  with put(1) show ?thesis by (auto simp: numeral_eq_Suc)
qed

text \<open>
  C29: The zstd compressor does what \<open>put_blob\<close> relies on: feeding the buffer piece by piece and calling \<open>end_stream\<close>
  until nothing comes out ends for every input, never panics, and when it succeeds the bytes written open
  as a seekable stream of the input. This is for every compression stream that behaves as documented.
\<close>

theorem zstd_compressor_lawful:
  assumes "cstream_lawful (env_seekable_init env) ops new_cstream"
  shows "\<exists>zc. (\<forall>data. Zstd_compress_all ops new_cstream data = Some (zc data)) \<and>
    (\<forall>data p. zc data \<noteq> Panic p) \<and> zstd_lawful env zc"
proof -
  from Zstd_compress_all_returns [OF assms] have "\<forall>data. \<exists>r. Zstd_compress_all ops new_cstream data = Some r \<and> (\<forall>p. r \<noteq> Panic p) \<and>
    (\<forall>out. r = Ok out \<longrightarrow> (\<exists>s. env_seekable_init env \<lparr>fh_data = out, fh_pos = 0\<rparr> = Ok s \<and> seekable_of s data))" by blast
  from choice [OF this] show ?thesis unfolding zstd_lawful_def by blast
qed

theorem zstd_compressor_lawful_witness:
  "\<exists>zc. zstd_lawful store_env zc \<and> zc [1, 2, 3, 4, 5] = Ok [1, 1, 2, 3, 4, 5] \<and> zc (replicate 8 7) = Ok [0] \<and>
    (\<forall>data. Zstd_compress_all sample_cstream (\<lambda>level frame_size. Ok ([], False)) data = Some (zc data))"
proof -
  from zstd_compressor_lawful [of store_env sample_cstream "\<lambda>level frame_size. Ok ([], False)"] sample_cstream_lawful
  obtain zc where zc: "\<forall>data. Zstd_compress_all sample_cstream (\<lambda>level frame_size. Ok ([], False)) data = Some (zc data)"
    "zstd_lawful store_env zc" by (auto simp: store_env_def)
  note run = Zstd_compress_all_def Zstd_compress_def Zstd_write_all.simps Zstd_write_def Zstd_end.simps sample_cstream_def sample_zstd_def
  have "Zstd_compress_all sample_cstream (\<lambda>level frame_size. Ok ([], False)) [1, 2, 3, 4, 5] = Some (Ok [1, 1, 2, 3, 4, 5])"
    "Zstd_compress_all sample_cstream (\<lambda>level frame_size. Ok ([], False)) (replicate 8 7) = Some (Ok [0])"
    by (simp_all add: run numeral_eq_Suc)
  with zc show ?thesis by auto
qed

text \<open>
  C24: The store only grows and stays content-addressed: \<open>put_blob\<close> keeps every existing blob as it
  is, every blob stays under the hexadecimal SHA-256 of its bytes, the returned descriptor names the
  blob, and the manifest gains exactly this descriptor, a rootfs in front and a chunk at the end.
\<close>

theorem put_blob_content_addressed:
  assumes "put_blob env C im buf m mt = Ok ((desc, verity, compressed), im', m')" and "env_lawful env"
    and "content_addressed env im"
  shows "content_addressed env im' \<and> im_blobs im \<subseteq>\<^sub>m im_blobs im' \<and> d_digest desc \<in> dom (im_blobs im') \<and>
    m_layers m' = (if mt = RootfsMedia then desc # m_layers m else m_layers m @ [desc])"
proof -
  from assms(1,2) obtain z where z:
    "d_digest desc = hex_encode (env_hex env) (env_sha256 env (stored_data C buf z))"
    "store_blob env im (d_digest desc) (env_sha256 env (stored_data C buf z)) (stored_data C buf z) = Ok im'"
    "m' = m\<lparr>m_layers := (if mt = RootfsMedia then desc # m_layers m else m_layers m @ [desc])\<rparr>"
    by (rule put_blobE)
  have "content_addressed env im'"
    using store_blob_content_addressed [OF z(2) [unfolded z(1)] assms(3)] .
  moreover have "im_blobs im \<subseteq>\<^sub>m im_blobs im'"
    using store_blob_mono [OF z(2)] by (auto simp: map_le_def dom_def)
  moreover have "d_digest desc \<in> dom (im_blobs im')"
    using z(2) by (auto simp: store_blob_def split: option.splits if_splits)
  ultimately show ?thesis using z(3) by simp
qed

theorem put_blob_content_addressed_witness:
  "\<exists>desc verity compressed im' m'.
     put_blob store_env (Zstd sample_zstd) empty_image [1, 2] plain_manifest ChunkMedia =
       Ok ((desc, verity, compressed), im', m') \<and> content_addressed store_env im' \<and> m_layers m' = [desc]"
proof -
  have "sample_zstd [1, 2] = Ok [1, 1, 2]" by (simp add: sample_zstd_def numeral_eq_Suc)
  from put_blob_sample [OF this] obtain desc m' im' where
    put: "put_blob store_env (Zstd sample_zstd) empty_image [1, 2] plain_manifest ChunkMedia =
      Ok ((desc, pad32 [1, 1, 2], False), im', m')" by auto
  from put_blob_content_addressed [OF put store_env_laws(1)] put show ?thesis
    by (auto simp: content_addressed_def empty_image_def plain_manifest_def)
qed

section \<open>fs-verity\<close>

text \<open>
  The documented behaviour of fs-verity: measuring a file on which it is enabled gives the digest of
  its bytes, which has 32 bytes.
\<close>

definition verity_lawful :: "'o env \<Rightarrow> bool" where
  "verity_lawful env \<longleftrightarrow>
     (\<forall>f. bf_verity f \<longrightarrow> env_fsverity_measure env f = Ok (env_fs_verity_sha256 env (bf_data f))) \<and>
     (\<forall>data. length (env_fs_verity_sha256 env data) = SHA256_BLOCK_SIZE)"

lemma store_env_verity: "verity_lawful store_env"
  by (simp add: verity_lawful_def SHA256_BLOCK_SIZE_def)

lemma check_fs_verity_Ok_iff:
  "check_fs_verity env f v = Ok u \<longleftrightarrow> length v = SHA256_BLOCK_SIZE \<and> env_fsverity_measure env f = Ok v"
  by (auto simp: check_fs_verity_def)

lemma open_raw_blob_verified:
  "open_raw_blob env im name (Some v) = Ok f \<longleftrightarrow>
     im_blobs im name = Some f \<and> length v = SHA256_BLOCK_SIZE \<and> env_fsverity_measure env f = Ok v"
  by (auto simp: open_raw_blob_def check_fs_verity_Ok_iff split: option.splits)

text \<open>
  C18: With verity data in use, \<open>fill_from_chunk\<close> returns bytes only from a blob whose measured
  fs-verity digest is the one recorded for the chunk's digest; a chunk without a record is refused.
\<close>

theorem fill_from_chunk_verified:
  assumes "fill_from_chunk env im (Some vd) chunk k n = Ok out"
  shows "\<exists>f v. im_blobs im (hex_encode (env_hex env) (br_digest chunk)) = Some f \<and>
    btree_get vd (br_digest chunk) = Some v \<and> env_fsverity_measure env f = Ok v"
  using assms
  by (fastforce simp: fill_from_chunk_def Digest_try_from_BlobRef_def file_verity_of_def underlying_def
      open_compressed_blob_Noop_def open_compressed_blob_Zstd_def Digest_to_string_def
      open_raw_blob_verified split: if_splits)

definition verity_image :: "unit Image" where
  "verity_image =
     \<lparr>im_blobs = [base16_encode (pad32 [5]) \<mapsto> \<lparr>bf_data = [5], bf_verity = True\<rparr>], im_oci = ()\<rparr>"

theorem fill_from_chunk_verified_witness:
  "\<exists>f v. im_blobs verity_image (base16_encode (pad32 [5])) = Some f \<and>
    btree_get [(pad32 [5], pad32 [5])] (pad32 [5]) = Some v \<and> env_fsverity_measure store_env f = Ok v"
proof -
  let ?chunk = "\<lparr>br_digest = pad32 [5], br_offset = 0, br_compressed = False\<rparr>"
  have "blob_contents store_env verity_image (Some [(pad32 [5], pad32 [5])]) ?chunk = Some [5]"
    by (simp add: blob_contents_def file_verity_of_def underlying_def verity_image_def open_raw_blob_def
        btree_get_def check_fs_verity_def SHA256_BLOCK_SIZE_def base16_def file_contents_def)
  from fill_from_chunk_slice [OF this, of 0 1]
  have "fill_from_chunk store_env verity_image (Some [(pad32 [5], pad32 [5])]) ?chunk 0 1 = Ok [5]" by simp
  from fill_from_chunk_verified [OF this] show ?thesis by (simp add: base16_def)
qed

text \<open>
  C17: When the manifest's digest is given, a rootfs is only opened if the manifest file measures to
  that digest and the rootfs blob measures to the root hash in the manifest's annotation; what is
  returned is the message in that blob.
\<close>

theorem open_rootfs_blob_verified:
  assumes "open_rootfs_blob env im tag (Some v) = Ok r"
  shows "\<exists>mfd mf mfile desc ann h rv rfile.
    env_find_manifest_descriptor_with_tag env im tag = Ok (Some mfd) \<and>
    im_blobs im (d_digest mfd) = Some mfile \<and> env_fsverity_measure env mfile = Ok v \<and>
    find_manifest env im tag = Ok mf \<and> find_rootfs_desc mf = Ok desc \<and>
    d_annotations desc = Some ann \<and> ann VERITY_ROOT_HASH_ANNOTATION = Some h \<and>
    decode_to_slice (env_hex env) h = Ok rv \<and>
    im_blobs im (d_digest desc) = Some rfile \<and> env_fsverity_measure env rfile = Ok rv \<and>
    env_read_message env (bf_data rfile) = Ok r"
proof -
  from assms obtain mfile rv rfile where mfile: "get_image_manifest_fd env im tag = Ok mfile"
    and v: "check_fs_verity env mfile v = Ok ()" and rv: "get_pfs_rootfs_verity env im tag = Ok rv"
    and rfile: "get_pfs_rootfs env im tag (Some rv) = Ok rfile" and r: "RootfsReader_open env rfile = Ok r"
    by (auto simp: open_rootfs_blob_def)
  from mfile obtain mfd where "env_find_manifest_descriptor_with_tag env im tag = Ok (Some mfd)"
    "im_blobs im (d_digest mfd) = Some mfile"
    by (auto simp: get_image_manifest_fd_def open_raw_blob_def split: option.splits)
  moreover from rv obtain mf desc ann h where "find_manifest env im tag = Ok mf"
    "find_rootfs_desc mf = Ok desc" "d_annotations desc = Some ann"
    "ann VERITY_ROOT_HASH_ANNOTATION = Some h" "decode_to_slice (env_hex env) h = Ok rv"
    by (auto simp: get_pfs_rootfs_verity_def)
  moreover from this rfile have "im_blobs im (d_digest desc) = Some rfile" "env_fsverity_measure env rfile = Ok rv"
    by (auto simp: get_pfs_rootfs_def open_raw_blob_verified)
  moreover from v have "env_fsverity_measure env mfile = Ok v" by (simp add: check_fs_verity_Ok_iff)
  ultimately show ?thesis using r by (auto simp: RootfsReader_open_def)
qed

definition rootfs_desc :: Descriptor where
  "rootfs_desc =
     \<lparr>d_media_type = PUZZLEFS_ROOTFS, d_size = 1, d_digest = base16_encode (pad32 [5]),
      d_annotations = Some [VERITY_ROOT_HASH_ANNOTATION \<mapsto> base16_encode (pad32 [5])]\<rparr>"

definition verity_env :: "unit env" where
  "verity_env =
     (sample_env sample_message (plain_manifest\<lparr>m_layers := [rootfs_desc]\<rparr>))
       \<lparr>env_find_manifest_descriptor_with_tag := \<lambda>im tag. Ok (Some rootfs_desc)\<rparr>"

lemma verity_env_opens: "open_rootfs_blob verity_env verity_image ''t'' (Some (pad32 [5])) = Ok sample_message"
  using decode_to_slice_encode [OF base16_lawful, of "pad32 [5]"]
  by (simp add: open_rootfs_blob_def get_image_manifest_fd_def get_pfs_rootfs_verity_def get_pfs_rootfs_def
      find_manifest_def find_rootfs_desc_def verity_env_def sample_env_def open_raw_blob_def verity_image_def
      rootfs_desc_def check_fs_verity_def SHA256_BLOCK_SIZE_def RootfsReader_open_def base16_def)

theorem open_rootfs_blob_verified_witness:
  "\<exists>mfile. im_blobs verity_image (d_digest rootfs_desc) = Some mfile \<and>
    env_fsverity_measure verity_env mfile = Ok (pad32 [5]) \<and>
    env_read_message verity_env (bf_data mfile) = Ok sample_message"
proof -
  have "env_find_manifest_descriptor_with_tag verity_env verity_image ''t'' = Ok (Some rootfs_desc)"
    by (simp add: verity_env_def)
  with open_rootfs_blob_verified [OF verity_env_opens] show ?thesis
    by (auto simp: verity_env_def sample_env_def)
qed

text \<open>
  C30: When the compressed form is the one stored, or no compression is used, the verity digest that
  \<open>put_blob\<close> returns is right: with fs-verity enabled on the stored file and the digest recorded for
  the chunk, verified reads return the written bytes.
\<close>

theorem put_blob_verity_ok:
  assumes "put_blob env C im buf m mt = Ok ((desc, verity, compressed), im', m')"
    and "env_lawful env" and "verity_lawful env" and "C = Noop \<or> (\<exists>zc. C = Zstd zc \<and> zstd_lawful env zc)"
    and "length buf < 2 ^ 63" and "c_is_noop C \<or> compressed"
    and "im_blobs im (d_digest desc) = None"
    and "im_blobs im2 (d_digest desc) = map_option (\<lambda>f. f\<lparr>bf_verity := True\<rparr>) (im_blobs im' (d_digest desc))"
    and "Digest_try_from_str (env_hex env) (d_digest desc) = Ok (Digest dg)"
    and "btree_get vd dg = Some verity" and "unat off + k \<le> length buf"
  shows "fill_from_chunk env im2 (Some vd) \<lparr>br_digest = dg, br_offset = off, br_compressed = compressed\<rparr> k n =
    Ok (take n (drop (unat off + k) buf))"
proof -
  from assms(1,2) obtain z where z: "c_compress C buf = Ok z"
    "d_digest desc = hex_encode (env_hex env) (env_sha256 env (stored_data C buf z))"
    "store_blob env im (d_digest desc) (env_sha256 env (stored_data C buf z)) (stored_data C buf z) = Ok im'"
    "verity = env_fs_verity_sha256 env z" "compressed \<longleftrightarrow> \<not> c_is_noop C \<and> length z < length buf"
    by (rule put_blobE)
  have st: "stored_data C buf z = z" using assms(6) z(5) by (auto simp: stored_data_def)
  have f: "im_blobs im2 (d_digest desc) = Some \<lparr>bf_data = z, bf_verity = True\<rparr>"
    using z(3) assms(7,8) by (auto simp: st store_blob_def split: option.splits)
  have dg: "d_digest desc = hex_encode (env_hex env) dg"
    using assms(2,9) z(2) by (auto simp: Digest_try_from_str_def decode_to_slice_encode env_lawful_def)
  have "file_contents env compressed \<lparr>bf_data = z, bf_verity = True\<rparr> = Some buf"
    using file_contents_put [OF z(1) _ assms(5,4)] z(5) st by simp
  then have "blob_contents env im2 (Some vd) \<lparr>br_digest = dg, br_offset = off, br_compressed = compressed\<rparr> = Some buf"
    using f assms(3,10) z(4)
    by (simp add: blob_contents_def file_verity_of_def underlying_def open_raw_blob_def check_fs_verity_def
        verity_lawful_def flip: dg)
  from fill_from_chunk_slice [OF this, of k n] assms(11) show ?thesis by simp
qed

theorem put_blob_verity_ok_witness:
  "\<exists>im2 dg. fill_from_chunk store_env im2 (Some [(dg, pad32 [0])])
     \<lparr>br_digest = dg, br_offset = 0, br_compressed = True\<rparr> 0 4 = Ok [7, 7, 7, 7]"
proof -
  have z: "sample_zstd (replicate 8 7) = Ok [0]" by (simp add: sample_zstd_def)
  then have st: "stored_data (Zstd sample_zstd) (replicate 8 7) [0] = [0]"
    by (simp add: stored_data_def Zstd_def)
  from put_blob_sample [OF z] obtain desc m' im' where
    put: "put_blob store_env (Zstd sample_zstd) empty_image (replicate 8 7) plain_manifest ChunkMedia =
      Ok ((desc, pad32 [0], True), im', m')" "d_digest desc = base16_encode (pad32 [0])"
    unfolding st by auto
  let ?im2 = "im'\<lparr>im_blobs := map_option (\<lambda>f. f\<lparr>bf_verity := True\<rparr>) \<circ> im_blobs im'\<rparr>"
  have "fill_from_chunk store_env ?im2 (Some [(pad32 [0], pad32 [0])])
      \<lparr>br_digest = pad32 [0], br_offset = 0, br_compressed = True\<rparr> 0 4 =
      Ok (take 4 (drop (unat (0 :: u64) + 0) (replicate 8 7)))"
    by (rule put_blob_verity_ok [OF put(1)])
      (auto simp: store_env_laws store_env_verity put(2) base16_pad32 empty_image_def btree_get_def)
  then show ?thesis by (auto simp: numeral_eq_Suc)
qed

text \<open>
  C34: When compression does not pay off, \<open>put_blob\<close> stores the uncompressed bytes but returns the
  fs-verity digest of the compressed ones, so that every verified read of the chunk is refused
  (unless the two digests collide).
\<close>

theorem put_blob_fallback_breaks_verity:
  assumes "put_blob env (Zstd zc) im buf m mt = Ok ((desc, verity, compressed), im', m')"
    and "env_lawful env" and "verity_lawful env" and "zc buf = Ok z" and "length buf \<le> length z"
    and "env_fs_verity_sha256 env z \<noteq> env_fs_verity_sha256 env buf"
    and "im_blobs im (d_digest desc) = None"
    and "im_blobs im2 (d_digest desc) = map_option (\<lambda>f. f\<lparr>bf_verity := True\<rparr>) (im_blobs im' (d_digest desc))"
    and "Digest_try_from_str (env_hex env) (d_digest desc) = Ok (Digest dg)"
    and "btree_get vd dg = Some verity"
  shows "fill_from_chunk env im2 (Some vd) \<lparr>br_digest = dg, br_offset = off, br_compressed = compressed\<rparr> k n =
    Err (IOError (CustomError OtherKind))"
proof -
  from assms(1,2) obtain
    z: "d_digest desc = hex_encode (env_hex env) (env_sha256 env (stored_data (Zstd zc) buf z))"
    "store_blob env im (d_digest desc) (env_sha256 env (stored_data (Zstd zc) buf z)) (stored_data (Zstd zc) buf z) = Ok im'"
    "verity = env_fs_verity_sha256 env z" "\<not> compressed"
    by (rule put_blobE) (use assms(4,5) in \<open>auto simp: Zstd_def\<close>)
  have st: "stored_data (Zstd zc) buf z = buf" using assms(5) by (simp add: stored_data_def Zstd_def)
  have "im_blobs im2 (d_digest desc) = Some \<lparr>bf_data = buf, bf_verity = True\<rparr>"
    using z(2) assms(7,8) by (auto simp: st store_blob_def split: option.splits)
  moreover have "d_digest desc = hex_encode (env_hex env) dg"
    using assms(2,9) z(1) by (auto simp: Digest_try_from_str_def decode_to_slice_encode env_lawful_def)
  ultimately show ?thesis
    using assms(3,6,10) z(3,4)
    by (simp add: fill_from_chunk_def Digest_try_from_BlobRef_def file_verity_of_def underlying_def
        open_compressed_blob_Noop_def Digest_to_string_def open_raw_blob_def check_fs_verity_def verity_lawful_def)
qed

theorem put_blob_fallback_breaks_verity_witness:
  "\<exists>im2 dg. fill_from_chunk store_env im2 (Some [(dg, pad32 [1, 1, 2])])
     \<lparr>br_digest = dg, br_offset = 0, br_compressed = False\<rparr> 0 2 = Err (IOError (CustomError OtherKind))"
proof -
  have z: "sample_zstd [1, 2] = Ok [1, 1, 2]" by (simp add: sample_zstd_def numeral_eq_Suc)
  then have st: "stored_data (Zstd sample_zstd) [1, 2] [1, 1, 2] = [1, 2]"
    by (simp add: stored_data_def Zstd_def)
  from put_blob_sample [OF z] obtain desc m' im' where
    put: "put_blob store_env (Zstd sample_zstd) empty_image [1, 2] plain_manifest ChunkMedia =
      Ok ((desc, pad32 [1, 1, 2], False), im', m')" "d_digest desc = base16_encode (pad32 [1, 2])"
    unfolding st by auto
  have ne: "pad32 [1, 1, 2] \<noteq> pad32 [1, 2]" by (simp add: pad32_def numeral_eq_Suc)
  let ?im2 = "im'\<lparr>im_blobs := map_option (\<lambda>f. f\<lparr>bf_verity := True\<rparr>) \<circ> im_blobs im'\<rparr>"
  have "fill_from_chunk store_env ?im2 (Some [(pad32 [1, 2], pad32 [1, 1, 2])])
      \<lparr>br_digest = pad32 [1, 2], br_offset = 0, br_compressed = False\<rparr> 0 2 =
      Err (IOError (CustomError OtherKind))"
    by (rule put_blob_fallback_breaks_verity [OF put(1) _ _ z])
      (use ne in \<open>auto simp: store_env_laws store_env_verity put(2) base16_pad32 empty_image_def btree_get_def\<close>)
  then show ?thesis by blast
qed

end
