(* ===== verification/Reader_Properties.thy ===== *)
theory Reader_Properties
  imports Store_Properties
begin

text \<open>
  Properties of the readers: file contents, opening an image, path lookup and the tree walk.
\<close>

section \<open>File contents\<close>

lemma sample_blob_contents:
  assumes "unat off + unat len \<le> 6"
  shows "image_chunk_data (store_env, sample_image, None) (fc_blob (sample_chunk off len)) =
    Some (drop (unat off) sample_blob)"
proof -
  have "im_blobs sample_image (hex_encode base16 (pad32 sample_blob)) =
      Some \<lparr>bf_data = sample_blob, bf_verity = False\<rparr>"
    by (simp add: sample_image_def base16_def)
  then show ?thesis
    using assms
    by (simp add: image_chunk_data_def blob_contents_def sample_chunk_def file_verity_of_def open_raw_blob_def
        file_contents_def sample_blob_def)
qed

definition sample_chunks :: "FileChunk list" where
  "sample_chunks = [sample_chunk 1 3, sample_chunk 0 2]"

definition sample_file :: Inode where
  "sample_file = sample_layers ! 1 ! 1"

lemma sample_file_mode: "i_mode sample_file = File sample_chunks"
  by (simp add: sample_file_def sample_chunks_def sample_layers_def sample_inode_def)

lemma sample_chunks_total: "chunks_total sample_chunks = 5"
  by (simp add: sample_chunks_def sample_chunk_def)

lemma sample_chunks_readable: "chunks_readable (image_chunk_data (store_env, sample_image, None)) sample_chunks"
  using sample_blob_contents [of 1 3] sample_blob_contents [of 0 2]
  by (simp add: sample_chunks_def chunks_readable_def) (simp add: sample_chunk_def sample_blob_def)

lemma sample_file_bytes:
  "file_bytes (image_chunk_data (store_env, sample_image, None)) sample_chunks = [11, 12, 13, 10, 11]"
  using sample_blob_contents [of 1 3] sample_blob_contents [of 0 2]
  by (simp add: sample_chunks_def file_bytes_def) (simp add: sample_chunk_def sample_blob_def)

text \<open>
  C1: Reading a file at any offset into a buffer of any length returns exactly the bytes of the file
  there (as many as the buffer holds and the file has), where the bytes of the file are those of its
  chunks one after the other; the rest of the buffer is untouched and nothing overflows.
\<close>

theorem file_read_correct:
  assumes "i_mode inode = File chunks" and "chunks_readable (image_chunk_data (env, oci, vd)) chunks"
    and "chunks_total chunks < 2 ^ 64" and "offset + length data < 2 ^ 64"
  shows "file_read env oci inode offset data vd =
    (let out = take (length data) (drop offset (file_bytes (image_chunk_data (env, oci, vd)) chunks))
     in Ok (length out, out @ drop (length out) data))"
  using assms by (rule file_read_image)

theorem file_read_correct_witness:
  "file_read store_env sample_image sample_file 2 [0, 0, 0, 0] None = Ok (3, [13, 10, 11, 0])"
  using file_read_correct [OF sample_file_mode sample_chunks_readable, of 2 "[0, 0, 0, 0]"]
  by (simp add: sample_chunks_total sample_file_bytes)

text \<open>
  C36: The loop never stops before the last chunk: a read whose bytes all lie before a chunk still opens
  that chunk, and fails if the chunk cannot be read.
\<close>

theorem file_read_opens_later_chunks:
  assumes "i_mode inode = File (pre @ c # post)"
    and "chunks_readable (image_chunk_data (env, oci, vd)) pre"
    and "chunks_total pre + unat (fc_len c) < 2 ^ 64" and "offset + length data \<le> chunks_total pre"
    and "\<And>off n. fill_from_chunk env oci vd (fc_blob c) off n = Err e"
  shows "file_read env oci inode offset data vd = Err e"
  using image.file_read_loop_failing_chunk [OF assms(2,3), of offset data e post] assms
  by (simp add: file_read_def uadd_def)

definition missing_chunk :: FileChunk where
  "missing_chunk =
     \<lparr>fc_blob = \<lparr>br_digest = pad32 [99], br_offset = 0, br_compressed = False\<rparr>, fc_len = 1\<rparr>"

lemma missing_chunk_fails:
  "fill_from_chunk store_env sample_image None (fc_blob missing_chunk) off n = Err (from_errno ENOENT)"
proof -
  have "pad32 [99] \<noteq> pad32 sample_blob" by (simp add: pad32_def sample_blob_def)
  then have "base16_encode (pad32 [99]) \<noteq> base16_encode (pad32 sample_blob)"
    by (metis base16_decode_encode option.inject)
  then have "im_blobs sample_image (hex_encode base16 (pad32 [99])) = None"
    by (simp add: sample_image_def base16_def)
  then show ?thesis
    by (simp add: fill_from_chunk_def missing_chunk_def Digest_try_from_BlobRef_def file_verity_of_def
        open_compressed_blob_Noop_def Digest_to_string_def open_raw_blob_def from_errno_def)
qed

theorem file_read_opens_later_chunks_witness:
  "file_read store_env sample_image (sample_inode 9 (File (sample_chunks @ [missing_chunk])) None) 0 [0] None =
     Err (from_errno ENOENT)"
  by (rule file_read_opens_later_chunks [OF _ sample_chunks_readable _ _ missing_chunk_fails])
    (simp_all add: sample_inode_def sample_chunks_total, simp add: missing_chunk_def)

text \<open>
  C16: Copying a file through a \<open>FileReader\<close> with any non-empty buffer terminates and yields the whole
  contents of the file.
\<close>

theorem file_reader_copies_file:
  assumes "i_mode inode = File chunks" and "chunks_readable (image_chunk_data (env, oci, None)) chunks"
    and "chunks_total chunks < 2 ^ 63" and "0 < n"
  shows "\<exists>r. FileReader_new oci inode = Ok r \<and>
    copy_from_reader env n r [] = Some (Ok (file_bytes (image_chunk_data (env, oci, None)) chunks))"
proof -
  from file_len_File [OF assms(1)] assms(3) obtain len where len: "file_len inode = Ok len"
    "unat len = chunks_total chunks" by auto
  let ?r = "\<lparr>fr_oci = oci, fr_inode = inode, fr_offset = 0, fr_len = unat len\<rparr>"
  have "reader_at env ?r chunks" using assms len by (simp add: reader_at_def)
  from copy_from_reader_spec [OF this assms(4), of "[]"] len(1) show ?thesis
    by (simp add: FileReader_new_def reader_rest_def)
qed

theorem file_reader_copies_file_witness:
  "\<exists>r. FileReader_new sample_image sample_file = Ok r \<and>
    copy_from_reader store_env 2 r [] = Some (Ok [11, 12, 13, 10, 11])"
  using file_reader_copies_file [OF sample_file_mode sample_chunks_readable, of 2]
  by (simp add: sample_chunks_total sample_file_bytes)

section \<open>Opening an image\<close>

text \<open>
  An image opens only with the supported manifest version; verity data is in use exactly when the
  caller gave the manifest's digest, and is then the well-formed map stored in the rootfs.
\<close>

lemma puzzlefs_open_checks:
  assumes "PuzzleFS_open env oci tag manifest_verity = Ok pfs"
  shows "open_rootfs_blob env oci tag manifest_verity = Ok (pfs_rootfs pfs) \<and>
    cp_manifest_version (pfs_rootfs pfs) = PUZZLEFS_IMAGE_MANIFEST_VERSION \<and> pfs_oci pfs = oci \<and>
    (case manifest_verity of
       None \<Rightarrow> pfs_verity_data pfs = None
     | Some v \<Rightarrow> \<exists>vd. pfs_verity_data pfs = Some vd \<and> wf_VerityData vd \<and>
         RootfsReader_get_verity_data (pfs_rootfs pfs) = Ok vd)"
proof -
  have "RootfsReader_get_verity_data r = Ok vd \<Longrightarrow> wf_VerityData vd" for r vd
    by (auto simp: RootfsReader_get_verity_data_def wf_VerityData_def [of "[]"] btree_invar_def
        intro: verity_loop_wf)
  with assms show ?thesis
    by (auto simp: PuzzleFS_open_def RootfsReader_get_manifest_version_def split: if_splits option.split)
qed

lemma verity_pfs_opens: "\<exists>pfs. PuzzleFS_open verity_env verity_image ''t'' (Some (pad32 [5])) = Ok pfs"
proof -
  have "RootfsReader_get_verity_data sample_message = Ok (rf_fs_verity_data sample_rootfs)"
    using Rootfs_roundtrip [OF sample_wf_Rootfs sample_fill]
    by (auto simp: Rootfs_from_capnp_def RootfsReader_get_verity_data_def) (metis Rootfs.select_convs(2))
  moreover have "cp_manifest_version sample_message = PUZZLEFS_IMAGE_MANIFEST_VERSION"
    using Rootfs_roundtrip [OF sample_wf_Rootfs sample_fill]
    by (auto simp: Rootfs_from_capnp_def sample_rootfs_def)
  ultimately show ?thesis using verity_env_opens by (simp add: PuzzleFS_open_def RootfsReader_get_manifest_version_def)
qed

lemma puzzlefs_open_checks_sample:
  "\<exists>pfs. PuzzleFS_open verity_env verity_image ''t'' (Some (pad32 [5])) = Ok pfs \<and>
     cp_manifest_version (pfs_rootfs pfs) = 3"
  using verity_pfs_opens puzzlefs_open_checks by (metis PUZZLEFS_IMAGE_MANIFEST_VERSION_def)

section \<open>Path lookup\<close>

text \<open>
  C23: Looking up an absolute path finds an inode exactly when walking its names from the root inode
  through the directory entries ends there.
\<close>

theorem lookup_finds_paths:
  assumes "wf_pfs pfs"
  shows "PuzzleFS_lookup pfs (abs_path names) = Ok (Some i) \<longleftrightarrow> path_to (pfs_view pfs) names i"
  unfolding PuzzleFS_lookup_def using assms by (rule pfs.lookup_path_iff)

lemma sample_path: "path_to (pfs_view sample_pfs) ([[100]] @ [[108]]) (sample_layers ! 1 ! 3)"
proof (rule path_to.step)
  have "path_to (pfs_view sample_pfs) [] (sample_layers ! 0 ! 0)"
    by (rule path_to.root) (simp add: sample_view sample_defs)
  then have "path_to (pfs_view sample_pfs) ([] @ [[100]]) (sample_layers ! 1 ! 2)"
    by (rule path_to.step [where e = "\<lparr>de_ino = 3, de_name = [100]\<rparr>"])
      (simp_all add: sample_view sample_defs entry_named_def)
  then show "path_to (pfs_view sample_pfs) [[100]] (sample_layers ! 1 ! 2)" by simp
  show "entry_named (sample_layers ! 1 ! 2) [108] = Some \<lparr>de_ino = 4, de_name = [108]\<rparr>"
    by (simp add: sample_defs entry_named_def)
qed (simp add: sample_view sample_defs)

theorem lookup_finds_paths_witness:
  "PuzzleFS_lookup sample_pfs (abs_path [[100], [108]]) = Ok (Some (sample_layers ! 1 ! 3))"
  using lookup_finds_paths [OF sample_wf_pfs, of "[[100], [108]]"] sample_path by simp

text \<open>
  Looking up any non-empty path never panics and fails only with \<open>EINVAL\<close> (a relative path, or a
  component that is not a plain name) or \<open>ENOENT\<close> (an entry whose inode is missing or whited out).
\<close>

lemma lookup_errors:
  assumes "wf_pfs pfs" and "p \<noteq> []"
  shows "case PuzzleFS_lookup pfs p of
    Ok r \<Rightarrow> True | Err e \<Rightarrow> e = from_errno EINVAL \<or> e = from_errno ENOENT | Panic q \<Rightarrow> False"
proof -
  have "case lookup_loop (PuzzleFS_find_inode pfs) cur comps of
      Ok r \<Rightarrow> True | Err e \<Rightarrow> e = from_errno EINVAL \<or> e = from_errno ENOENT | Panic q \<Rightarrow> False" for cur comps
  proof (induction comps arbitrary: cur)
    case (Cons c comps)
    show ?case
    proof (cases c)
      case (Normal n)
      have "case and_then (PuzzleFS_find_inode pfs ino) (\<lambda>cur'. lookup_loop (PuzzleFS_find_inode pfs) cur' comps) of
          Ok r \<Rightarrow> True | Err e \<Rightarrow> e = from_errno EINVAL \<or> e = from_errno ENOENT | Panic q \<Rightarrow> False" for ino
        using Cons.IH by (cases rule: pfs.find_cases [OF assms(1), of ino]) simp_all
      then show ?thesis by (simp add: Normal split: InodeMode.split option.split)
    qed simp_all
  qed simp
  then show ?thesis
    using assms(2)
    by (cases rule: pfs.find_cases [OF assms(1), of 1])
      (simp_all add: PuzzleFS_lookup_def lookup_path_def list_get_def)
qed

lemma lookup_errors_sample:
  "case PuzzleFS_lookup sample_pfs [RootDir, ParentDir] of
    Ok r \<Rightarrow> True | Err e \<Rightarrow> e = from_errno EINVAL \<or> e = from_errno ENOENT | Panic q \<Rightarrow> False"
  by (rule lookup_errors [OF sample_wf_pfs]) simp

section \<open>The walk\<close>

text \<open>
  C4: On an image whose directory entries all lead to inodes and whose directories do not contain
  themselves, the walk terminates and yields every path of the image exactly once, with its inode,
  in order of depth (breadth first), and nothing else.
\<close>

theorem walk_yields_tree:
  assumes "wf_pfs pfs" and "tree_view (pfs_view pfs) rank"
  shows "\<exists>res. walk pfs = Some (Ok res) \<and> distinct (map wd_path res) \<and> sorted (map depth res) \<and>
    {(wd_path x, wd_inode x) |x. x \<in> set res} = {(abs_path names, i) |names i. path_to (pfs_view pfs) names i}"
  using assms by (rule walk_tree)

lemma sample_tree_view: "tree_view (pfs_view sample_pfs) (\<lambda>ino. if ino = 1 then 2 else if ino = 3 then 1 else 0)"
  unfolding tree_view_def
proof (intro conjI allI impI)
  show "pfs_view sample_pfs 1 \<noteq> None" by (simp add: sample_view sample_defs)
next
  fix names d
  assume "path_to (pfs_view sample_pfs) names d"
  from path_to_view [OF this] obtain ino where "layers_view sample_layers ino = Some d" unfolding sample_view by blast
  from layers_view_ino [OF this] sample_view_cases [OF this]
  have "(i_ino d, d) \<in> {(1, sample_layers ! 0 ! 0), (2, sample_layers ! 1 ! 1), (3, sample_layers ! 1 ! 2),
      (4, sample_layers ! 1 ! 3)}" by simp
  then show "distinct (map de_name (dir_ents d))"
    and "\<forall>e\<in>set (dir_ents d). plain_name (de_name e) \<and> pfs_view sample_pfs (de_ino e) \<noteq> None \<and>
      (if de_ino e = 1 then 2 else if de_ino e = 3 then 1 else 0) <
      (if i_ino d = 1 then 2 else if i_ino d = 3 then 1 else (0 :: nat))"
    unfolding sample_view
    by (auto simp: sample_defs dir_ents_def plain_name_def slash_def dot_def)
qed

theorem walk_yields_tree_witness:
  "\<exists>res x. walk sample_pfs = Some (Ok res) \<and> x \<in> set res \<and> wd_path x = abs_path [[100], [108]] \<and>
     i_mode (wd_inode x) = Lnk"
proof -
  from walk_yields_tree [OF sample_wf_pfs sample_tree_view] obtain res where
    res: "walk sample_pfs = Some (Ok res)"
    "{(wd_path x, wd_inode x) |x. x \<in> set res} =
      {(abs_path names, i) |names i. path_to (pfs_view sample_pfs) names i}" by blast
  have "(abs_path [[100], [108]], sample_layers ! 1 ! 3) \<in> {(wd_path x, wd_inode x) |x. x \<in> set res}"
    unfolding res(2) using sample_path by auto
  moreover have "i_mode (sample_layers ! 1 ! 3) = Lnk" by (simp add: sample_defs)
  ultimately show ?thesis using res(1) by auto
qed

text \<open>
  One entry of the root directory whose inode is missing or whited out ends the whole walk with
  \<open>ENOENT\<close>, although the other entries are intact.
\<close>

lemma walk_dangling_entry_fails:
  assumes "wf_pfs pfs" and "pfs_view pfs 1 = Some d" and "e \<in> set (dir_ents d)"
    and "pfs_view pfs (de_ino e) = None"
  shows "walk pfs = Some (Err (from_errno ENOENT))"
proof -
  from pfs.walk_next_missing [OF assms(1), of e "root_entry (pfs_oci pfs) d" "[]"] assms(3,4) obtain q' where
    q': "walk_next (PuzzleFS_find_inode pfs) [root_entry (pfs_oci pfs) d] = (q', Some (Err (from_errno ENOENT)))"
    by auto
  have "walk_all (PuzzleFS_find_inode pfs) [] [root_entry (pfs_oci pfs) d] = Some (Err (from_errno ENOENT))"
    by (subst walk_all.simps, subst q') simp
  with assms(1,2) show ?thesis by (simp add: walk_def walk_start_def pfs.find_view)
qed

text \<open>An image whose upper layer deletes inode 5 but keeps its directory entry.\<close>

definition whiteout_layers :: "Inode list list" where
  "whiteout_layers =
     [[sample_inode 1 (sample_dir [([97], 2), ([111], 5)]) None, new_whiteout 5],
      [sample_inode 1 (sample_dir [([97], 2), ([111], 5)]) None, sample_inode 2 Fifo None,
       sample_inode 5 Fifo None]]"

definition whiteout_rootfs :: Rootfs where
  "whiteout_rootfs = \<lparr>rf_metadatas = whiteout_layers, rf_fs_verity_data = [], rf_manifest_version = 3\<rparr>"

definition whiteout_message :: capnp_rootfs where
  "whiteout_message = (case Rootfs_fill_capnp whiteout_rootfs of Ok c \<Rightarrow> c | _ \<Rightarrow> empty_message)"

definition whiteout_pfs :: "unit PuzzleFS" where
  "whiteout_pfs = sample_pfs\<lparr>pfs_rootfs := whiteout_message\<rparr>"

lemma whiteout_reader_layers: "reader_layers whiteout_message = Ok whiteout_layers"
proof -
  have "fits_Rootfs whiteout_rootfs"
    by (simp add: fits_Rootfs_def fits_Inode_def whiteout_rootfs_def whiteout_layers_def sample_inode_def
        sample_dir_def new_whiteout_def)
  with Rootfs_fill_cases [of whiteout_rootfs]
  have fill: "Rootfs_fill_capnp whiteout_rootfs = Ok whiteout_message" by (auto simp: whiteout_message_def)
  have "wf_Rootfs whiteout_rootfs"
    by (simp add: wf_Rootfs_def wf_VerityData_def btree_invar_def whiteout_rootfs_def whiteout_layers_def
        sample_inode_def sample_dir_def)
  from Rootfs_roundtrip [OF this fill] show ?thesis
    by (auto simp: Rootfs_from_capnp_def reader_layers_def whiteout_rootfs_def)
qed

lemma whiteout_pfs_facts:
  "wf_pfs whiteout_pfs" "pfs_view whiteout_pfs 1 = Some (whiteout_layers ! 0 ! 0)"
  "pfs_view whiteout_pfs 2 = Some (whiteout_layers ! 1 ! 1)" "pfs_view whiteout_pfs 5 = None"
  by (simp_all add: wf_pfs_def wf_reader_def pfs_view_def reader_view_def whiteout_pfs_def
      whiteout_reader_layers whiteout_layers_def wf_layer_def sample_inode_def sample_dir_def)

lemma walk_dangling_entry_fails_sample: "walk whiteout_pfs = Some (Err (from_errno ENOENT))"
  by (rule walk_dangling_entry_fails [OF whiteout_pfs_facts(1,2), of "\<lparr>de_ino = 5, de_name = [111]\<rparr>"])
    (simp_all add: whiteout_pfs_facts whiteout_layers_def sample_inode_def sample_dir_def dir_ents_def)

end
