(* ===== verification/Fuse_Properties.thy ===== *)
theory Fuse_Properties
  imports Reader_Properties
begin

text \<open>
  Properties of the mounted file system: what the kernel sees through the requests of \<open>Fuse\<close>.
\<close>

section \<open>Opening\<close>

definition linux_oflags :: oflags where
  "linux_oflags = \<lparr>O_RDONLY = 0, O_PATH = 0x200000, O_NONBLOCK = 0x800, O_DIRECTORY = 0x10000,
     O_NOFOLLOW = 0x20000, O_NOATIME = 0x40000, of_all = 0x7FFFC3\<rparr>"

text \<open>
  Opening a file or directory with any flag outside the read-only set is refused with \<open>EROFS\<close>; in
  particular no flag that asks for writing, truncating, appending or creating is ever accepted.
\<close>

lemma fuse_open_refuses_write_flags:
  assumes "w AND allowed_flags ofl = 0" and "w AND of_all ofl = w" and "flags AND w \<noteq> 0"
  shows "fuse_reply_to env ofl fits fs (Open ino flags) = EROFS_reply \<and>
    fuse_reply_to env ofl fits fs (Opendir ino flags) = EROFS_reply"
proof -
  have "(flags AND of_all ofl) AND allowed_flags ofl \<noteq> flags AND of_all ofl"
  proof
    assume eq: "(flags AND of_all ofl) AND allowed_flags ofl = flags AND of_all ofl"
    have "flags AND w = (flags AND of_all ofl) AND w"
      using assms(2) by (metis and.assoc and.commute)
    also have "\<dots> = ((flags AND of_all ofl) AND allowed_flags ofl) AND w" by (simp only: eq)
    also have "\<dots> = 0" using assms(1) by (metis and.assoc and.commute and_zero_eq)
    finally show False using assms(3) by simp
  qed
  then show ?thesis by (simp add: fuse_open_def Let_def EROFS_reply_def)
qed

lemma fuse_open_refuses_write_flags_sample:
  "fuse_reply_to store_env linux_oflags (\<lambda>acc e. True) sample_fuse (Open 2 0x8001) = EROFS_reply"
  using fuse_open_refuses_write_flags [of 3 linux_oflags "0x8001"]
  by (simp add: linux_oflags_def allowed_flags_def)

section \<open>Contents and paths\<close>

text \<open>
  C15: A read request on a regular file returns exactly the bytes of the file from the offset on, as
  many as were asked for and the file has.
\<close>

theorem fuse_read_returns_contents:
  assumes "wf_pfs (fu_pfs fs)" and "pfs_view (fu_pfs fs) ino = Some inode" and "i_mode inode = File chunks"
    and "chunks_readable (image_chunk_data (env, pfs_oci (fu_pfs fs), pfs_verity_data (fu_pfs fs))) chunks"
    and "chunks_total chunks < 2 ^ 64" and "0 \<le> offset" and "offset < 2 ^ 63"
  shows "fuse_reply_to env ofl fits fs (Read ino offset sz) = Some (Ok (ReplyData
    (take (unat sz) (drop (nat offset)
      (file_bytes (image_chunk_data (env, pfs_oci (fu_pfs fs), pfs_verity_data (fu_pfs fs))) chunks)))))"
proof -
  have "nat offset + length (replicate (unat sz) (0 :: u8)) < 2 ^ 64"
    using assms(6,7) unat_u32_bound [of sz] by simp
  note read = file_read_image [OF assms(3-5) this]
  define out where "out = take (unat sz) (drop (nat offset)
      (file_bytes (image_chunk_data (env, pfs_oci (fu_pfs fs), pfs_verity_data (fu_pfs fs))) chunks))"
  have "file_read env (pfs_oci (fu_pfs fs)) inode (nat offset) (replicate (unat sz) 0)
      (pfs_verity_data (fu_pfs fs)) = Ok (length out, out @ drop (length out) (replicate (unat sz) 0))"
    using read by (simp only: Let_def out_def length_replicate)
  with assms(1,2,6) have "fuse_reply_to env ofl fits fs (Read ino offset sz) = Some (Ok (ReplyData out))"
    by (simp add: fuse_read_def pfs.find_view not_less)
  then show ?thesis by (simp only: out_def)
qed

lemma sample_file_view: "pfs_view sample_pfs 2 = Some sample_file"
  by (simp add: sample_view sample_file_def sample_defs)

theorem fuse_read_returns_contents_witness:
  "fuse_reply_to store_env linux_oflags (\<lambda>acc e. True) sample_fuse (Read 2 1 3) =
     Some (Ok (ReplyData [12, 13, 10]))"
  using fuse_read_returns_contents [of sample_fuse 2 sample_file sample_chunks store_env 1 linux_oflags _ 3]
    sample_wf_pfs sample_file_view sample_file_mode sample_chunks_readable
  by (simp add: sample_fuse_def Fuse_new_def sample_pfs_def sample_chunks_total sample_file_bytes)

text \<open>
  C14: Resolving a path with one lookup request per component, as the kernel does, agrees with
  \<open>PuzzleFS::lookup\<close>: it succeeds on the same paths with the attributes of the same inode (when that
  inode has attributes at all).
\<close>

theorem kernel_resolution_is_lookup:
  assumes "wf_pfs (fu_pfs fs)" and "fuse_getattr fs 1 = Ok root"
  shows "kernel_resolve fs root names = Ok attr \<longleftrightarrow>
    (\<exists>i. PuzzleFS_lookup (fu_pfs fs) (abs_path names) = Ok (Some i) \<and> fuse_getattr fs (i_ino i) = Ok attr)"
proof -
  from assms(2) obtain d where d: "PuzzleFS_find_inode (fu_pfs fs) 1 = Ok d" by (auto simp: fuse_getattr_def)
  have root: "fa_ino root = 1" using assms by (rule fuse_getattr_ino)
  have "PuzzleFS_lookup (fu_pfs fs) (abs_path names) =
      lookup_loop (PuzzleFS_find_inode (fu_pfs fs)) d (map Normal names)"
    using d by (simp add: PuzzleFS_lookup_def lookup_path_def abs_path_def list_get_def)
  with kernel_resolve_iff [OF assms(1), of root d names attr] d root assms(2) show ?thesis by simp
qed

theorem kernel_resolution_is_lookup_witness:
  "\<exists>root attr. kernel_resolve sample_fuse root [[100], [108]] = Ok attr \<and> fa_kind attr = Symlink"
proof -
  have pfs: "fu_pfs sample_fuse = sample_pfs" by (simp add: sample_fuse_def Fuse_new_def)
  have "pfs_view sample_pfs 1 = Some (sample_layers ! 0 ! 0)" by (simp add: sample_view sample_defs)
  then obtain root where root: "fuse_getattr sample_fuse 1 = Ok root"
    using fuse_getattr_Dir [of sample_fuse 1 "sample_layers ! 0 ! 0"] sample_wf_pfs
    by (auto simp: pfs pfs.find_view sample_defs)
  have "PuzzleFS_lookup sample_pfs (abs_path [[100], [108]]) = Ok (Some (sample_layers ! 1 ! 3))"
    using pfs.lookup_path_iff [OF sample_wf_pfs, of "[[100], [108]]"] sample_path
    by (simp add: PuzzleFS_lookup_def)
  moreover obtain attr where attr: "fuse_getattr sample_fuse 4 = Ok attr" "fa_kind attr = Symlink"
  proof -
    have "pfs_view sample_pfs 4 = Some (sample_layers ! 1 ! 3)" by (simp add: sample_view sample_defs)
    with that show ?thesis
      by (auto simp: fuse_getattr_def pfs pfs.find_view [OF sample_wf_pfs] mode_to_fuse_type_def file_len_def
          sample_defs)
  qed
  moreover have "i_ino (sample_layers ! 1 ! 3) = 4" by (simp add: sample_defs)
  ultimately have "kernel_resolve sample_fuse root [[100], [108]] = Ok attr"
    using kernel_resolution_is_lookup [of sample_fuse root "[[100], [108]]" attr] root sample_wf_pfs
    by (simp add: pfs del: kernel_resolve.simps)
  with attr show ?thesis by blast
qed

section \<open>Directories\<close>

text \<open>
  C13: Listing a directory page by page, each request continuing at the offset of the last entry, ends
  and yields every entry exactly once, in order, with its inode number and type, however many
  entries fit a reply, as long as each entry fits an empty one.
\<close>

theorem readdir_pages_complete:
  assumes "PuzzleFS_find_inode (fu_pfs fs) ino = Ok i" and "dir_entries i = Ok ents"
    and "dir_listing fs ents = Ok rs" and "length ents < 2 ^ 63" and "\<forall>r\<in>set rs. fits [] r"
  shows "read_whole_dir fs fits ino 0 [] = Some (Ok rs) \<and>
    map (\<lambda>r. (dr_name r, dr_ino r)) rs = map (\<lambda>e. (de_name e, de_ino e)) ents"
proof
  show "read_whole_dir fs fits ino 0 [] = Some (Ok rs)"
    using read_whole_dir_spec [where fits = fits, OF assms] by simp
  have "collect (\<lambda>(k, d). listing_entry fs k d) (enumerate n ents) = Ok rs \<Longrightarrow>
      map (\<lambda>r. (dr_name r, dr_ino r)) rs = map (\<lambda>e. (de_name e, de_ino e)) ents" for n rs ents
    by (induction ents arbitrary: n rs) (auto simp: listing_entry_def)
  then show "map (\<lambda>r. (dr_name r, dr_ino r)) rs = map (\<lambda>e. (de_name e, de_ino e)) ents"
    using assms(3) by (simp add: dir_listing_def)
qed

theorem readdir_pages_complete_witness:
  "\<exists>rs. read_whole_dir sample_fuse (\<lambda>acc e. acc = []) 1 0 [] = Some (Ok rs) \<and> map dr_name rs = [[97], [100]]"
proof -
  have pfs: "fu_pfs sample_fuse = sample_pfs" by (simp add: sample_fuse_def Fuse_new_def)
  have views: "pfs_view sample_pfs 1 = Some (sample_layers ! 0 ! 0)" "pfs_view sample_pfs 3 = Some (sample_layers ! 1 ! 2)"
    by (simp_all add: sample_view sample_defs)
  let ?ents = "[\<lparr>de_ino = 2, de_name = [97]\<rparr>, \<lparr>de_ino = 3, de_name = [100]\<rparr>]"
  have find: "PuzzleFS_find_inode (fu_pfs sample_fuse) 1 = Ok (sample_layers ! 0 ! 0)"
    by (simp add: pfs pfs.find_view [OF sample_wf_pfs] views)
  have ents: "dir_entries (sample_layers ! 0 ! 0) = Ok ?ents" by (simp add: dir_entries_def sample_defs)
  have "\<exists>rs. dir_listing sample_fuse ?ents = Ok rs"
    by (simp add: dir_listing_def listing_entry_def pfs pfs.find_view [OF sample_wf_pfs] views sample_file_view
        mode_to_fuse_type_def sample_file_mode) (simp add: sample_defs)
  then obtain rs where "dir_listing sample_fuse ?ents = Ok rs" ..
  from readdir_pages_complete [OF find ents this, of "\<lambda>acc e. acc = []"]
  have "read_whole_dir sample_fuse (\<lambda>acc e. acc = []) 1 0 [] = Some (Ok rs)"
    "map (\<lambda>r. (dr_name r, dr_ino r)) rs = [([97], 2), ([100], 3)]" by simp_all
  moreover from this(2) have "map fst (map (\<lambda>r. (dr_name r, dr_ino r)) rs) = [[97], [100]]" by simp
  then have "map dr_name rs = [[97], [100]]" by (simp add: comp_def)
  ultimately show ?thesis by (intro exI conjI)
qed

text \<open>
  A directory with one entry whose inode is missing or whited out cannot be listed: the whole
  reply is \<open>ENOENT\<close>, even when all other entries are intact and fit.
\<close>

lemma readdir_dangling_entry_fails:
  assumes "wf_pfs (fu_pfs fs)" and "pfs_view (fu_pfs fs) ino = Some i"
    and "dir_entries i = Ok (pre @ d # post)" and "dir_listing fs pre = Ok rs"
    and "pfs_view (fu_pfs fs) (de_ino d) = None" and "\<And>acc e. fits acc e"
  shows "fuse_reply_to env ofl fits fs (Readdir ino 0) = Some (Ok (ReplyError (errno_code ENOENT)))"
proof -
  have "readdir_loop (PuzzleFS_find_inode (fu_pfs fs)) fits []
      (enumerate 0 pre @ (length pre, d) # enumerate (Suc (length pre)) post) = Err (from_errno ENOENT)"
    using assms(4,5) by (intro readdir_loop_missing)
      (auto simp: dir_listing_def pfs.find_view [OF assms(1)] assms(6))
  with assms(2,3) show ?thesis
    by (simp add: fuse_readdir_def pfs.find_view [OF assms(1)] i64_as_usize_def enumerate_append_eq)
qed

lemma readdir_dangling_entry_fails_sample:
  "fuse_reply_to store_env linux_oflags (\<lambda>acc e. True) (Fuse_new whiteout_pfs False None) (Readdir 1 0) =
     Some (Ok (ReplyError (errno_code ENOENT)))"
proof -
  have pfs: "fu_pfs (Fuse_new whiteout_pfs False None) = whiteout_pfs" by (simp add: Fuse_new_def)
  have "\<exists>rs. dir_listing (Fuse_new whiteout_pfs False None) [\<lparr>de_ino = 2, de_name = [97]\<rparr>] = Ok rs"
    by (simp add: dir_listing_def listing_entry_def pfs pfs.find_view whiteout_pfs_facts mode_to_fuse_type_def)
      (simp add: whiteout_layers_def sample_inode_def)
  then obtain rs where rs: "dir_listing (Fuse_new whiteout_pfs False None) [\<lparr>de_ino = 2, de_name = [97]\<rparr>] = Ok rs" ..
  show ?thesis
    by (rule readdir_dangling_entry_fails [OF _ _ _ rs, where d = "\<lparr>de_ino = 5, de_name = [111]\<rparr>" and post = "[]"
          and i = "whiteout_layers ! 0 ! 0"])
      (simp_all add: pfs whiteout_pfs_facts dir_entries_def whiteout_layers_def sample_inode_def sample_dir_def)
qed

section \<open>Extended attributes\<close>

text \<open>
  C33: The attribute requests agree with each other: the list is the attribute names, each ended by a
  NUL byte; every listed name can be fetched and has the stored value; and asking first with size 0
  for the length and then with that length gives the value, while a shorter buffer is \<open>ERANGE\<close>.
\<close>

theorem xattr_protocol:
  assumes "PuzzleFS_find_inode (fu_pfs fs) ino = Ok i" and "i_additional i = Some add"
    and "\<forall>x\<in>set (ia_xattrs add). 0 \<notin> set (x_key x)" and "distinct (map x_key (ia_xattrs add))"
    and "x \<in> set (ia_xattrs add)" and "length (x_val x) < 2 ^ 32" and "x_val x \<noteq> []"
  shows "\<exists>names. fuse_listxattr fs ino = Ok names \<and>
      split_on 0 names = map x_key (ia_xattrs add) @ [[]] \<and>
    fuse_reply_to env ofl fits fs (Getxattr ino (x_key x) 0) = Some (Ok (ReplySize (length (x_val x)))) \<and>
    fuse_reply_to env ofl fits fs (Getxattr ino (x_key x) (of_nat (length (x_val x)))) =
      Some (Ok (ReplyData (x_val x))) \<and>
    (\<forall>sz. sz \<noteq> 0 \<longrightarrow> unat sz < length (x_val x) \<longrightarrow>
      fuse_reply_to env ofl fits fs (Getxattr ino (x_key x) sz) = Some (Ok (ReplyError (errno_code ERANGE))))"
proof -
  have "split_on 0 (concat (map (\<lambda>x. x_key x @ [0]) (ia_xattrs add))) = map x_key (ia_xattrs add) @ [[]]"
    using split_on_concat [of "map x_key (ia_xattrs add)" 0] assms(3) by (simp add: comp_def)
  moreover have "unat (of_nat (length (x_val x)) :: u32) = length (x_val x)"
    using assms(6) by (simp add: unat_of_nat)
  moreover from this assms(7) have "(of_nat (length (x_val x)) :: u32) \<noteq> 0" by (metis length_0_conv unat_0)
  ultimately show ?thesis
    using fuse_listxattr_keys [OF assms(1-3)] fuse_getxattr_listed [OF assms(1,2,5,4)] assms(6,7)
    by (simp add: reply_xattr_def)
qed

theorem xattr_protocol_witness:
  "fuse_reply_to store_env linux_oflags (\<lambda>acc e. True) sample_fuse (Getxattr 2 [117, 46, 107] 2) =
     Some (Ok (ReplyData [1, 2]))"
proof -
  have pfs: "fu_pfs sample_fuse = sample_pfs" by (simp add: sample_fuse_def Fuse_new_def)
  have "PuzzleFS_find_inode (fu_pfs sample_fuse) 2 = Ok sample_file"
    by (simp add: pfs pfs.find_view [OF sample_wf_pfs] sample_file_view)
  moreover have "i_additional sample_file = Some \<lparr>ia_xattrs = [sample_xattr], ia_symlink_target = None\<rparr>"
    by (simp add: sample_file_def sample_defs)
  ultimately show ?thesis
    using xattr_protocol [of sample_fuse 2 sample_file _ sample_xattr store_env linux_oflags]
    by (auto simp: sample_xattr_def)
qed

end
