(* ===== verification/Fs_Stream.thy ===== *)
theory Fs_Stream
  imports Compression
begin

text \<open>
  \<open>puzzlefs-lib/src/builder/filesystem.rs\<close>: the reader that chains the regular files of a directory
  tree into one byte stream for the chunker. The host is the function \<open>open_file\<close>
  (\<open>std::fs::File::open\<close>), which gives the bytes of the file or an error.
\<close>

section \<open>The stream\<close>

record 'p ReaderLink =
  rl_file :: 'p
  rl_done :: bool

record 'p FilesystemStream =
  reader_chain :: "'p ReaderLink list"
  current_reader :: "file_handle option"

definition FilesystemStream_new :: "'p FilesystemStream" where
  "FilesystemStream_new = \<lparr>reader_chain = [], current_reader = None\<rparr>"

definition FilesystemStream_push :: "'p FilesystemStream \<Rightarrow> 'p \<Rightarrow> 'p FilesystemStream" where
  "FilesystemStream_push s file =
     s\<lparr>reader_chain := reader_chain s @ [\<lparr>rl_file = file, rl_done = False\<rparr>]\<rparr>"

text \<open>
  The loop over the chain for a buffer of \<open>n\<close> bytes: the bytes read (or the error), and the chain and
  current reader afterwards.
\<close>

primrec chain_read ::
    "('p \<Rightarrow> bytes io_result) \<Rightarrow> nat \<Rightarrow> 'p ReaderLink list \<Rightarrow> file_handle option \<Rightarrow>
     bytes io_result \<times> 'p ReaderLink list \<times> file_handle option" where
  "chain_read open_file n [] cur = (Ok [], [], cur)"
| "chain_read open_file n (link # links) cur =
     (if rl_done link then
        (let (r, links', cur') = chain_read open_file n links cur in (r, link # links', cur'))
      else
        (case (case cur of
                 Some reader \<Rightarrow> Ok reader
               | None \<Rightarrow> map_ok (\<lambda>data. \<lparr>fh_data = data, fh_pos = 0\<rparr>) (open_file (rl_file link))) of
           Err e \<Rightarrow> (Err e, link # links, cur)
         | Panic p \<Rightarrow> (Panic p, link # links, cur)
         | Ok reader \<Rightarrow>
             (case file_read_into reader n of
                Err e \<Rightarrow> (Err e, link # links, Some reader)
              | Panic p \<Rightarrow> (Panic p, link # links, Some reader)
              | Ok (out, reader') \<Rightarrow>
                  (if out = [] \<and> n \<noteq> 0 then
                     (let (r, links', cur') = chain_read open_file n links None
                      in (r, link\<lparr>rl_done := True\<rparr> # links', cur'))
                   else (Ok out, link # links, Some reader')))))"

definition FilesystemStream_read ::
    "('p \<Rightarrow> bytes io_result) \<Rightarrow> 'p FilesystemStream \<Rightarrow> nat \<Rightarrow> bytes io_result \<times> 'p FilesystemStream" where
  "FilesystemStream_read open_file s n =
     (let (r, links, cur) = chain_read open_file n (reader_chain s) (current_reader s)
      in (r, \<lparr>reader_chain = links, current_reader = cur\<rparr>))"

text \<open>
  \<open>read_to_end\<close> with buffers of the given sizes, the last one repeated: read until a read returns
  nothing. \<open>None\<close> is a loop that does not end.
\<close>

partial_function (option) stream_to_end ::
    "('p \<Rightarrow> bytes io_result) \<Rightarrow> nat list \<Rightarrow> nat \<Rightarrow> 'p FilesystemStream \<Rightarrow> bytes \<Rightarrow> bytes io_result option" where
  "stream_to_end open_file sizes dflt s acc =
     (case FilesystemStream_read open_file s (case sizes of [] \<Rightarrow> dflt | n # _ \<Rightarrow> n) of
        (Err e, s') \<Rightarrow> Some (Err e)
      | (Panic p, s') \<Rightarrow> Some (Panic p)
      | (Ok out, s') \<Rightarrow>
          (if out = [] then Some (Ok acc)
           else stream_to_end open_file (tl sizes) dflt s' (acc @ out)))"

section \<open>Specification\<close>

text \<open>The bytes that are still to come.\<close>

fun chain_rest :: "('p \<Rightarrow> bytes io_result) \<Rightarrow> 'p ReaderLink list \<Rightarrow> file_handle option \<Rightarrow> bytes io_result" where
  "chain_rest open_file [] cur = Ok []"
| "chain_rest open_file (link # links) cur =
     (if rl_done link then chain_rest open_file links cur
      else
        and_then (case cur of
            Some reader \<Rightarrow> Ok (drop (fh_pos reader) (fh_data reader))
          | None \<Rightarrow> open_file (rl_file link)) (\<lambda>here.
        and_then (chain_rest open_file links None) (\<lambda>later. Ok (here @ later))))"

text \<open>One read: a non-empty prefix of the rest unless nothing is left.\<close>

lemma chain_read_spec:
  assumes "chain_rest open_file links cur = Ok rest" and "0 < n"
  shows "\<exists>out links' cur' rest'. chain_read open_file n links cur = (Ok out, links', cur') \<and>
    chain_rest open_file links' cur' = Ok rest' \<and> rest = out @ rest' \<and> (out = [] \<longrightarrow> rest = [])"
  using assms(1)
proof (induction links arbitrary: cur rest)
  case (Cons link links)
  show ?case
  proof (cases "rl_done link")
    case True
    with Cons.prems Cons.IH [of cur rest] show ?thesis by auto
  next
    case False
    with Cons.prems obtain here later where
      hl: "(case cur of Some reader \<Rightarrow> Ok (drop (fh_pos reader) (fh_data reader))
        | None \<Rightarrow> open_file (rl_file link)) = Ok here"
      "chain_rest open_file links None = Ok later" "rest = here @ later" by auto
    define reader where "reader = (case cur of Some r \<Rightarrow> r | None \<Rightarrow> \<lparr>fh_data = here, fh_pos = 0\<rparr>)"
    have open_ok: "(case cur of Some r \<Rightarrow> Ok r
        | None \<Rightarrow> map_ok (\<lambda>data. \<lparr>fh_data = data, fh_pos = 0\<rparr>) (open_file (rl_file link))) = Ok reader"
      and here: "drop (fh_pos reader) (fh_data reader) = here"
      using hl(1) by (auto simp: reader_def split: option.splits)
    have read: "file_read_into reader n = Ok (take n here, reader\<lparr>fh_pos := fh_pos reader + length (take n here)\<rparr>)"
      by (simp add: file_read_into_def here Let_def)
    show ?thesis
    proof (cases "here = []")
      case True
      from Cons.IH [OF hl(2)] obtain out links' cur' rest' where
        "chain_read open_file n links None = (Ok out, links', cur')"
        "chain_rest open_file links' cur' = Ok rest'" "later = out @ rest'" "out = [] \<longrightarrow> later = []" by blast
      with False open_ok read True hl(3) assms(2) show ?thesis by simp
    next
      case nonempty: False
      let ?reader' = "reader\<lparr>fh_pos := fh_pos reader + length (take n here)\<rparr>"
      have "chain_read open_file n (link # links) cur = (Ok (take n here), link # links, Some ?reader')"
        using False open_ok read nonempty assms(2) by simp
      moreover have "drop (fh_pos ?reader') (fh_data ?reader') = drop n here"
      proof -
        have "drop (fh_pos ?reader') (fh_data ?reader') = drop (length (take n here)) here"
          by (simp add: here [symmetric] add.commute)
        also have "\<dots> = drop n here" by (cases "n \<le> length here") simp_all
        finally show ?thesis .
      qed
      then have "chain_rest open_file (link # links) (Some ?reader') = Ok (drop n here @ later)"
        using False hl(2) by simp
      moreover have "rest = take n here @ drop n here @ later" using hl(3) by simp
      moreover have "take n here \<noteq> []" using nonempty assms(2) by simp
      ultimately show ?thesis by blast
    qed
  qed
qed simp

lemma stream_to_end_spec:
  assumes "chain_rest open_file (reader_chain s) (current_reader s) = Ok rest"
    and "0 < dflt" and "\<forall>n\<in>set sizes. 0 < n"
  shows "stream_to_end open_file sizes dflt s acc = Some (Ok (acc @ rest))"
  using assms(1,3)
proof (induction "length rest" arbitrary: s sizes acc rest rule: less_induct)
  case less
  let ?n = "case sizes of [] \<Rightarrow> dflt | n # _ \<Rightarrow> n"
  have "0 < ?n" using assms(2) less.prems(2) by (auto split: list.split)
  from chain_read_spec [OF less.prems(1) this] obtain out links' cur' rest' where
    r: "chain_read open_file ?n (reader_chain s) (current_reader s) = (Ok out, links', cur')"
    "chain_rest open_file links' cur' = Ok rest'" "rest = out @ rest'" "out = [] \<longrightarrow> rest = []" by blast
  have read: "FilesystemStream_read open_file s ?n = (Ok out, \<lparr>reader_chain = links', current_reader = cur'\<rparr>)"
    by (simp add: FilesystemStream_read_def r(1))
  show ?case
  proof (cases "out = []")
    case True
    with r(4) read show ?thesis by (subst stream_to_end.simps) simp
  next
    case False
    with r(3) have "length rest' < length rest" by simp
    from less.hyps [OF this, of "\<lparr>reader_chain = links', current_reader = cur'\<rparr>" "tl sizes" "acc @ out"]
      r(2,3) less.prems(2) False read show ?thesis
      by (subst stream_to_end.simps) (cases sizes, auto)
  qed
qed

text \<open>A stream with the given files pushed to it.\<close>

definition stream_of :: "'p list \<Rightarrow> 'p FilesystemStream" where
  "stream_of files = foldl FilesystemStream_push FilesystemStream_new files"

lemma stream_of_chain:
  "reader_chain (stream_of files) = map (\<lambda>f. \<lparr>rl_file = f, rl_done = False\<rparr>) files"
  "current_reader (stream_of files) = None"
proof -
  have "reader_chain (foldl FilesystemStream_push s files) =
      reader_chain s @ map (\<lambda>f. \<lparr>rl_file = f, rl_done = False\<rparr>) files \<and>
      current_reader (foldl FilesystemStream_push s files) = current_reader s" for s :: "'a FilesystemStream"
    by (induction files arbitrary: s) (auto simp: FilesystemStream_push_def)
  then show "reader_chain (stream_of files) = map (\<lambda>f. \<lparr>rl_file = f, rl_done = False\<rparr>) files"
    "current_reader (stream_of files) = None"
    by (simp_all add: stream_of_def FilesystemStream_new_def)
qed

lemma chain_rest_fresh:
  "collect open_file files = Ok datas \<Longrightarrow>
   chain_rest open_file (map (\<lambda>f. \<lparr>rl_file = f, rl_done = False\<rparr>) files) None = Ok (concat datas)"
  by (induction files arbitrary: datas) auto

end
