(* ===== verification/Chunking.thy ===== *)
theory Chunking
  imports File_Reader
begin

text \<open>
  \<open>process_chunks\<close> of \<open>puzzlefs-lib/src/builder.rs\<close>: the chunks of the file stream are written as blobs
  and cut at file boundaries into the chunk lists of the files. The chunker of the \<open>fastcdc\<close> crate is
  given by the list of results it yields.
\<close>

section \<open>The program\<close>

text \<open>\<open>struct File\<close> of the builder.\<close>

record bfile =
  f_ino :: u64
  f_chunks :: "FileChunk list"
  f_md :: host_metadata
  f_additional :: "InodeAdditional option"

abbreviation f_size :: "bfile \<Rightarrow> nat" where
  "f_size f \<equiv> unat (md_len (f_md f))"

text \<open>
  The state of the mutable iterator: the files passed, the current file and how much of it is used,
  and the files to come.
\<close>

record cursor =
  cu_passed :: "bfile list"
  cu_file :: "bfile option"
  cu_used :: nat
  cu_rest :: "bfile list"

text \<open>\<open>for f in file_iter.by_ref() { if f.md.size() > 0 { file = Some(f); break; } }\<close>.\<close>

fun next_file :: "bfile list \<Rightarrow> bfile list \<Rightarrow> cursor" where
  "next_file passed [] = \<lparr>cu_passed = passed, cu_file = None, cu_used = 0, cu_rest = []\<rparr>"
| "next_file passed (f # fs) =
     (if md_len (f_md f) > 0 then \<lparr>cu_passed = passed, cu_file = Some f, cu_used = 0, cu_rest = fs\<rparr>
      else next_file (passed @ [f]) fs)"

definition push_chunk :: "bytes \<Rightarrow> bool \<Rightarrow> nat \<Rightarrow> nat \<Rightarrow> bfile \<Rightarrow> bfile" where
  "push_chunk digest compressed chunk_used room f =
     f\<lparr>f_chunks := f_chunks f @
       [\<lparr>fc_blob = \<lparr>br_digest = digest, br_offset = of_nat chunk_used, br_compressed = compressed\<rparr>,
         fc_len = of_nat room\<rparr>]\<rparr>"

text \<open>
  \<open>while chunk_used < chunk.length\<close>. The result says whether the loop was left with \<open>break 'outer\<close>.
  \<open>None\<close> is a loop that does not end.
\<close>

partial_function (option) chunk_loop ::
    "bytes \<Rightarrow> bool \<Rightarrow> nat \<Rightarrow> nat \<Rightarrow> cursor \<Rightarrow> (cursor \<times> bool) wire_result option" where
  "chunk_loop digest compressed chunk_len chunk_used cur =
     (if chunk_used < chunk_len then
        (case cu_file cur of
           None \<Rightarrow> Some (Panic UnwrapFailed)
         | Some f \<Rightarrow>
             (if f_size f < cu_used cur then Some (Panic ArithOverflow)
              else
                let room = min (f_size f - cu_used cur) (chunk_len - chunk_used);
                    f' = push_chunk digest compressed chunk_used room f;
                    file_used = cu_used cur + room
                in
                if file_used = f_size f then
                  (let cur' = next_file (cu_passed cur @ [f']) (cu_rest cur) in
                   if cu_file cur' = None then Some (Ok (cur', True))
                   else chunk_loop digest compressed chunk_len (chunk_used + room) cur')
                else chunk_loop digest compressed chunk_len (chunk_used + room)
                  (cur\<lparr>cu_file := Some f', cu_used := file_used\<rparr>)))
      else Some (Ok (cur, False)))"

text \<open>
  \<open>for result in &mut chunker\<close>, then \<open>assert!(chunker.next().is_none())\<close> on what the chunker has left.
\<close>

fun chunks_loop ::
    "'o env \<Rightarrow> compression \<Rightarrow> (io_error, bytes) outcome list \<Rightarrow> 'o Image \<Rightarrow> VerityData \<Rightarrow> ImageManifest \<Rightarrow>
     cursor \<Rightarrow> (cursor \<times> 'o Image \<times> VerityData \<times> ImageManifest) wire_result option" where
  "chunks_loop env C [] im verity_data image_manifest cur = Some (Ok (cur, im, verity_data, image_manifest))"
| "chunks_loop env C (result # chunker) im verity_data image_manifest cur =
     (case result of
        Ok data \<Rightarrow>
          (case and_then (put_blob env C im data image_manifest ChunkMedia) (\<lambda>((desc, verity, compressed), im', m').
                and_then (Digest_try_from_str (env_hex env) (d_digest desc)) (\<lambda>digest.
                  Ok (underlying digest, verity, compressed, im', m'))) of
             Err e \<Rightarrow> Some (Err e)
           | Panic p \<Rightarrow> Some (Panic p)
           | Ok (digest, verity, compressed, im', m') \<Rightarrow>
               (let verity_data' = btree_insert digest verity verity_data in
                case chunk_loop digest compressed (length data) 0 cur of
                  None \<Rightarrow> None
                | Some (Err e) \<Rightarrow> Some (Err e)
                | Some (Panic p) \<Rightarrow> Some (Panic p)
                | Some (Ok (cur', True)) \<Rightarrow>
                    (if chunker = [] then Some (Ok (cur', im', verity_data', m'))
                     else Some (Panic AssertFailed))
                | Some (Ok (cur', False)) \<Rightarrow> chunks_loop env C chunker im' verity_data' m' cur'))
      | _ \<Rightarrow> Some (Panic UnwrapFailed))"

definition cursor_files :: "cursor \<Rightarrow> bfile list" where
  "cursor_files cur = cu_passed cur @ (case cu_file cur of None \<Rightarrow> [] | Some f \<Rightarrow> [f]) @ cu_rest cur"

definition process_chunks ::
    "'o env \<Rightarrow> compression \<Rightarrow> 'o Image \<Rightarrow> (io_error, bytes) outcome list \<Rightarrow> bfile list \<Rightarrow> VerityData \<Rightarrow>
     ImageManifest \<Rightarrow> (bfile list \<times> 'o Image \<times> VerityData \<times> ImageManifest) wire_result option" where
  "process_chunks env C im chunker files verity_data image_manifest =
     map_option (map_ok (\<lambda>(cur, im', vd, m). (cursor_files cur, im', vd, m)))
       (chunks_loop env C chunker im verity_data image_manifest (next_file [] files))"

section \<open>Specification\<close>

text \<open>A file whose chunk list stands for the bytes \<open>bs\<close>.\<close>

definition holds :: "(BlobRef \<Rightarrow> bytes option) \<Rightarrow> bfile \<Rightarrow> bytes \<Rightarrow> bool" where
  "holds cd f bs \<longleftrightarrow> chunks_readable cd (f_chunks f) \<and> file_bytes cd (f_chunks f) = bs"

definition complete :: "(BlobRef \<Rightarrow> bytes option) \<Rightarrow> bfile \<Rightarrow> bytes \<Rightarrow> bool" where
  "complete cd f bs \<longleftrightarrow> holds cd f bs \<and> f_size f = length bs"

definition untouched :: "bfile \<Rightarrow> bytes \<Rightarrow> bool" where
  "untouched f bs \<longleftrightarrow> f_chunks f = [] \<and> f_size f = length bs"

definition strip :: "bfile \<Rightarrow> bfile" where
  "strip f = f\<lparr>f_chunks := []\<rparr>"

text \<open>
  The invariant: the files passed are complete, the current one has its first \<open>cu_used\<close> bytes, the
  others are untouched, and \<open>left\<close> is what the files still need from the stream.
\<close>

definition at_stream ::
    "(BlobRef \<Rightarrow> bytes option) \<Rightarrow> bfile list \<Rightarrow> bytes list \<Rightarrow> cursor \<Rightarrow> bytes \<Rightarrow> bool" where
  "at_stream cd files contents cur left \<longleftrightarrow>
     map strip (cursor_files cur) = map strip files \<and>
     (\<exists>cp cr. list_all2 (complete cd) (cu_passed cur) cp \<and> list_all2 untouched (cu_rest cur) cr \<and>
       (case cu_file cur of
          None \<Rightarrow> cu_rest cur = [] \<and> contents = cp \<and> left = []
        | Some f \<Rightarrow> \<exists>bs. contents = cp @ bs # cr \<and> f_size f = length bs \<and> cu_used cur < length bs \<and>
            holds cd f (take (cu_used cur) bs) \<and> left = drop (cu_used cur) bs @ concat cr))"

lemma holds_Nil: "f_chunks f = [] \<Longrightarrow> holds cd f []"
  by (simp add: holds_def chunks_readable_def)

lemma untouched_complete: "untouched f bs \<Longrightarrow> f_size f = 0 \<Longrightarrow> complete cd f bs"
  by (auto simp: untouched_def complete_def holds_Nil)

lemma strip_push [simp]: "strip (push_chunk dg c u r f) = strip f"
  by (simp add: strip_def push_chunk_def)

lemma push_chunk_md [simp]: "f_md (push_chunk dg c u r f) = f_md f"
  by (simp add: push_chunk_def)

lemma holds_push:
  assumes "holds cd f bs" and "used + room \<le> length d" and "length d < 2 ^ 64"
    and "cd \<lparr>br_digest = dg, br_offset = of_nat used, br_compressed = c\<rparr> = Some (drop used d)"
  shows "holds cd (push_chunk dg c used room f) (bs @ take room (drop used d))"
proof -
  have "unat (of_nat room :: u64) = room" using assms(2,3) by (simp add: unat_of_nat)
  with assms show ?thesis
    by (auto simp: holds_def push_chunk_def chunks_readable_def file_bytes_def)
qed

lemma next_file_at_stream:
  assumes "list_all2 (complete cd) passed cp" and "list_all2 untouched rest cr"
    and "map strip (passed @ rest) = map strip files"
  shows "at_stream cd files (cp @ cr) (next_file passed rest) (concat cr)"
  using assms
proof (induction passed rest arbitrary: cp cr rule: next_file.induct)
  case (1 passed)
  then show ?case by (auto simp: at_stream_def cursor_files_def)
next
  case (2 passed f fs)
  from "2.prems"(2) obtain bs cr' where cr: "cr = bs # cr'" "untouched f bs" "list_all2 untouched fs cr'"
    by (auto simp: list_all2_Cons1)
  show ?case
  proof (cases "md_len (f_md f) > 0")
    case True
    then have "0 < f_size f" by (simp add: word_gt_0 unat_gt_0)
    with cr(2) have "0 < length bs" "f_size f = length bs" "holds cd f (take 0 bs)"
      by (auto simp: untouched_def holds_Nil)
    with True "2.prems" cr show ?thesis by (auto simp: at_stream_def cursor_files_def)
  next
    case False
    then have "f_size f = 0" by (simp add: word_gt_0)
    with cr(2) have "complete cd f bs" "bs = []" by (auto simp: untouched_complete untouched_def)
    with False "2.IH" [of "cp @ [bs]" cr'] "2.prems" cr show ?thesis by (auto intro: list_all2_appendI)
  qed
qed

lemma at_streamE:
  assumes "at_stream cd files contents cur left" and "left \<noteq> []"
  obtains cp cr f bs where "cu_file cur = Some f" "map strip (cursor_files cur) = map strip files"
    "list_all2 (complete cd) (cu_passed cur) cp" "list_all2 untouched (cu_rest cur) cr"
    "contents = cp @ bs # cr" "f_size f = length bs" "cu_used cur < length bs"
    "holds cd f (take (cu_used cur) bs)" "left = drop (cu_used cur) bs @ concat cr"
proof (cases "cu_file cur")
  case None
  with assms show thesis by (auto simp: at_stream_def)
next
  case (Some f)
  with assms(1) show thesis by (auto simp only: at_stream_def option.case intro: that [of f])
qed

lemma chunk_loop_step:
  assumes "used < len" and "cu_file cur = Some f" and "cu_used cur \<le> f_size f"
    and room: "room = min (f_size f - cu_used cur) (len - used)" and f': "f' = push_chunk dg c used room f"
  shows "chunk_loop dg c len used cur =
    (if cu_used cur + room = f_size f then
       (let cur' = next_file (cu_passed cur @ [f']) (cu_rest cur) in
        if cu_file cur' = None then Some (Ok (cur', True)) else chunk_loop dg c len (used + room) cur')
     else chunk_loop dg c len (used + room) (cur\<lparr>cu_file := Some f', cu_used := cu_used cur + room\<rparr>))"
proof -
  from assms(3) have "(f_size f < cu_used cur) = False" by simp
  with assms(1,2) show ?thesis
    by (subst chunk_loop.simps) (simp only: if_True if_False option.case Let_def f' room)
qed

lemma chunk_loop_spec:
  assumes "at_stream cd files contents cur left" and "left = drop used d @ later" and "used \<le> length d"
    and "length d < 2 ^ 64"
    and data: "\<And>off. off \<le> length d \<Longrightarrow>
      cd \<lparr>br_digest = dg, br_offset = of_nat off, br_compressed = c\<rparr> = Some (drop off d)"
  shows "\<exists>cur' b. chunk_loop dg c (length d) used cur = Some (Ok (cur', b)) \<and>
    at_stream cd files contents cur' later \<and> (b \<longrightarrow> cu_file cur' = None)"
  using assms(1-3)
proof (induction "length d - used" arbitrary: used cur left rule: less_induct)
  case less
  show ?case
  proof (cases "used < length d")
    case False
    with less.prems show ?thesis by (subst chunk_loop.simps) auto
  next
    case True
    with less.prems(2) have "left \<noteq> []" by auto
    from less.prems(1) this obtain cp cr f bs where
      cur: "cu_file cur = Some f" "map strip (cursor_files cur) = map strip files"
      "list_all2 (complete cd) (cu_passed cur) cp" "list_all2 untouched (cu_rest cur) cr"
      "contents = cp @ bs # cr" "f_size f = length bs" "cu_used cur < length bs"
      "holds cd f (take (cu_used cur) bs)" and left: "left = drop (cu_used cur) bs @ concat cr"
      by (rule at_streamE)
    define room where "room = min (f_size f - cu_used cur) (length d - used)"
    define f' where "f' = push_chunk dg c used room f"
    have room: "0 < room" "used + room \<le> length d" "cu_used cur + room \<le> length bs"
      using True cur(6,7) by (auto simp: room_def)
    have eq: "drop (cu_used cur) bs @ concat cr = drop used d @ later" using left less.prems(2) by simp
    have "take room (drop (cu_used cur) bs @ concat cr) = take room (drop used d @ later)"
      "drop room (drop (cu_used cur) bs @ concat cr) = drop room (drop used d @ later)"
      by (simp_all only: eq)
    then have piece: "take room (drop used d) = take room (drop (cu_used cur) bs)"
      and rest: "drop (cu_used cur + room) bs @ concat cr = drop (used + room) d @ later"
      using room by (simp_all add: add.commute)
    have f': "holds cd f' (take (cu_used cur + room) bs)"
      using holds_push [OF cur(8) room(2) assms(4) data [of used]] True
      by (simp add: f'_def piece take_add)
    have dec: "length d - (used + room) < length d - used" using room True by simp
    have strip: "map strip ((cu_passed cur @ [f']) @ cu_rest cur) = map strip files"
      using cur(1,2) by (simp add: cursor_files_def f'_def)
    have "cu_used cur \<le> f_size f" using cur(6,7) by simp
    note step = chunk_loop_step [OF True cur(1) this room_def f'_def]
    show ?thesis
    proof (cases "cu_used cur + room = f_size f")
      case True
      define cur' where "cur' = next_file (cu_passed cur @ [f']) (cu_rest cur)"
      have "complete cd f' bs" using f' True cur(6) by (simp add: complete_def f'_def)
      with cur(3) have "list_all2 (complete cd) (cu_passed cur @ [f']) (cp @ [bs])"
        by (simp add: list_all2_appendI)
      from next_file_at_stream [OF this cur(4) strip]
      have at: "at_stream cd files contents cur' (concat cr)" by (simp add: cur'_def cur(5))
      have cr: "concat cr = drop (used + room) d @ later" using rest True cur(6) by simp
      have next_step: "chunk_loop dg c (length d) used cur =
          (if cu_file cur' = None then Some (Ok (cur', True)) else chunk_loop dg c (length d) (used + room) cur')"
        by (simp only: step True if_True simp_thms Let_def cur'_def)
      show ?thesis
      proof (cases "cu_file cur' = None")
        case True
        with at have "concat cr = []" by (auto simp: at_stream_def)
        with cr have "later = []" by simp
        with True at \<open>concat cr = []\<close> next_step show ?thesis by auto
      next
        case False
        with less.hyps [OF dec at cr room(2)] next_step show ?thesis by simp
      qed
    next
      case False
      define cur' where "cur' = cur\<lparr>cu_file := Some f', cu_used := cu_used cur + room\<rparr>"
      have "at_stream cd files contents cur' (drop (cu_used cur + room) bs @ concat cr)"
        using cur(3-6) f' False room(3) strip
        by (auto simp: at_stream_def cur'_def cursor_files_def f'_def)
      moreover have "chunk_loop dg c (length d) used cur = chunk_loop dg c (length d) (used + room) cur'"
        by (simp only: step False if_False cur'_def)
      ultimately show ?thesis using less.hyps [OF dec _ rest room(2)] by simp
    qed
  qed
qed

section \<open>The store behind the chunks\<close>

text \<open>
  What the builder relies on: the laws of the external crates, a content-addressed image, chunks that
  compress, a host that writes, and no SHA-256 collision among the byte strings involved.
\<close>

definition no_collision :: "'o env \<Rightarrow> bytes set \<Rightarrow> bool" where
  "no_collision env D \<longleftrightarrow> (\<forall>a\<in>D. \<forall>b\<in>D. env_sha256 env a = env_sha256 env b \<longrightarrow> a = b)"

lemma no_collision_subset: "no_collision env D \<Longrightarrow> D' \<subseteq> D \<Longrightarrow> no_collision env D'"
  by (auto simp: no_collision_def)

definition chunk_blobs :: "compression \<Rightarrow> bytes list \<Rightarrow> bytes set" where
  "chunk_blobs C ds = {stored_data C d z |d z. d \<in> set ds \<and> c_compress C d = Ok z}"

definition store_ok :: "'o env \<Rightarrow> compression \<Rightarrow> 'o Image \<Rightarrow> bytes list \<Rightarrow> bool" where
  "store_ok env C im ds \<longleftrightarrow>
     env_lawful env \<and> (C = Noop \<or> (\<exists>zc. C = Zstd zc \<and> zstd_lawful env zc)) \<and>
     (\<forall>name data. env_write_error env name data = None) \<and> (\<forall>name. env_reopen_error env name = None) \<and> content_addressed env im \<and>
     (\<forall>d\<in>set ds. length d < 2 ^ 63 \<and> (\<exists>z. c_compress C d = Ok z)) \<and>
     no_collision env (bf_data ` ran (im_blobs im) \<union> chunk_blobs C ds)"

definition image_le :: "'o Image \<Rightarrow> 'o Image \<Rightarrow> bool" where
  "image_le im im' \<longleftrightarrow> im_blobs im \<subseteq>\<^sub>m im_blobs im'"

lemma image_le_refl [simp]: "image_le im im"
  by (simp add: image_le_def)

lemma image_le_trans: "image_le a b \<Longrightarrow> image_le b c \<Longrightarrow> image_le a c"
  by (auto simp: image_le_def intro: map_le_trans)

lemma image_chunk_data_mono:
  assumes "image_le im im'" and "image_chunk_data (env, im, None) b = Some x"
  shows "image_chunk_data (env, im', None) b = Some x"
proof -
  from assms(2) obtain whole where w: "blob_contents env im None b = Some whole"
    by (auto simp: image_chunk_data_def split: option.splits)
  then obtain f where "im_blobs im (hex_encode (env_hex env) (br_digest b)) = Some f"
    by (auto simp: blob_contents_def file_verity_of_def open_raw_blob_def split: option.splits)
  with assms(1) have "im_blobs im' (hex_encode (env_hex env) (br_digest b)) = im_blobs im (hex_encode (env_hex env) (br_digest b))"
    by (auto simp: image_le_def map_le_def dom_def)
  then have "blob_contents env im' None b = blob_contents env im None b"
    by (simp add: blob_contents_def file_verity_of_def open_raw_blob_def)
  with assms(2) show ?thesis by (simp add: image_chunk_data_def)
qed

text \<open>A chunk list reads the same where every chunk still has its data.\<close>

lemma chunks_same:
  assumes "\<forall>k\<in>set cs. \<forall>x. cd (fc_blob k) = Some x \<longrightarrow> cd' (fc_blob k) = Some x" and "chunks_readable cd cs"
  shows "chunks_readable cd' cs \<and> file_bytes cd' cs = file_bytes cd cs"
  using assms by (induction cs) (auto simp: chunks_readable_Cons file_bytes_Cons chunks_readable_def [of _ "[]"])

lemma holds_mono:
  assumes "image_le im im'" and "holds (image_chunk_data (env, im, None)) f bs"
  shows "holds (image_chunk_data (env, im', None)) f bs"
  using assms chunks_same [of "f_chunks f" "image_chunk_data (env, im, None)" "image_chunk_data (env, im', None)"]
    image_chunk_data_mono [OF assms(1)] by (simp add: holds_def)

lemma at_stream_mono:
  assumes "image_le im im'" and "at_stream (image_chunk_data (env, im, None)) files contents cur left"
  shows "at_stream (image_chunk_data (env, im', None)) files contents cur left"
proof -
  have c: "list_all2 (complete (image_chunk_data (env, im, None))) fs bss \<Longrightarrow>
      list_all2 (complete (image_chunk_data (env, im', None))) fs bss" for fs bss
    by (erule list_all2_mono) (auto simp: complete_def intro: holds_mono [OF assms(1)])
  show ?thesis
    using assms(2) c holds_mono [OF assms(1)]
    by (fastforce simp: at_stream_def split: option.splits)
qed

lemma put_chunk_ok:
  assumes "store_ok env C im (d # ds)"
  shows "\<exists>desc v c im' m' dg. put_blob env C im d m ChunkMedia = Ok ((desc, v, c), im', m') \<and>
    Digest_try_from_str (env_hex env) (d_digest desc) = Ok (Digest dg) \<and>
    image_le im im' \<and> store_ok env C im' ds \<and>
    (\<forall>off\<le>length d. image_chunk_data (env, im', None)
      \<lparr>br_digest = dg, br_offset = of_nat off, br_compressed = c\<rparr> = Some (drop off d))"
proof -
  from assms obtain z where z: "c_compress C d = Ok z" and len: "length d < 2 ^ 63" by (auto simp: store_ok_def)
  from assms have env: "env_lawful env" "\<And>name data. env_write_error env name data = None" "\<And>name. env_reopen_error env name = None"
    and C: "C = Noop \<or> (\<exists>zc. C = Zstd zc \<and> zstd_lawful env zc)"
    and ca: "content_addressed env im"
    and nc: "no_collision env (bf_data ` ran (im_blobs im) \<union> chunk_blobs C (d # ds))"
    by (auto simp: store_ok_def)
  define st where "st = stored_data C d z"
  define name where "name = hex_encode (env_hex env) (env_sha256 env st)"
  have st: "st \<in> chunk_blobs C (d # ds)" using z by (auto simp: chunk_blobs_def st_def)
  have cf: "collision_free env im st"
    unfolding collision_free_def
  proof (intro allI impI)
    fix nm f
    assume "im_blobs im nm = Some f" and "env_sha256 env (bf_data f) = env_sha256 env st"
    moreover from this(1) have "bf_data f \<in> bf_data ` ran (im_blobs im)" by (auto simp: ran_def)
    ultimately show "bf_data f = st" using nc st unfolding no_collision_def by blast
  qed
  have same: "env_sha256 env (bf_data f) = env_sha256 env st" if "im_blobs im name = Some f" for f
    using that ca env(1) unfolding content_addressed_def name_def env_lawful_def hex_lawful_def
    by (metis option.inject)
  define im' where "im' = (case im_blobs im name of Some f \<Rightarrow> im
    | None \<Rightarrow> im\<lparr>im_blobs := (im_blobs im)(name \<mapsto> \<lparr>bf_data = st, bf_verity = False\<rparr>)\<rparr>)"
  have sb: "store_blob env im name (env_sha256 env st) st = Ok im'"
    using same env(2,3) by (auto simp: store_blob_def im'_def split: option.split)
  have dstr: "env_digest_from_str env (''sha256:'' @ hex_encode (env_hex env) (env_sha256 env st)) = Ok name"
    using env(1) by (simp add: env_lawful_def name_def)
  have "\<exists>desc v c m'. put_blob env C im d m ChunkMedia = Ok ((desc, v, c), im', m') \<and> d_digest desc = name"
    using z sb dstr unfolding put_blob_def Let_def st_def stored_data_def
    by (auto simp: get_fs_verity_digest_def)
  then obtain desc v c m' where put: "put_blob env C im d m ChunkMedia = Ok ((desc, v, c), im', m')"
    and desc: "d_digest desc = name" by blast
  let ?dg = "env_sha256 env st"
  have dg: "Digest_try_from_str (env_hex env) (d_digest desc) = Ok (Digest ?dg)"
    using env(1) by (simp add: desc name_def Digest_try_from_str_def decode_to_slice_encode env_lawful_def)
  have le: "image_le im im'"
    using store_blob_mono [OF sb] by (auto simp: image_le_def map_le_def dom_def)
  have ran: "bf_data ` ran (im_blobs im') \<subseteq> bf_data ` ran (im_blobs im) \<union> {st}"
    by (auto simp: im'_def ran_def split: option.splits if_splits)
  have "store_ok env C im' ds"
    unfolding store_ok_def
  proof (intro conjI)
    show "content_addressed env im'" by (rule store_blob_content_addressed [OF sb [unfolded name_def] ca])
    have "bf_data ` ran (im_blobs im') \<union> chunk_blobs C ds \<subseteq>
        bf_data ` ran (im_blobs im) \<union> chunk_blobs C (d # ds)"
      using ran st by (auto simp: chunk_blobs_def)
    with nc show "no_collision env (bf_data ` ran (im_blobs im') \<union> chunk_blobs C ds)"
      by (rule no_collision_subset)
  qed (use assms in \<open>auto simp: store_ok_def\<close>)
  moreover have "image_chunk_data (env, im', None)
      \<lparr>br_digest = ?dg, br_offset = of_nat off, br_compressed = c\<rparr> = Some (drop off d)" if "off \<le> length d" for off
  proof -
    have "unat (of_nat off :: u64) = off" using that len by (simp add: unat_of_nat)
    moreover have "blob_contents env im' None
        \<lparr>br_digest = ?dg, br_offset = of_nat off, br_compressed = c\<rparr> = Some d"
      using put_blob_contents [OF put env(1) C len _ dg] cf z by (simp add: st_def)
    ultimately show ?thesis using that by (simp add: image_chunk_data_def)
  qed
  ultimately show ?thesis using put dg le by blast
qed

lemma chunks_loop_spec:
  assumes "store_ok env C im ds" and "[] \<notin> set ds"
    and "at_stream (image_chunk_data (env, im, None)) files contents cur (concat ds)"
  shows "\<exists>cur' im' vd' m'. chunks_loop env C (map Ok ds) im vd m cur = Some (Ok (cur', im', vd', m')) \<and>
    image_le im im' \<and> content_addressed env im' \<and>
    at_stream (image_chunk_data (env, im', None)) files contents cur' []"
  using assms
proof (induction ds arbitrary: im vd m cur)
  case Nil
  then show ?case by (auto simp: store_ok_def)
next
  case (Cons d ds)
  from put_chunk_ok [OF Cons.prems(1), of m] obtain desc v c im1 m1 dg where
    put: "put_blob env C im d m ChunkMedia = Ok ((desc, v, c), im1, m1)"
    "Digest_try_from_str (env_hex env) (d_digest desc) = Ok (Digest dg)" and le: "image_le im im1"
    and ok: "store_ok env C im1 ds"
    and data: "\<And>off. off \<le> length d \<Longrightarrow> image_chunk_data (env, im1, None)
      \<lparr>br_digest = dg, br_offset = of_nat off, br_compressed = c\<rparr> = Some (drop off d)" by blast
  have len: "length d < 2 ^ 64" using Cons.prems(1) by (auto simp: store_ok_def)
  from at_stream_mono [OF le Cons.prems(3)]
  have "at_stream (image_chunk_data (env, im1, None)) files contents cur (concat (d # ds))" .
  from chunk_loop_spec [OF this _ _ len data, of 0 "concat ds"] obtain cur1 b where
    loop: "chunk_loop dg c (length d) 0 cur = Some (Ok (cur1, b))"
    and at1: "at_stream (image_chunk_data (env, im1, None)) files contents cur1 (concat ds)"
    and b: "b \<longrightarrow> cu_file cur1 = None" by auto
  show ?case
  proof (cases b)
    case True
    with b at1 have "concat ds = []" by (auto simp: at_stream_def)
    with Cons.prems(2) have "ds = []" by (cases ds) auto
    with put loop True le at1 ok show ?thesis by (auto simp: underlying_def Let_def store_ok_def)
  next
    case False
    from Cons.prems(2) have "[] \<notin> set ds" by simp
    from Cons.IH [OF ok this at1, of "btree_insert dg v vd" m1] put loop False le show ?thesis
      by (auto simp: underlying_def Let_def intro: image_le_trans)
  qed
qed

lemma process_chunks_spec:
  assumes "store_ok env C im ds" and "[] \<notin> set ds" and "list_all2 untouched files contents"
    and "concat ds = concat contents"
  shows "\<exists>files' im' vd' m'. process_chunks env C im (map Ok ds) files vd m = Some (Ok (files', im', vd', m')) \<and>
    image_le im im' \<and> content_addressed env im' \<and> map strip files' = map strip files \<and>
    list_all2 (holds (image_chunk_data (env, im', None))) files' contents"
proof -
  have "at_stream (image_chunk_data (env, im, None)) files ([] @ contents) (next_file [] files) (concat contents)"
    by (rule next_file_at_stream) (use assms(3) in auto)
  then have "at_stream (image_chunk_data (env, im, None)) files contents (next_file [] files) (concat ds)"
    using assms(4) by simp
  from chunks_loop_spec [OF assms(1,2) this] obtain cur' im' vd' m' where
    loop: "chunks_loop env C (map Ok ds) im vd m (next_file [] files) = Some (Ok (cur', im', vd', m'))"
    "image_le im im'" "content_addressed env im'"
    and at: "at_stream (image_chunk_data (env, im', None)) files contents cur' []" by blast
  have none: "cu_file cur' = None" using at by (auto simp: at_stream_def split: option.splits)
  with at have "list_all2 (complete (image_chunk_data (env, im', None))) (cu_passed cur') contents"
    "cursor_files cur' = cu_passed cur'" by (auto simp: at_stream_def cursor_files_def)
  then have "list_all2 (holds (image_chunk_data (env, im', None))) (cursor_files cur') contents"
    by (auto simp: complete_def elim: list_all2_mono)
  with loop at show ?thesis by (auto simp: process_chunks_def at_stream_def)
qed

section \<open>What every run keeps\<close>

text \<open>
  Whenever the loops return, they have only appended chunks to the files, with 32-byte digests that are
  recorded in the verity data, and the verity data stays a well-formed map.
\<close>

definition refs_wf :: "bfile list \<Rightarrow> bool" where
  "refs_wf fs \<longleftrightarrow> (\<forall>f\<in>set fs. \<forall>k\<in>set (f_chunks f). wf_BlobRef (fc_blob k))"

definition chunk_digests :: "bfile list \<Rightarrow> bytes set" where
  "chunk_digests fs = (\<Union>f\<in>set fs. (\<lambda>k. br_digest (fc_blob k)) ` set (f_chunks f))"

lemma chunk_digests_Cons: "chunk_digests [] = {}"
  "chunk_digests (f # fs) = (\<lambda>k. br_digest (fc_blob k)) ` set (f_chunks f) \<union> chunk_digests fs"
  by (simp_all add: chunk_digests_def)

lemma refs_wf_digests: "refs_wf fs \<longleftrightarrow> (\<forall>d\<in>chunk_digests fs. length d = SHA256_BLOCK_SIZE)"
  by (auto simp: refs_wf_def chunk_digests_def wf_BlobRef_def)

definition files_extended :: "bytes set \<Rightarrow> bfile list \<Rightarrow> bfile list \<Rightarrow> bool" where
  "files_extended D fs fs' \<longleftrightarrow> map strip fs' = map strip fs \<and> chunk_digests fs' \<subseteq> chunk_digests fs \<union> D"

lemma files_extended_refl [simp]: "files_extended D fs fs"
  by (simp add: files_extended_def)

lemma files_extended_trans: "files_extended D a b \<Longrightarrow> files_extended D b c \<Longrightarrow> files_extended D a c"
  unfolding files_extended_def by (metis Un_subset_iff Un_upper2 subset_trans)

lemma files_extended_mono: "files_extended D a b \<Longrightarrow> D \<subseteq> E \<Longrightarrow> files_extended E a b"
  unfolding files_extended_def by blast

lemma cursor_files_next_file [simp]: "cursor_files (next_file passed rest) = passed @ rest"
  by (induction passed rest rule: next_file.induct) (auto simp: cursor_files_def)

lemma files_extended_push:
  assumes "cu_file cur = Some f"
  shows "files_extended {dg} (cursor_files cur) (cu_passed cur @ push_chunk dg c u r f # cu_rest cur)"
  using assms by (auto simp: files_extended_def cursor_files_def chunk_digests_def push_chunk_def strip_def)

lemma chunk_loop_extends:
  assumes "chunk_loop dg c len used cur = Some (Ok (cur', b))"
  shows "files_extended {dg} (cursor_files cur) (cursor_files cur')"
proof -
  have "\<forall>cur' b. y = Ok (cur', b) \<longrightarrow> files_extended {dg} (cursor_files cur) (cursor_files cur')"
    if "chunk_loop dg c len used cur = Some y" for y
    using that
    apply (rule chunk_loop.raw_induct [rotated, where P = "\<lambda>dg c len used cur y. \<forall>cur' b. y = Ok (cur', b) \<longrightarrow>
      files_extended {dg} (cursor_files cur) (cursor_files cur')"])
    subgoal premises prems for loop dg c len used cur y
    proof (intro allI impI)
      fix cur' b
      assume y: "y = Ok (cur', b)"
      show "files_extended {dg} (cursor_files cur) (cursor_files cur')"
      proof (cases "used < len")
        case False
        with prems(2) y show ?thesis by auto
      next
        case True
        with prems(2) y obtain f where f: "cu_file cur = Some f" "\<not> f_size f < cu_used cur"
          by (auto split: option.splits if_splits)
        define room where "room = min (f_size f - cu_used cur) (len - used)"
        define g where "g = push_chunk dg c used room f"
        define cn where "cn = next_file (cu_passed cur @ [g]) (cu_rest cur)"
        define cs where "cs = cur\<lparr>cu_file := Some g, cu_used := cu_used cur + room\<rparr>"
        note ext = files_extended_push [OF f(1), of dg c used room, folded g_def]
        have files: "cursor_files cn = cu_passed cur @ g # cu_rest cur" "cursor_files cs = cu_passed cur @ g # cu_rest cur"
          by (simp_all add: cn_def) (simp add: cs_def cursor_files_def)
        from prems(2) True f have "(if cu_used cur + room = f_size f
            then if cu_file cn = None then Some (Ok (cn, True)) else loop dg c len (used + room) cn
            else loop dg c len (used + room) cs) = Some y"
          by (simp only: if_True if_False option.case Let_def cn_def cs_def g_def room_def)
        then have "cn = cur' \<or> loop dg c len (used + room) cn = Some y \<or> loop dg c len (used + room) cs = Some y"
          by (auto simp: y split: if_splits)
        then show ?thesis
          using ext prems(1) [of dg c len "used + room"] y files by (metis files_extended_trans)
      qed
    qed
    done
  with assms show ?thesis by blast
qed

lemma chunks_loop_extends:
  assumes "chunks_loop env C results im vd m cur = Some (Ok (cur', im', vd', m'))"
  shows "(\<exists>D. files_extended D (cursor_files cur) (cursor_files cur') \<and> (\<forall>d\<in>D. length d = SHA256_BLOCK_SIZE) \<and>
      D \<union> fst ` set vd \<subseteq> fst ` set vd') \<and>
    ((\<forall>data. length (env_fs_verity_sha256 env data) = SHA256_BLOCK_SIZE) \<longrightarrow> wf_VerityData vd \<longrightarrow> wf_VerityData vd')"
  using assms
proof (induction results arbitrary: im vd m cur)
  case Nil
  then show ?case by (auto intro: exI [of _ "{}"])
next
  case (Cons r rs)
  then obtain data where r: "r = Ok data" by (auto split: outcome.splits)
  from Cons.prems r obtain desc v c im1 m1 dg where
    put: "put_blob env C im data m ChunkMedia = Ok ((desc, v, c), im1, m1)"
    and dg: "Digest_try_from_str (env_hex env) (d_digest desc) = Ok dg"
    by (auto split: outcome.splits)
  let ?dg = "underlying dg" and ?vd = "btree_insert (underlying dg) v vd"
  have len: "length ?dg = SHA256_BLOCK_SIZE"
    using dg by (auto simp: Digest_try_from_str_def underlying_def dest: decode_to_slice_length)
  have v: "\<exists>z. v = env_fs_verity_sha256 env z"
    using put by (auto simp: put_blob_def Let_def get_fs_verity_digest_def)
  have wf: "wf_VerityData ?vd" if "\<forall>data. length (env_fs_verity_sha256 env data) = SHA256_BLOCK_SIZE" "wf_VerityData vd"
    using that v len btree_insert_subset [of ?dg v vd] by (auto simp: wf_VerityData_def btree_invar_insert)
  from Cons.prems r put dg obtain cur1 b where
    loop: "chunk_loop ?dg c (length data) 0 cur = Some (Ok (cur1, b))"
    by (auto simp: Let_def split: option.splits outcome.splits)
  note ext = chunk_loop_extends [OF loop]
  show ?case
  proof (cases b)
    case True
    with Cons.prems r put dg loop have "cur' = cur1" "vd' = ?vd" by (auto simp: Let_def split: if_splits)
    with ext len wf show ?thesis by (auto simp: btree_insert_keys intro!: exI [of _ "{?dg}"])
  next
    case False
    with Cons.prems r put dg loop have "chunks_loop env C rs im1 ?vd m1 cur1 = Some (Ok (cur', im', vd', m'))"
      by (simp add: Let_def)
    from Cons.IH [OF this] obtain D where D: "files_extended D (cursor_files cur1) (cursor_files cur')"
      "\<forall>d\<in>D. length d = SHA256_BLOCK_SIZE" "D \<union> insert ?dg (fst ` set vd) \<subseteq> fst ` set vd'"
      and wf': "(\<forall>data. length (env_fs_verity_sha256 env data) = SHA256_BLOCK_SIZE) \<longrightarrow> wf_VerityData ?vd \<longrightarrow> wf_VerityData vd'"
      by (auto simp: btree_insert_keys)
    have "files_extended (insert ?dg D) (cursor_files cur) (cursor_files cur')"
      using files_extended_trans [OF files_extended_mono [OF ext] files_extended_mono [OF D(1)], of "insert ?dg D"] by blast
    moreover have "\<forall>d\<in>insert ?dg D. length d = SHA256_BLOCK_SIZE" "insert ?dg D \<union> fst ` set vd \<subseteq> fst ` set vd'"
      using D(2,3) len by auto
    ultimately show ?thesis using wf wf' by blast
  qed
qed

lemma process_chunks_extends:
  assumes "process_chunks env C im results files vd m = Some (Ok (files', im', vd', m'))"
  shows "map strip files' = map strip files" "refs_wf files \<Longrightarrow> refs_wf files'"
    "chunk_digests files' \<subseteq> chunk_digests files \<union> fst ` set vd'"
    "\<forall>data. length (env_fs_verity_sha256 env data) = SHA256_BLOCK_SIZE \<Longrightarrow> wf_VerityData vd \<Longrightarrow> wf_VerityData vd'"
proof -
  from assms obtain cur' where cur': "chunks_loop env C results im vd m (next_file [] files) = Some (Ok (cur', im', vd', m'))"
    "files' = cursor_files cur'" by (auto simp: process_chunks_def)
  from chunks_loop_extends [OF this(1)] obtain D where D: "files_extended D files files'"
    "\<forall>d\<in>D. length d = SHA256_BLOCK_SIZE" "D \<subseteq> fst ` set vd'"
    and wf: "(\<forall>data. length (env_fs_verity_sha256 env data) = SHA256_BLOCK_SIZE) \<longrightarrow> wf_VerityData vd \<longrightarrow> wf_VerityData vd'"
    by (auto simp: cur'(2))
  from D show "map strip files' = map strip files" "refs_wf files \<Longrightarrow> refs_wf files'"
    "chunk_digests files' \<subseteq> chunk_digests files \<union> fst ` set vd'"
    unfolding files_extended_def refs_wf_digests by blast+
  from wf show "\<forall>data. length (env_fs_verity_sha256 env data) = SHA256_BLOCK_SIZE \<Longrightarrow> wf_VerityData vd \<Longrightarrow> wf_VerityData vd'"
    by blast
qed

end
