(* ===== verification/Builder.thy ===== *)
theory Builder
  imports Pfs Fs_Stream Chunking "HOL-Library.AList" "HOL-Library.Multiset"
begin

text \<open>
  \<open>puzzlefs-lib/src/builder.rs\<close>: building an image layer from a directory tree of the host, writing
  the rootfs, and enabling fs-verity. The host's file system, the directory walker (\<open>walkdir\<close>) and
  the chunker (\<open>fastcdc\<close>) are the fields of the record \<open>host\<close>; the manifest operations of \<open>ocidir\<close>
  are the fields of \<open>registry\<close>. A \<open>HashMap\<close> is an association list, and the order in which
  \<open>into_values\<close> yields it is the host's choice.
\<close>

section \<open>The host\<close>

record Dir =
  bd_ino :: u64
  bd_entries :: "DirEnt list"
  bd_md :: host_metadata
  bd_additional :: "InodeAdditional option"

record Other =
  bo_ino :: u64
  bo_md :: host_metadata
  bo_additional :: "InodeAdditional option"

record host =
  h_walk_dirs :: "path \<Rightarrow> path io_result list"  \<comment> \<open>\<open>walker\<close> with \<open>filter_entry\<close>: the directories\<close>
  h_symlink_metadata :: "path \<Rightarrow> host_metadata io_result"
  h_read_dir :: "path \<Rightarrow> bytes io_result list io_result"  \<comment> \<open>the names of the entries\<close>
  h_read_link :: "path \<Rightarrow> bytes io_result"
  h_xattr_list :: "path \<Rightarrow> bytes list io_result"
  h_xattr_get :: "path \<Rightarrow> bytes \<Rightarrow> bytes option io_result"
  h_major :: "u64 \<Rightarrow> u64"
  h_minor :: "u64 \<Rightarrow> u64"
  h_stream_cdc :: "u32 \<Rightarrow> u32 \<Rightarrow> u32 \<Rightarrow> path FilesystemStream \<Rightarrow> (io_error, bytes) outcome list"  \<comment> \<open>\<open>StreamCDC\<close>\<close>
  h_values :: "Dir list \<Rightarrow> Dir list"  \<comment> \<open>the order of \<open>HashMap::into_values\<close>\<close>

text \<open>The chunk sizes of \<open>common.rs\<close> and the chunker that \<open>build_delta\<close> makes with them.\<close>

definition MIN_CHUNK_SIZE :: u32 where
  "MIN_CHUNK_SIZE = 16 * 1024"

definition AVG_CHUNK_SIZE :: u32 where
  "AVG_CHUNK_SIZE = 64 * 1024"

definition MAX_CHUNK_SIZE :: u32 where
  "MAX_CHUNK_SIZE = 256 * 1024"

definition h_chunker :: "host \<Rightarrow> path FilesystemStream \<Rightarrow> (io_error, bytes) outcome list" where
  "h_chunker h s = h_stream_cdc h MIN_CHUNK_SIZE AVG_CHUNK_SIZE MAX_CHUNK_SIZE s"

section \<open>Rendering\<close>

definition add_entry :: "bytes \<Rightarrow> Ino \<Rightarrow> Dir \<Rightarrow> Dir" where
  "add_entry name ino d = d\<lparr>bd_entries := bd_entries d @ [\<lparr>de_ino = ino, de_name = name\<rparr>]\<rparr>"

definition serialize_metadata :: "'o env \<Rightarrow> Rootfs \<Rightarrow> bytes wire_result" where
  "serialize_metadata env rootfs = and_then (Rootfs_fill_capnp rootfs) (env_write_message env)"

record build_state =
  bs_dirs :: "(u64 \<times> Dir) list"
  bs_files :: "bfile list"
  bs_others :: "Other list"
  bs_inodes :: "Inode list"
  bs_stream :: "path FilesystemStream"
  bs_host_to_pfs :: "u64 \<rightharpoonup> Ino"
  bs_next_ino :: u64

text \<open>\<open>next_ino += 1\<close> and \<open>i + 1\<close> on \<open>u64\<close>.\<close>

definition next_u64 :: "u64 \<Rightarrow> ('e, u64) outcome" where
  "next_u64 i = (if unat i + 1 < 2 ^ 64 then Ok (i + 1) else Panic ArithOverflow)"

definition additional_of :: "host \<Rightarrow> path \<Rightarrow> host_metadata \<Rightarrow> InodeAdditional option wire_result" where
  "additional_of h p md =
     map_err IOError (InodeAdditional_new (h_read_link h) (h_xattr_list h) (h_xattr_get h) p md)"

definition lookup_existing :: "'o PuzzleFS option \<Rightarrow> path \<Rightarrow> Inode option wire_result" where
  "lookup_existing existing p =
     (case existing of None \<Rightarrow> Ok None | Some pfs \<Rightarrow> PuzzleFS_lookup pfs p)"

text \<open>\<open>Path::strip_prefix\<close>, whose failure the closure \<open>rootfs_relative\<close> unwraps.\<close>

definition rootfs_relative :: "path \<Rightarrow> path \<Rightarrow> path wire_result" where
  "rootfs_relative rootfs p =
     (if take (length rootfs) p = rootfs then Ok (RootDir # drop (length rootfs) p)
      else Panic UnwrapFailed)"

definition file_name :: "path \<Rightarrow> bytes" where
  "file_name p = (if p = [] then [] else case last p of Normal n \<Rightarrow> n | _ \<Rightarrow> [])"

text \<open>\<open>dirs.get_mut(&ino)\<close> followed by \<open>add_entry\<close>.\<close>

definition dirs_add_entry :: "u64 \<Rightarrow> bytes \<Rightarrow> Ino \<Rightarrow> (u64 \<times> Dir) list \<Rightarrow> (u64 \<times> Dir) list" where
  "dirs_add_entry host_ino name ino dirs =
     (case map_of dirs host_ino of
        None \<Rightarrow> dirs
      | Some d \<Rightarrow> AList.update host_ino (add_entry name ino d) dirs)"

text \<open>The loop that adds whiteouts for the existing entries that are gone.\<close>

fun add_whiteouts :: "bytes list \<Rightarrow> u64 \<Rightarrow> build_state \<Rightarrow> DirEnt list \<Rightarrow> build_state" where
  "add_whiteouts new_names host_ino st [] = st"
| "add_whiteouts new_names host_ino st (dir_ent # dir_ents) =
     (if de_name dir_ent \<in> set new_names then add_whiteouts new_names host_ino st dir_ents
      else
        add_whiteouts new_names host_ino
          (st\<lparr>bs_inodes := bs_inodes st @ [new_whiteout (de_ino dir_ent)],
              bs_dirs := dirs_add_entry host_ino (de_name dir_ent) (de_ino dir_ent) (bs_dirs st)\<rparr>)
          dir_ents)"

text \<open>The inode number of an entry: the existing one, or the next free one.\<close>

definition take_ino :: "Inode option \<Rightarrow> build_state \<Rightarrow> (Ino \<times> build_state) wire_result" where
  "take_ino existing_inode st =
     (case existing_inode of
        Some ex \<Rightarrow> Ok (i_ino ex, st)
      | None \<Rightarrow> and_then (next_u64 (bs_next_ino st)) (\<lambda>n. Ok (bs_next_ino st, st\<lparr>bs_next_ino := n\<rparr>)))"

definition add_to_parent ::
    "host \<Rightarrow> path \<Rightarrow> host_metadata \<Rightarrow> Ino \<Rightarrow> build_state \<Rightarrow> build_state wire_result" where
  "add_to_parent h p md cur_ino st =
     (let the_ino = (case bs_host_to_pfs st (md_ino md) of Some i \<Rightarrow> i | None \<Rightarrow> cur_ino) in
      if p = [] \<or> last p = RootDir then Err (IOError (CustomError OtherKind))
      else
        and_then (map_err IOError (h_symlink_metadata h (pop p))) (\<lambda>parent_md.
        if map_of (bs_dirs st) (md_ino parent_md) = None then Err (IOError (CustomError OtherKind))
        else Ok (st\<lparr>bs_dirs := dirs_add_entry (md_ino parent_md) (file_name p) the_ino (bs_dirs st)\<rparr>)))"

definition render_entry ::
    "host \<Rightarrow> path \<Rightarrow> host_metadata \<Rightarrow> Ino \<Rightarrow> build_state \<Rightarrow> build_state wire_result" where
  "render_entry h p md cur_ino st =
     (let st = st\<lparr>bs_host_to_pfs := (bs_host_to_pfs st)(md_ino md \<mapsto> cur_ino)\<rparr> in
      and_then (additional_of h p md) (\<lambda>additional.
        Ok (case md_file_type md of
            FtDir \<Rightarrow> st\<lparr>bs_dirs := AList.update (md_ino md)
              \<lparr>bd_ino = cur_ino, bd_entries = [], bd_md = md, bd_additional = additional\<rparr> (bs_dirs st)\<rparr>
          | FtFile \<Rightarrow> st\<lparr>bs_stream := FilesystemStream_push (bs_stream st) p,
              bs_files := bs_files st @
                [\<lparr>f_ino = cur_ino, f_chunks = [], f_md = md, f_additional = additional\<rparr>]\<rparr>
          | _ \<Rightarrow> st\<lparr>bs_others := bs_others st @
              [\<lparr>bo_ino = cur_ino, bo_md = md, bo_additional = additional\<rparr>]\<rparr>)))"

text \<open>The body of the loop \<open>for e in new_dirents\<close>, for the entry at path \<open>p\<close>.\<close>

definition visit_entry ::
    "host \<Rightarrow> 'o PuzzleFS option \<Rightarrow> path \<Rightarrow> build_state \<Rightarrow> path \<Rightarrow> build_state wire_result" where
  "visit_entry h existing rootfs st p =
     and_then (map_err IOError (h_symlink_metadata h p)) (\<lambda>md.
     and_then (case existing of
         None \<Rightarrow> Ok None
       | Some pfs \<Rightarrow> and_then (rootfs_relative rootfs p) (PuzzleFS_lookup pfs)) (\<lambda>existing_inode.
     and_then (take_ino existing_inode st) (\<lambda>(cur_ino, st).
     if cur_ino \<noteq> 1 then
       and_then (add_to_parent h p md cur_ino st) (\<lambda>st.
         if bs_host_to_pfs st (md_ino md) \<noteq> None then Ok st else render_entry h p md cur_ino st)
     else render_entry h p md cur_ino st)))"

fun visit_entries ::
    "host \<Rightarrow> 'o PuzzleFS option \<Rightarrow> path \<Rightarrow> build_state \<Rightarrow> path list \<Rightarrow> build_state wire_result" where
  "visit_entries h existing rootfs st [] = Ok st"
| "visit_entries h existing rootfs st (p # ps) =
     and_then (visit_entry h existing rootfs st p) (\<lambda>st. visit_entries h existing rootfs st ps)"

text \<open>The body of the loop \<open>for dir in rootfs_dirs\<close>.\<close>

definition visit_dir ::
    "host \<Rightarrow> 'o PuzzleFS option \<Rightarrow> path \<Rightarrow> build_state \<Rightarrow> path \<Rightarrow> build_state wire_result" where
  "visit_dir h existing rootfs st d =
     and_then (rootfs_relative rootfs d) (\<lambda>dir_path.
     and_then (lookup_existing existing dir_path) (\<lambda>ex.
     let existing_dirents =
       (case ex of Some i \<Rightarrow> (case i_mode i of InodeMode.Dir dl \<Rightarrow> dl_entries dl | _ \<Rightarrow> []) | None \<Rightarrow> []) in
     and_then (map_err IOError (h_read_dir h d)) (\<lambda>results.
     and_then (map_err IOError (collect (\<lambda>r. r) results)) (\<lambda>names.
     let new_paths = map (join d) (sort names) in
     and_then (map_err IOError (h_symlink_metadata h d)) (\<lambda>this_metadata.
     if map_of (bs_dirs st) (md_ino this_metadata) = None then Err (from_errno ENOENT)
     else
       visit_entries h existing rootfs
         (add_whiteouts (map file_name new_paths) (md_ino this_metadata) st existing_dirents)
         new_paths)))))"

fun visit_dirs ::
    "host \<Rightarrow> 'o PuzzleFS option \<Rightarrow> path \<Rightarrow> build_state \<Rightarrow> path io_result list \<Rightarrow> build_state wire_result" where
  "visit_dirs h existing rootfs st [] = Ok st"
| "visit_dirs h existing rootfs st (dir # dirs) =
     and_then (map_err IOError dir) (\<lambda>d.
     and_then (visit_dir h existing rootfs st d) (\<lambda>st. visit_dirs h existing rootfs st dirs))"

text \<open>The state before the walk: the root directory is inode 1.\<close>

definition start_state :: "host \<Rightarrow> 'o PuzzleFS option \<Rightarrow> path \<Rightarrow> build_state wire_result" where
  "start_state h existing rootfs =
     and_then (case existing of
         None \<Rightarrow> Ok 2
       | Some pfs \<Rightarrow> and_then (PuzzleFS_max_inode pfs) next_u64) (\<lambda>next_ino.
     and_then (map_err IOError (h_symlink_metadata h rootfs)) (\<lambda>root_metadata.
     and_then (additional_of h rootfs root_metadata) (\<lambda>root_additional.
       Ok \<lparr>bs_dirs = [(md_ino root_metadata,
             \<lparr>bd_ino = 1, bd_entries = [], bd_md = root_metadata, bd_additional = root_additional\<rparr>)],
           bs_files = [], bs_others = [], bs_inodes = [], bs_stream = FilesystemStream_new,
           bs_host_to_pfs = (\<lambda>i. None), bs_next_ino = next_ino\<rparr>)))"

text \<open>
  \<open>h_walk_dirs\<close> stands for the walker with its filter: the directories of one file system, in the order of the
  \<open>walkdir\<close> crate.
\<close>

definition scan_rootfs :: "host \<Rightarrow> 'o PuzzleFS option \<Rightarrow> path \<Rightarrow> build_state wire_result" where
  "scan_rootfs h existing rootfs =
     and_then (start_state h existing rootfs) (\<lambda>st. visit_dirs h existing rootfs st (h_walk_dirs h rootfs))"

definition render_dir :: "Dir \<Rightarrow> Inode wire_result" where
  "render_dir d = map_err IOError
     (new_dir (bd_ino d) (bd_md d) \<lparr>dl_look_below = False, dl_entries = bd_entries d\<rparr> (bd_additional d))"

definition render_file :: "bfile \<Rightarrow> Inode wire_result" where
  "render_file f = map_err IOError (new_file (f_ino f) (f_md f) (f_chunks f) (f_additional f))"

definition render_other :: "host \<Rightarrow> Other \<Rightarrow> Inode wire_result" where
  "render_other h x = map_err IOError (new_other (h_major h) (h_minor h) (bo_ino x) (bo_md x) (bo_additional x))"

text \<open>The inodes of the layer, sorted by number with a stable sort.\<close>

definition render_inodes :: "host \<Rightarrow> build_state \<Rightarrow> bfile list \<Rightarrow> Inode list wire_result" where
  "render_inodes h st files =
     and_then (collect render_dir (h_values h (map snd (bs_dirs st)))) (\<lambda>dirs.
     and_then (collect render_file files) (\<lambda>regular.
     and_then (collect (render_other h) (bs_others st)) (\<lambda>others.
       Ok (sort_key i_ino (bs_inodes st @ dirs @ regular @ others)))))"

definition build_delta ::
    "host \<Rightarrow> 'o env \<Rightarrow> compression \<Rightarrow> path \<Rightarrow> 'o Image \<Rightarrow> 'o PuzzleFS option \<Rightarrow> VerityData \<Rightarrow> ImageManifest \<Rightarrow>
     (Inode list \<times> 'o Image \<times> VerityData \<times> ImageManifest) wire_result option" where
  "build_delta h env C rootfs im existing verity_data image_manifest =
     (case scan_rootfs h existing rootfs of
        Err e \<Rightarrow> Some (Err e)
      | Panic p \<Rightarrow> Some (Panic p)
      | Ok st \<Rightarrow>
          map_option (\<lambda>r. and_then r (\<lambda>(files, im', vd, m).
              and_then (render_inodes h st files) (\<lambda>inodes. Ok (inodes, im', vd, m))))
            (process_chunks env C im (h_chunker h (bs_stream st)) (bs_files st) verity_data image_manifest))"

section \<open>Writing an image\<close>

text \<open>The manifest operations of \<open>ocidir\<close>: \<open>new_empty_manifest().build()\<close> and \<open>insert_manifest\<close>.\<close>

record 'o registry =
  rg_empty_manifest :: "'o Image \<Rightarrow> ImageManifest wire_result"
  rg_insert_manifest :: "'o Image \<Rightarrow> ImageManifest \<Rightarrow> string \<Rightarrow> 'o Image wire_result"

text \<open>The common tail: the rootfs becomes a blob, and the manifest is inserted under the tag.\<close>

definition write_rootfs ::
    "'o env \<Rightarrow> 'o registry \<Rightarrow> Rootfs \<Rightarrow> 'o Image \<Rightarrow> ImageManifest \<Rightarrow> string \<Rightarrow>
     (Descriptor \<times> 'o Image) wire_result" where
  "write_rootfs env rg rootfs im image_manifest tag =
     and_then (serialize_metadata env rootfs) (\<lambda>rootfs_buf.
     and_then (put_blob env Noop im rootfs_buf image_manifest RootfsMedia) (\<lambda>((desc, _, _), im', m').
     and_then (rg_insert_manifest rg im' m' tag) (\<lambda>im''. Ok (desc, im''))))"

definition build_initial_rootfs ::
    "host \<Rightarrow> 'o env \<Rightarrow> 'o registry \<Rightarrow> compression \<Rightarrow> path \<Rightarrow> 'o Image \<Rightarrow> string \<Rightarrow>
     (Descriptor \<times> 'o Image) wire_result option" where
  "build_initial_rootfs h env rg C rootfs im tag =
     (case rg_empty_manifest rg im of
        Err e \<Rightarrow> Some (Err e)
      | Panic p \<Rightarrow> Some (Panic p)
      | Ok image_manifest \<Rightarrow>
          map_option (\<lambda>r. and_then r (\<lambda>(inodes, im', verity_data, m).
              write_rootfs env rg
                \<lparr>rf_metadatas = [inodes], rf_fs_verity_data = verity_data,
                 rf_manifest_version = PUZZLEFS_IMAGE_MANIFEST_VERSION\<rparr> im' m tag))
            (build_delta h env C rootfs im None [] image_manifest))"

definition add_rootfs_delta ::
    "host \<Rightarrow> 'o env \<Rightarrow> 'o registry \<Rightarrow> compression \<Rightarrow> path \<Rightarrow> 'o Image \<Rightarrow> string \<Rightarrow> string \<Rightarrow>
     (Descriptor \<times> 'o Image) wire_result option" where
  "add_rootfs_delta h env rg C rootfs_path im tag base_layer =
     (case and_then (rg_empty_manifest rg im) (\<lambda>image_manifest.
           and_then (PuzzleFS_open env im base_layer None) (\<lambda>pfs.
           and_then (and_then (open_rootfs_blob env im base_layer None) Rootfs_try_from) (\<lambda>rootfs.
             Ok (image_manifest, pfs, rootfs)))) of
        Err e \<Rightarrow> Some (Err e)
      | Panic p \<Rightarrow> Some (Panic p)
      | Ok (image_manifest, pfs, rootfs) \<Rightarrow>
          map_option (\<lambda>r. and_then r (\<lambda>(inodes, im', verity_data, m).
              write_rootfs env rg
                (rootfs\<lparr>rf_metadatas :=
                    (if inodes \<in> set (rf_metadatas rootfs) then rf_metadatas rootfs
                     else inodes # rf_metadatas rootfs),
                  rf_fs_verity_data := insert_all btree_insert (rf_fs_verity_data rootfs) verity_data\<rparr>)
                im' m tag))
            (build_delta h env C rootfs_path im (Some pfs) [] image_manifest))"

section \<open>Enabling fs-verity\<close>

text \<open>
  \<open>enable\<close> is \<open>fs_verity::linux::fsverity_enable\<close>: the file with fs-verity on, or an error. The file is
  the blob called \<open>name\<close>.
\<close>

definition open_blob :: "'o Image \<Rightarrow> string \<Rightarrow> blob_file wire_result" where
  "open_blob im name = ok_or (im_blobs im name) (from_errno ENOENT)"

definition enable_verity_for_file ::
    "(blob_file \<Rightarrow> blob_file io_result) \<Rightarrow> 'o Image \<Rightarrow> string \<Rightarrow> 'o Image wire_result" where
  "enable_verity_for_file enable im name =
     and_then (open_blob im name) (\<lambda>file.
       case enable file of
         Ok file' \<Rightarrow> Ok (im\<lparr>im_blobs := (im_blobs im)(name \<mapsto> file')\<rparr>)
       | Err e \<Rightarrow> if io_kind e \<noteq> AlreadyExists then Err (IOError e) else Ok im
       | Panic p \<Rightarrow> Panic p)"

definition enable_and_check_verity_for_file ::
    "'o env \<Rightarrow> (blob_file \<Rightarrow> blob_file io_result) \<Rightarrow> 'o Image \<Rightarrow> string \<Rightarrow> bytes \<Rightarrow> 'o Image wire_result" where
  "enable_and_check_verity_for_file env enable im name expected =
     and_then (enable_verity_for_file enable im name) (\<lambda>im'.
     and_then (open_blob im' name) (\<lambda>file.
     and_then (check_fs_verity env file expected) (\<lambda>_. Ok im')))"

fun enable_chunks ::
    "'o env \<Rightarrow> (blob_file \<Rightarrow> blob_file io_result) \<Rightarrow> 'o Image \<Rightarrow> VerityData \<Rightarrow> 'o Image wire_result" where
  "enable_chunks env enable im [] = Ok im"
| "enable_chunks env enable im ((content_addressed_file, verity_hash) # vd) =
     and_then (enable_and_check_verity_for_file env enable im
         (Digest_to_string (env_hex env) (Digest_new content_addressed_file)) verity_hash)
       (\<lambda>im'. enable_chunks env enable im' vd)"

definition enable_fs_verity ::
    "'o env \<Rightarrow> (blob_file \<Rightarrow> blob_file io_result) \<Rightarrow> 'o Image \<Rightarrow> string \<Rightarrow> string \<Rightarrow> 'o Image wire_result" where
  "enable_fs_verity env enable im tag manifest_root_hash =
     and_then (get_image_manifest_fd env im tag) (\<lambda>_.
     and_then (ok_or (hex_decode (env_hex env) manifest_root_hash) HexError) (\<lambda>root_hash.
     and_then (env_find_manifest_descriptor_with_tag env im tag) (\<lambda>d.
     and_then (ok_or d (MissingManifest tag)) (\<lambda>manifest_desc.
     and_then (enable_and_check_verity_for_file env enable im (d_digest manifest_desc) root_hash) (\<lambda>im.
     and_then (PuzzleFS_open env im tag None) (\<lambda>pfs.
     and_then (open_rootfs_blob env im tag None) (\<lambda>rootfs.
     and_then (get_pfs_rootfs env im tag None) (\<lambda>_.
     and_then (get_pfs_rootfs_verity env im tag) (\<lambda>rootfs_verity.
     and_then (find_manifest env im tag) (\<lambda>manifest.
     and_then (find_rootfs_desc manifest) (\<lambda>rootfs_desc.
     and_then (enable_and_check_verity_for_file env enable im (d_digest rootfs_desc) rootfs_verity) (\<lambda>im.
     and_then (find_manifest env im tag) (\<lambda>manifest.
     and_then (enable_verity_for_file enable im (d_digest (m_config manifest))) (\<lambda>im.
     and_then (RootfsReader_get_verity_data rootfs) (\<lambda>verity_data.
       enable_chunks env enable im verity_data)))))))))))))))"

section \<open>Lemmas on the association lists\<close>

lemma map_of_mem_snd: "map_of xs k = Some v \<Longrightarrow> v \<in> snd ` set xs"
  by (induction xs) (auto split: if_splits)

lemma set_snd_update: "snd ` set (AList.update k v xs) \<subseteq> insert v (snd ` set xs)"
  by (induction xs) auto

lemma ball_snd_update: "\<forall>d\<in>snd ` set xs. P d \<Longrightarrow> P v \<Longrightarrow> \<forall>d\<in>snd ` set (AList.update k v xs). P d"
  using set_snd_update [of k v xs] by blast

lemma map_update_same:
  "map_of xs k = Some v \<Longrightarrow> g w = g v \<Longrightarrow> map (\<lambda>x. g (snd x)) (AList.update k w xs) = map (\<lambda>x. g (snd x)) xs"
  by (induction xs) (auto split: if_splits)

lemma image_snd_update:
  "(\<lambda>x. g (snd x)) ` set (AList.update k v xs) \<subseteq> insert (g v) ((\<lambda>x. g (snd x)) ` set xs)"
  by (induction xs) auto

lemma distinct_update_snd:
  assumes "distinct (map (\<lambda>x. g (snd x)) xs)" and "g v \<notin> (\<lambda>x. g (snd x)) ` set xs"
  shows "distinct (map (\<lambda>x. g (snd x)) (AList.update k v xs))"
  using assms
proof (induction xs)
  case (Cons x xs)
  have "g (snd x) \<notin> (\<lambda>x. g (snd x)) ` set (AList.update k v xs)"
    using image_snd_update [of g k v xs] Cons.prems by auto
  with Cons show ?case by auto
qed simp

lemma dirs_add_entry_map:
  assumes "\<And>d. g (add_entry name ino d) = g d"
  shows "map (\<lambda>x. g (snd x)) (dirs_add_entry k name ino dirs) = map (\<lambda>x. g (snd x)) dirs"
  using assms by (auto simp: dirs_add_entry_def map_update_same split: option.split)

lemma add_entry_sel [simp]:
  "bd_ino (add_entry name ino d) = bd_ino d" "bd_md (add_entry name ino d) = bd_md d"
  by (simp_all add: add_entry_def)

section \<open>Invariants of the scan\<close>

text \<open>
  A property of the state that holds at the start and is kept by every entry visited (and by every
  whiteout, which only a delta has) holds after the scan.
\<close>

locale scan_invariant =
  fixes h :: host and existing :: "'o PuzzleFS option" and rootfs :: path and P :: "build_state \<Rightarrow> bool"
  assumes start: "start_state h existing rootfs = Ok st \<Longrightarrow> P st"
    and whiteout: "existing \<noteq> None \<Longrightarrow> P st \<Longrightarrow>
      P (st\<lparr>bs_inodes := bs_inodes st @ [new_whiteout i], bs_dirs := dirs_add_entry k n i (bs_dirs st)\<rparr>)"
    and entry: "P st \<Longrightarrow> visit_entry h existing rootfs st p = Ok st' \<Longrightarrow> P st'"
begin

lemma add_whiteouts_inv:
  "P st \<Longrightarrow> existing \<noteq> None \<or> ents = [] \<Longrightarrow> P (add_whiteouts names k st ents)"
proof (induction ents arbitrary: st)
  case (Cons e ents)
  then have ex: "existing \<noteq> None" by simp
  then have "\<And>st. P st \<Longrightarrow> P (add_whiteouts names k st ents)" using Cons.IH by blast
  with Cons.prems(1) whiteout [OF ex] show ?case by simp
qed simp

lemma visit_entries_inv: "P st \<Longrightarrow> visit_entries h existing rootfs st ps = Ok st' \<Longrightarrow> P st'"
  by (induction ps arbitrary: st) (auto intro: entry)

lemma visit_dir_inv:
  assumes "P st" and "visit_dir h existing rootfs st d = Ok st'"
  shows "P st'"
proof -
  from assms(2) obtain ex names k ps where
    ex: "lookup_existing existing (RootDir # drop (length rootfs) d) = Ok ex"
    and st': "visit_entries h existing rootfs (add_whiteouts names k st
      (case ex of Some i \<Rightarrow> (case i_mode i of InodeMode.Dir dl \<Rightarrow> dl_entries dl | _ \<Rightarrow> []) | None \<Rightarrow> [])) ps = Ok st'"
    by (auto simp: visit_dir_def rootfs_relative_def Let_def split: if_splits)
  have "existing \<noteq> None \<or> (case ex of Some i \<Rightarrow> (case i_mode i of InodeMode.Dir dl \<Rightarrow> dl_entries dl | _ \<Rightarrow> [])
      | None \<Rightarrow> []) = []"
    using ex by (auto simp: lookup_existing_def split: option.splits)
  from visit_entries_inv [OF add_whiteouts_inv [OF assms(1) this] st'] show ?thesis .
qed

lemma scan_inv:
  assumes "scan_rootfs h existing rootfs = Ok st"
  shows "P st"
proof -
  have "P st \<Longrightarrow> visit_dirs h existing rootfs st ds = Ok st' \<Longrightarrow> P st'" for st st' ds
    by (induction ds arbitrary: st) (auto intro: visit_dir_inv)
  with assms start show ?thesis by (auto simp: scan_rootfs_def)
qed

end

text \<open>What \<open>visit_entry\<close> does before it renders: it may take a number and add one directory entry.\<close>

definition prepared :: "build_state \<Rightarrow> build_state \<Rightarrow> bool" where
  "prepared st st1 \<longleftrightarrow>
     (\<exists>n dirs. (dirs = bs_dirs st \<or> (\<exists>k nm i. dirs = dirs_add_entry k nm i (bs_dirs st))) \<and>
        st1 = st\<lparr>bs_next_ino := n, bs_dirs := dirs\<rparr>)"

lemma visit_entryE:
  assumes "visit_entry h existing rootfs st p = Ok st'"
  obtains md cur_ino st1 where "h_symlink_metadata h p = Ok md"
    "existing = None \<longrightarrow> cur_ino = bs_next_ino st \<and> unat (bs_next_ino st) + 1 < 2 ^ 64 \<and>
      bs_next_ino st1 = bs_next_ino st + 1"
    "prepared st st1"
    "st' = st1 \<or> (bs_host_to_pfs st (md_ino md) = None \<or> cur_ino = 1) \<and> render_entry h p md cur_ino st1 = Ok st'"
proof -
  from assms obtain md exi cur st0 where md: "h_symlink_metadata h p = Ok md"
    and exi: "existing = None \<longrightarrow> exi = None" and cur: "take_ino exi st = Ok (cur, st0)"
    and rest: "(if cur \<noteq> 1 then
       and_then (add_to_parent h p md cur st0) (\<lambda>st.
         if bs_host_to_pfs st (md_ino md) \<noteq> None then Ok st else render_entry h p md cur st)
     else render_entry h p md cur st0) = Ok st'"
    by (auto simp: visit_entry_def split: option.splits)
  from cur have st0: "\<exists>n. st0 = st\<lparr>bs_next_ino := n\<rparr>"
    by (auto simp: take_ino_def split: option.splits intro: exI [of _ "bs_next_ino st"])
  have n: "existing = None \<longrightarrow> cur = bs_next_ino st \<and> unat (bs_next_ino st) + 1 < 2 ^ 64 \<and>
      bs_next_ino st0 = bs_next_ino st + 1"
    using cur exi by (auto simp: take_ino_def next_u64_def split: if_splits)
  show thesis
  proof (cases "cur = 1")
    case True
    from st0 obtain m where "st0 = st\<lparr>bs_next_ino := m, bs_dirs := bs_dirs st\<rparr>" by auto
    then have "prepared st st0" unfolding prepared_def by blast
    with md n show thesis by (rule that) (use True rest in simp)
  next
    case False
    with rest obtain st1 where st1: "add_to_parent h p md cur st0 = Ok st1"
      "st' = st1 \<or> bs_host_to_pfs st1 (md_ino md) = None \<and> render_entry h p md cur st1 = Ok st'"
      by (auto split: if_splits)
    then obtain k nm i where eq: "st1 = st0\<lparr>bs_dirs := dirs_add_entry k nm i (bs_dirs st0)\<rparr>"
      by (auto simp: add_to_parent_def Let_def split: if_splits)
    from st0 obtain m where m: "st0 = st\<lparr>bs_next_ino := m\<rparr>" ..
    have "st1 = st\<lparr>bs_next_ino := m, bs_dirs := dirs_add_entry k nm i (bs_dirs st)\<rparr>" by (simp add: eq m)
    then have ex: "prepared st st1" unfolding prepared_def by blast
    have "bs_next_ino st1 = bs_next_ino st0" "bs_host_to_pfs st1 = bs_host_to_pfs st" by (simp_all add: eq m)
    with n st1(2) show thesis by (intro that [OF md _ ex, of cur]) auto
  qed
qed

section \<open>Inode numbers of a first layer\<close>

definition state_inos :: "build_state \<Rightarrow> Ino list" where
  "state_inos st = map (\<lambda>x. bd_ino (snd x)) (bs_dirs st) @ map f_ino (bs_files st) @ map bo_ino (bs_others st)"

text \<open>Without an existing image every number is new, and there are no whiteouts.\<close>

definition fresh_inv :: "build_state \<Rightarrow> bool" where
  "fresh_inv st \<longleftrightarrow> bs_inodes st = [] \<and> bs_dirs st \<noteq> [] \<and> distinct (state_inos st) \<and>
     (\<forall>i\<in>set (state_inos st). i < bs_next_ino st)"

lemma dirs_add_entry_nonempty: "dirs_add_entry k n i dirs = [] \<longleftrightarrow> dirs = []"
  by (auto simp: dirs_add_entry_def split: option.split)

lemma distinct_replace_front:
  assumes "distinct (xs @ ys)" and "x \<notin> set (xs @ ys)" and "distinct xs'" and "set xs' \<subseteq> insert x (set xs)"
  shows "distinct (xs' @ ys) \<and> set (xs' @ ys) \<subseteq> insert x (set (xs @ ys))"
  using assms by auto

lemma render_entry_inos:
  assumes "render_entry h p md cur st = Ok st'" and "distinct (state_inos st)" and "cur \<notin> set (state_inos st)"
  shows "distinct (state_inos st') \<and> set (state_inos st') \<subseteq> insert cur (set (state_inos st)) \<and>
    bs_inodes st' = bs_inodes st \<and> bs_next_ino st' = bs_next_ino st \<and> (bs_dirs st \<noteq> [] \<longrightarrow> bs_dirs st' \<noteq> [])"
proof (cases "md_file_type md = FtDir")
  case True
  with assms(1) obtain a where st': "st' = st\<lparr>bs_host_to_pfs := (bs_host_to_pfs st)(md_ino md \<mapsto> cur),
      bs_dirs := AList.update (md_ino md) \<lparr>bd_ino = cur, bd_entries = [], bd_md = md, bd_additional = a\<rparr> (bs_dirs st)\<rparr>"
    by (auto simp: render_entry_def Let_def)
  let ?d = "\<lparr>bd_ino = cur, bd_entries = [], bd_md = md, bd_additional = a\<rparr>"
  define dirs where "dirs = AList.update (md_ino md) ?d (bs_dirs st)"
  define rest where "rest = map f_ino (bs_files st) @ map bo_ino (bs_others st)"
  have st_inos: "state_inos st = map (\<lambda>x. bd_ino (snd x)) (bs_dirs st) @ rest"
    and "state_inos st' = map (\<lambda>x. bd_ino (snd x)) dirs @ rest" "bs_dirs st' = dirs"
      "bs_inodes st' = bs_inodes st" "bs_next_ino st' = bs_next_ino st"
    by (simp_all add: st' state_inos_def rest_def dirs_def)
  moreover have "distinct (map (\<lambda>x. bd_ino (snd x)) dirs)"
    using assms(2,3) unfolding dirs_def st_inos by (intro distinct_update_snd) auto
  moreover have "set (map (\<lambda>x. bd_ino (snd x)) dirs) \<subseteq> insert cur (set (map (\<lambda>x. bd_ino (snd x)) (bs_dirs st)))"
    using image_snd_update [of bd_ino "md_ino md" ?d "bs_dirs st"] by (simp add: dirs_def)
  moreover have "dirs \<noteq> []" by (simp add: dirs_def)
  ultimately show ?thesis
    using distinct_replace_front [OF assms(2,3) [unfolded st_inos], of "map (\<lambda>x. bd_ino (snd x)) dirs"] by simp
next
  case False
  with assms(1) obtain a where "bs_dirs st' = bs_dirs st \<and> bs_inodes st' = bs_inodes st \<and>
      bs_next_ino st' = bs_next_ino st \<and>
      (bs_files st' = bs_files st @ [\<lparr>f_ino = cur, f_chunks = [], f_md = md, f_additional = a\<rparr>] \<and>
         bs_others st' = bs_others st \<or>
       bs_files st' = bs_files st \<and> bs_others st' = bs_others st @ [\<lparr>bo_ino = cur, bo_md = md, bo_additional = a\<rparr>])"
    by (cases "md_file_type md") (auto simp: render_entry_def Let_def)
  then have "mset (state_inos st') = mset (cur # state_inos st)" and "bs_dirs st' = bs_dirs st"
    "bs_inodes st' = bs_inodes st" "bs_next_ino st' = bs_next_ino st" by (auto simp: state_inos_def)
  moreover from this(1) have "distinct (state_inos st') = distinct (cur # state_inos st)"
    "set (state_inos st') = set (cur # state_inos st)"
    by (rule mset_eq_imp_distinct_iff, rule mset_eq_setD)
  ultimately show ?thesis using assms(2,3) by simp
qed

interpretation fresh: scan_invariant h None rootfs fresh_inv for h rootfs
proof unfold_locales
  fix st
  assume "start_state h None rootfs = Ok st"
  then show "fresh_inv st" by (auto simp: start_state_def fresh_inv_def state_inos_def)
next
  fix st p st'
  assume inv: "fresh_inv st" and "visit_entry h None rootfs st p = Ok st'"
  from this(2) obtain md cur st1 where
    cur: "cur = bs_next_ino st" "unat (bs_next_ino st) + 1 < 2 ^ 64" "bs_next_ino st1 = bs_next_ino st + 1"
    and st1: "prepared st st1"
    and st': "st' = st1 \<or> render_entry h p md cur st1 = Ok st'"
    by (rule visit_entryE) auto
  have inos: "state_inos st1 = state_inos st" "bs_inodes st1 = []" "bs_dirs st1 \<noteq> []"
    using st1 inv by (auto simp: prepared_def state_inos_def dirs_add_entry_map fresh_inv_def dirs_add_entry_nonempty)
  have less: "bs_next_ino st < bs_next_ino st + 1"
    using cur(2) by (simp add: word_less_nat_alt unat_word_ariths)
  have "\<forall>i\<in>set (state_inos st1). i < bs_next_ino st1"
    using inv less cur(3) by (auto simp: inos fresh_inv_def intro: order.strict_trans)
  moreover have "cur \<notin> set (state_inos st1)" "distinct (state_inos st1)"
    using inv by (auto simp: inos fresh_inv_def cur(1))
  moreover from calculation render_entry_inos [of h p md cur st1 st'] less cur(1,3)
  have "render_entry h p md cur st1 = Ok st' \<Longrightarrow> \<forall>i\<in>set (state_inos st'). i < bs_next_ino st'" by fastforce
  ultimately show "fresh_inv st'"
    using st' inos(2,3) render_entry_inos [of h p md cur st1 st'] by (auto simp: fresh_inv_def)
qed simp

section \<open>Types and sources of the scanned entries\<close>

text \<open>
  Files are regular files that wait for their chunks, in the order in which their paths were pushed to
  the stream; directories are directories (if the root is one), and the others are neither.
\<close>

definition dirs_typed :: "(u64 \<times> Dir) list \<Rightarrow> bool" where
  "dirs_typed dirs \<longleftrightarrow> (\<forall>d\<in>snd ` set dirs. md_file_type (bd_md d) = FtDir)"

definition typed_inv :: "host \<Rightarrow> path \<Rightarrow> build_state \<Rightarrow> bool" where
  "typed_inv h rootfs st \<longleftrightarrow>
     (\<forall>f\<in>set (bs_files st). f_chunks f = [] \<and> md_file_type (f_md f) = FtFile) \<and>
     (\<forall>x\<in>set (bs_others st). md_file_type (bo_md x) \<notin> {FtDir, FtFile}) \<and>
     ((\<forall>md. h_symlink_metadata h rootfs = Ok md \<longrightarrow> md_file_type md = FtDir) \<longrightarrow>
        dirs_typed (bs_dirs st)) \<and>
     (\<forall>i\<in>set (bs_inodes st). i_mode i = Wht) \<and>
     (\<exists>ps. bs_stream st = stream_of ps \<and> list_all2 (\<lambda>p f. h_symlink_metadata h p = Ok (f_md f)) ps (bs_files st))"

lemma stream_of_snoc: "FilesystemStream_push (stream_of ps) p = stream_of (ps @ [p])"
  by (simp add: stream_of_def)

lemma dirs_add_entry_types [simp]:
  assumes "dirs_typed dirs"
  shows "dirs_typed (dirs_add_entry k n i dirs)"
proof (cases "map_of dirs k")
  case (Some d)
  with assms have "md_file_type (bd_md (add_entry n i d)) = FtDir"
    by (auto simp: dirs_typed_def dest: map_of_mem_snd)
  with assms have "dirs_typed (AList.update k (add_entry n i d) dirs)"
    unfolding dirs_typed_def by (intro ball_snd_update)
  with Some show ?thesis by (simp only: dirs_add_entry_def option.case)
qed (use assms in \<open>simp add: dirs_add_entry_def\<close>)

lemma typed_inv_prepared:
  assumes "typed_inv h rootfs st" and "prepared st st1"
  shows "typed_inv h rootfs st1"
proof -
  from assms(2) obtain n dirs where st1: "st1 = st\<lparr>bs_next_ino := n, bs_dirs := dirs\<rparr>"
    and "dirs_typed (bs_dirs st) \<longrightarrow> dirs_typed dirs" by (auto simp: prepared_def)
  with assms(1) show ?thesis by (simp add: typed_inv_def)
qed

lemma typed_inv_render:
  assumes "typed_inv h rootfs st" and "h_symlink_metadata h p = Ok md" and "render_entry h p md cur st = Ok st'"
  shows "typed_inv h rootfs st'"
proof (cases "md_file_type md")
  case FtDir
  with assms(3) obtain a where st': "st' = st\<lparr>bs_host_to_pfs := (bs_host_to_pfs st)(md_ino md \<mapsto> cur),
      bs_dirs := AList.update (md_ino md) \<lparr>bd_ino = cur, bd_entries = [], bd_md = md, bd_additional = a\<rparr> (bs_dirs st)\<rparr>"
    by (auto simp: render_entry_def Let_def)
  let ?d = "\<lparr>bd_ino = cur, bd_entries = [], bd_md = md, bd_additional = a\<rparr>"
  have "dirs_typed (bs_dirs st) \<longrightarrow> dirs_typed (AList.update (md_ino md) ?d (bs_dirs st))"
    unfolding dirs_typed_def by (intro impI ball_snd_update) (simp_all add: FtDir)
  with assms(1) st' show ?thesis unfolding typed_inv_def by simp
next
  case FtFile
  with assms(3) obtain a where st': "st' = st\<lparr>bs_host_to_pfs := (bs_host_to_pfs st)(md_ino md \<mapsto> cur),
      bs_stream := FilesystemStream_push (bs_stream st) p,
      bs_files := bs_files st @ [\<lparr>f_ino = cur, f_chunks = [], f_md = md, f_additional = a\<rparr>]\<rparr>"
    by (auto simp: render_entry_def Let_def)
  from assms(1) obtain ps where "bs_stream st = stream_of ps"
    "list_all2 (\<lambda>p f. h_symlink_metadata h p = Ok (f_md f)) ps (bs_files st)" by (auto simp: typed_inv_def)
  then have "bs_stream st' = stream_of (ps @ [p])"
    "list_all2 (\<lambda>p f. h_symlink_metadata h p = Ok (f_md f)) (ps @ [p]) (bs_files st')"
    using assms(2) by (simp_all add: st' stream_of_snoc list_all2_appendI)
  then have "\<exists>ps. bs_stream st' = stream_of ps \<and> list_all2 (\<lambda>p f. h_symlink_metadata h p = Ok (f_md f)) ps (bs_files st')"
    by blast
  with FtFile assms(1) show ?thesis unfolding typed_inv_def by (simp add: st')
qed (use assms in \<open>auto simp: render_entry_def Let_def typed_inv_def\<close>)

interpretation typed: scan_invariant h existing rootfs "typed_inv h rootfs" for h existing rootfs
proof unfold_locales
  fix st
  assume "start_state h existing rootfs = Ok st"
  then show "typed_inv h rootfs st"
    by (auto simp: start_state_def typed_inv_def dirs_typed_def stream_of_def intro!: exI [of _ "[]"])
next
  fix st i k n
  assume "typed_inv h rootfs st"
  then show "typed_inv h rootfs (st\<lparr>bs_inodes := bs_inodes st @ [new_whiteout i],
      bs_dirs := dirs_add_entry k n i (bs_dirs st)\<rparr>)"
    by (auto simp: typed_inv_def)
next
  fix st p st'
  assume inv: "typed_inv h rootfs st" and "visit_entry h existing rootfs st p = Ok st'"
  from this(2) obtain md cur st1 where "h_symlink_metadata h p = Ok md" "prepared st st1"
    "st' = st1 \<or> render_entry h p md cur st1 = Ok st'"
    by (rule visit_entryE) auto
  with inv show "typed_inv h rootfs st'" using typed_inv_prepared typed_inv_render by blast
qed

section \<open>Rendered layers\<close>

lemma collect_render_dir: "collect render_dir ds = Ok is \<Longrightarrow>
  map i_ino is = map bd_ino ds \<and> (\<forall>i\<in>set is. wf_InodeMode (i_mode i))"
  by (induction ds arbitrary: "is") (auto simp: render_dir_def new_dir_def split: if_splits)

lemma collect_render_file: "collect render_file fs = Ok is \<Longrightarrow>
  map i_ino is = map f_ino fs \<and> (refs_wf fs \<longrightarrow> (\<forall>i\<in>set is. wf_InodeMode (i_mode i)))"
  by (induction fs arbitrary: "is") (auto simp: render_file_def new_file_def refs_wf_def split: if_splits)

lemma collect_render_other: "collect (render_other h) xs = Ok is \<Longrightarrow>
  map i_ino is = map bo_ino xs \<and> (\<forall>i\<in>set is. wf_InodeMode (i_mode i))"
  by (induction xs arbitrary: "is") (auto simp: render_other_def new_other_def split: file_type.splits)

lemma strip_inos: "map strip fs' = map strip fs \<Longrightarrow> map f_ino fs' = map f_ino fs"
proof -
  have "map f_ino xs = map f_ino (map strip xs)" for xs by (simp add: strip_def)
  then show "map strip fs' = map strip fs \<Longrightarrow> map f_ino fs' = map f_ino fs" by metis
qed

definition values_ok :: "host \<Rightarrow> bool" where
  "values_ok h \<longleftrightarrow> (\<forall>ds. mset (h_values h ds) = mset ds)"

lemma build_deltaE:
  assumes "build_delta h env C rootfs im existing vd m = Some (Ok (inodes, im', vd', m'))"
  obtains st files where "scan_rootfs h existing rootfs = Ok st"
    "process_chunks env C im (h_chunker h (bs_stream st)) (bs_files st) vd m = Some (Ok (files, im', vd', m'))"
    "render_inodes h st files = Ok inodes"
  using assms by (auto simp: build_delta_def split: outcome.splits)

lemma build_delta_wf:
  assumes "build_delta h env C rootfs im existing vd m = Some (Ok (inodes, im', vd', m'))"
    and "\<forall>data. length (env_fs_verity_sha256 env data) = SHA256_BLOCK_SIZE" and "wf_VerityData vd"
  shows "sorted (map i_ino inodes) \<and> (\<forall>i\<in>set inodes. wf_InodeMode (i_mode i)) \<and> wf_VerityData vd'"
proof -
  from assms(1) obtain st files where b: "scan_rootfs h existing rootfs = Ok st"
    "process_chunks env C im (h_chunker h (bs_stream st)) (bs_files st) vd m = Some (Ok (files, im', vd', m'))"
    "render_inodes h st files = Ok inodes" by (rule build_deltaE)
  note ext = process_chunks_extends [OF b(2)]
  from typed.scan_inv [OF b(1)] have "refs_wf (bs_files st)" "\<forall>i\<in>set (bs_inodes st). i_mode i = Wht"
    by (auto simp: typed_inv_def refs_wf_def)
  with ext(2) have "refs_wf files" by simp
  with b(3) \<open>\<forall>i\<in>set (bs_inodes st). i_mode i = Wht\<close> have "\<forall>i\<in>set inodes. wf_InodeMode (i_mode i)"
    by (auto simp: render_inodes_def dest!: collect_render_dir collect_render_file collect_render_other)
  moreover from b(3) have "sorted (map i_ino inodes)" by (auto simp: render_inodes_def)
  ultimately show ?thesis using ext(4) assms(2,3) by blast
qed

text \<open>The numbers of a layer are those of the whiteouts and of what the scan has recorded.\<close>

lemma render_inodes_inos:
  assumes "render_inodes h st files = Ok inodes" and "map f_ino files = map f_ino (bs_files st)" and "values_ok h"
  shows "mset (map i_ino inodes) = mset (map i_ino (bs_inodes st) @ state_inos st)" "sorted (map i_ino inodes)"
proof -
  from assms(1) obtain ds fs os where r: "collect render_dir (h_values h (map snd (bs_dirs st))) = Ok ds"
    "collect render_file files = Ok fs" "collect (render_other h) (bs_others st) = Ok os"
    "inodes = sort_key i_ino (bs_inodes st @ ds @ fs @ os)"
    by (auto simp: render_inodes_def)
  from r(1-3) assms(2) have inos: "map i_ino (ds @ fs @ os) =
      map bd_ino (h_values h (map snd (bs_dirs st))) @ map f_ino (bs_files st) @ map bo_ino (bs_others st)"
    by (auto dest!: collect_render_dir collect_render_file collect_render_other)
  have "mset (map bd_ino (h_values h (map snd (bs_dirs st)))) = mset (map (\<lambda>x. bd_ino (snd x)) (bs_dirs st))"
    using assms(3) by (simp add: values_ok_def image_mset.compositionality comp_def)
  then have "mset (map i_ino (ds @ fs @ os)) = mset (state_inos st)"
    unfolding inos state_inos_def by (simp only: mset_append)
  moreover have "mset (map i_ino inodes) = mset (map i_ino (bs_inodes st)) + mset (map i_ino (ds @ fs @ os))" by (simp add: r(4))
  ultimately show "mset (map i_ino inodes) = mset (map i_ino (bs_inodes st) @ state_inos st)" by simp
  show "sorted (map i_ino inodes)" by (simp add: r(4))
qed

lemma render_inodes_sorted:
  assumes "render_inodes h st files = Ok inodes" and "map f_ino files = map f_ino (bs_files st)"
    and "distinct (map i_ino (bs_inodes st) @ state_inos st)" and "bs_dirs st \<noteq> []" and "values_ok h"
  shows "inodes \<noteq> [] \<and> sorted_wrt (<) (map i_ino inodes)"
proof -
  note inos = render_inodes_inos [OF assms(1,2,5)]
  from mset_eq_imp_distinct_iff [OF inos(1)] mset_eq_length [OF inos(1)] assms(3)
  have "distinct (map i_ino inodes)" "length inodes = length (map i_ino (bs_inodes st) @ state_inos st)" by simp_all
  moreover have "length (state_inos st) \<noteq> 0" using assms(4) by (simp add: state_inos_def)
  ultimately show ?thesis using inos(2) by (auto simp: strict_sorted_iff)
qed

lemma build_delta_initial_sorted:
  assumes "build_delta h env C rootfs im None vd m = Some (Ok (inodes, im', vd', m'))" and "values_ok h"
  shows "inodes \<noteq> [] \<and> sorted_wrt (<) (map i_ino inodes)"
proof -
  from assms(1) obtain st files where b: "scan_rootfs h (None :: 'a PuzzleFS option) rootfs = Ok st"
    "process_chunks env C im (h_chunker h (bs_stream st)) (bs_files st) vd m = Some (Ok (files, im', vd', m'))"
    "render_inodes h st files = Ok inodes" by (rule build_deltaE)
  note inos = strip_inos [OF process_chunks_extends(1) [OF b(2)]]
  from render_inodes_sorted [OF b(3) inos _ _ assms(2)] fresh.scan_inv [OF b(1)] show ?thesis by (simp add: fresh_inv_def)
qed

section \<open>Recorded chunks\<close>

text \<open>Every chunk of every file of a layer has a digest in the verity data.\<close>

definition layer_digests :: "Inode list \<Rightarrow> bytes set" where
  "layer_digests inodes =
     (\<Union>i\<in>set inodes. case i_mode i of InodeMode.File cs \<Rightarrow> (\<lambda>k. br_digest (fc_blob k)) ` set cs | _ \<Rightarrow> {})"

lemma layer_digests_simps [simp]: "layer_digests [] = {}" "layer_digests (a @ b) = layer_digests a \<union> layer_digests b"
  "layer_digests (i # is) =
     (case i_mode i of InodeMode.File cs \<Rightarrow> (\<lambda>k. br_digest (fc_blob k)) ` set cs | _ \<Rightarrow> {}) \<union> layer_digests is"
  by (simp_all add: layer_digests_def)

lemma render_dir_digests: "collect render_dir ds = Ok is \<Longrightarrow> layer_digests is = {}"
  by (induction ds arbitrary: "is") (auto simp: render_dir_def new_dir_def new_inode_def split: if_splits)

lemma render_file_digests: "collect render_file fs = Ok is \<Longrightarrow> layer_digests is = chunk_digests fs"
  by (induction fs arbitrary: "is")
    (auto simp: render_file_def new_file_def new_inode_def chunk_digests_Cons split: if_splits)

lemma render_other_digests: "collect (render_other h) xs = Ok is \<Longrightarrow> layer_digests is = {}"
  by (induction xs arbitrary: "is")
    (auto simp: render_other_def new_other_def new_inode_def split: file_type.splits)

lemma build_delta_recorded:
  assumes "build_delta h env C rootfs im existing vd m = Some (Ok (inodes, im', vd', m'))"
  shows "layer_digests inodes \<subseteq> fst ` set vd'"
proof -
  from assms obtain st files where b: "scan_rootfs h existing rootfs = Ok st"
    "process_chunks env C im (h_chunker h (bs_stream st)) (bs_files st) vd m = Some (Ok (files, im', vd', m'))"
    "render_inodes h st files = Ok inodes" by (rule build_deltaE)
  from b(3) obtain ds fs os where r: "collect render_dir (h_values h (map snd (bs_dirs st))) = Ok ds"
    "collect render_file files = Ok fs" "collect (render_other h) (bs_others st) = Ok os"
    "inodes = sort_key i_ino (bs_inodes st @ ds @ fs @ os)"
    by (auto simp: render_inodes_def)
  from typed.scan_inv [OF b(1)] have "chunk_digests (bs_files st) = {}" and wht: "\<forall>i\<in>set (bs_inodes st). i_mode i = Wht"
    by (auto simp: typed_inv_def chunk_digests_def)
  with process_chunks_extends(3) [OF b(2)] have "chunk_digests files \<subseteq> fst ` set vd'" by simp
  moreover have "layer_digests inodes = layer_digests (bs_inodes st @ ds @ fs @ os)"
    by (simp add: r(4) layer_digests_def)
  moreover have "layer_digests (bs_inodes st) = {}" using wht by (simp add: layer_digests_def)
  ultimately show ?thesis
    by (simp add: render_dir_digests [OF r(1)] render_file_digests [OF r(2)] render_other_digests [OF r(3)])
qed

end
