(* ===== verification/Build_Tree.thy ===== *)
theory Build_Tree
  imports Builder
begin

text \<open>
  What a build makes of a host tree. A tree lists the directories in the order of the walk, the sorted
  names in each directory, and the metadata and contents at each path; \<open>host_shows\<close> says that the host
  calls of the builder report this tree. The scan of a first layer then succeeds and records one
  directory entry per path and one inode per host inode (hard links share it).
\<close>

section \<open>Host trees\<close>

record tree =
  t_dirs :: "path list"
  t_names :: "path \<Rightarrow> bytes list"
  t_md :: "path \<Rightarrow> host_metadata"
  t_additional :: "path \<Rightarrow> InodeAdditional option"
  t_data :: "path \<Rightarrow> bytes"

abbreviation t_ino :: "tree \<Rightarrow> path \<Rightarrow> u64" where
  "t_ino T p \<equiv> md_ino (t_md T p)"

abbreviation t_type :: "tree \<Rightarrow> path \<Rightarrow> file_type" where
  "t_type T p \<equiv> md_file_type (t_md T p)"

definition dir_paths :: "tree \<Rightarrow> path \<Rightarrow> path list" where
  "dir_paths T d = map (\<lambda>n. d @ [Normal n]) (t_names T d)"

definition t_entries :: "tree \<Rightarrow> path list \<Rightarrow> path list" where
  "t_entries T ds = concat (map (dir_paths T) ds)"

abbreviation t_paths :: "path \<Rightarrow> tree \<Rightarrow> path set" where
  "t_paths rootfs T \<equiv> insert rootfs (set (t_entries T (t_dirs T)))"

text \<open>
  The shape: the walk starts at the root and reaches every directory below one it has already
  reached; names are plain and sorted without repetition.
\<close>

definition walk_order :: "path \<Rightarrow> tree \<Rightarrow> bool" where
  "walk_order rootfs T \<longleftrightarrow>
     t_dirs T \<noteq> [] \<and> hd (t_dirs T) = rootfs \<and> distinct (t_dirs T) \<and>
     (\<forall>i < length (t_dirs T). 0 < i \<longrightarrow> t_dirs T ! i \<in> set (t_entries T (take i (t_dirs T)))) \<and>
     (\<forall>p \<in> t_paths rootfs T. p \<in> set (t_dirs T) \<longleftrightarrow> t_type T p = FtDir) \<and>
     (\<forall>d \<in> set (t_dirs T). distinct (t_names T d) \<and> list_all plain_name (t_names T d))"

text \<open>
  Inode numbers of the host: paths with the same number are hard links to the same file, and a
  directory has one path only.
\<close>

definition links_ok :: "path \<Rightarrow> tree \<Rightarrow> bool" where
  "links_ok rootfs T \<longleftrightarrow>
     (\<forall>p \<in> t_paths rootfs T. \<forall>q \<in> t_paths rootfs T. t_ino T p = t_ino T q \<longrightarrow>
        t_md T p = t_md T q \<and> t_additional T p = t_additional T q \<and> t_data T p = t_data T q \<and>
        (t_type T p = FtDir \<longrightarrow> p = q))"

definition host_shows :: "host \<Rightarrow> (path \<Rightarrow> bytes io_result) \<Rightarrow> path \<Rightarrow> tree \<Rightarrow> bool" where
  "host_shows h open_file rootfs T \<longleftrightarrow>
     rootfs \<noteq> [] \<and> walk_order rootfs T \<and> links_ok rootfs T \<and>
     h_walk_dirs h rootfs = map Ok (t_dirs T) \<and>
     (\<forall>d \<in> set (t_dirs T). \<exists>ns. h_read_dir h d = Ok (map Ok ns) \<and> sort ns = t_names T d) \<and>
     (\<forall>p \<in> t_paths rootfs T. h_symlink_metadata h p = Ok (t_md T p) \<and>
        additional_of h p (t_md T p) = Ok (t_additional T p) \<and>
        (t_type T p = FtFile \<longrightarrow> open_file p = Ok (t_data T p) \<and> unat (md_len (t_md T p)) = length (t_data T p)))"

lemma dir_paths_iff: "p \<in> set (dir_paths T d) \<longleftrightarrow> (\<exists>n\<in>set (t_names T d). p = d @ [Normal n])"
  by (auto simp: dir_paths_def)

lemma t_entries_iff: "p \<in> set (t_entries T ds) \<longleftrightarrow> (\<exists>d\<in>set ds. \<exists>n\<in>set (t_names T d). p = d @ [Normal n])"
  by (auto simp: t_entries_def dir_paths_iff)

lemma t_entries_append: "t_entries T (ds @ es) = t_entries T ds @ t_entries T es"
  by (simp add: t_entries_def)

lemma t_entries_snoc: "t_entries T (ds @ [d]) = t_entries T ds @ dir_paths T d"
  by (simp add: t_entries_def)

lemma distinct_dir_paths: "distinct (t_names T d) \<Longrightarrow> distinct (dir_paths T d)"
  by (auto simp: dir_paths_def distinct_map inj_on_def)

lemma distinct_t_entries:
  assumes "distinct ds" and "\<forall>d\<in>set ds. distinct (t_names T d)"
  shows "distinct (t_entries T ds)"
  using assms
proof (induction ds rule: rev_induct)
  case (snoc d ds)
  then show ?case by (auto simp: t_entries_snoc distinct_dir_paths dir_paths_iff t_entries_iff)
qed (simp add: t_entries_def)

lemma walk_orderD:
  assumes "walk_order rootfs T"
  shows "t_dirs T \<noteq> []" "hd (t_dirs T) = rootfs" "distinct (t_dirs T)" "distinct (t_entries T (t_dirs T))"
    "\<And>d. d \<in> set (t_dirs T) \<Longrightarrow> distinct (t_names T d)"
    "\<And>d. d \<in> set (t_dirs T) \<Longrightarrow> d \<in> t_paths rootfs T"
    "\<And>p. p \<in> t_paths rootfs T \<Longrightarrow> p \<in> set (t_dirs T) \<longleftrightarrow> t_type T p = FtDir"
    "\<And>d n. d \<in> set (t_dirs T) \<Longrightarrow> n \<in> set (t_names T d) \<Longrightarrow> plain_name n"
    "rootfs \<in> set (t_dirs T)"
proof -
  show *: "t_dirs T \<noteq> []" "hd (t_dirs T) = rootfs" "distinct (t_dirs T)"
    "\<And>d. d \<in> set (t_dirs T) \<Longrightarrow> distinct (t_names T d)"
    "\<And>p. p \<in> t_paths rootfs T \<Longrightarrow> p \<in> set (t_dirs T) \<longleftrightarrow> t_type T p = FtDir"
    "\<And>d n. d \<in> set (t_dirs T) \<Longrightarrow> n \<in> set (t_names T d) \<Longrightarrow> plain_name n"
    using assms by (auto simp: walk_order_def list_all_iff)
  show "distinct (t_entries T (t_dirs T))" using * by (intro distinct_t_entries) auto
  show "rootfs \<in> set (t_dirs T)" using *(1,2) hd_in_set by blast
  show "d \<in> t_paths rootfs T" if d: "d \<in> set (t_dirs T)" for d
  proof -
    from d obtain i where i: "i < length (t_dirs T)" "t_dirs T ! i = d" by (auto simp: in_set_conv_nth)
    show ?thesis
    proof (cases "i = 0")
      case True
      with i *(1,2) show ?thesis by (simp add: hd_conv_nth)
    next
      case False
      with i assms have "d \<in> set (t_entries T (take i (t_dirs T)))" by (auto simp: walk_order_def)
      then show ?thesis by (auto simp: t_entries_iff dest: in_set_takeD)
    qed
  qed
qed

lemma t_dirs_iff:
  assumes "walk_order rootfs T"
  shows "p \<in> set (t_dirs T) \<longleftrightarrow> p \<in> t_paths rootfs T \<and> t_type T p = FtDir"
proof (cases "p \<in> t_paths rootfs T")
  case True
  with walk_orderD(7) [OF assms True] show ?thesis by simp
next
  case False
  with walk_orderD(6) [OF assms, of p] show ?thesis by argo
qed

text \<open>A directory is reached before its own entries, and before it is walked.\<close>

lemma walk_order_prefix:
  assumes "walk_order rootfs T" and "t_dirs T = ds @ d # later" and "d \<noteq> rootfs"
  shows "d \<in> set (t_entries T ds)"
proof -
  have "length ds \<noteq> 0" using assms walk_orderD(2) [OF assms(1)] by (cases ds) auto
  moreover have "t_dirs T ! length ds = d" "take (length ds) (t_dirs T) = ds" "length ds < length (t_dirs T)"
    using assms(2) by auto
  ultimately show ?thesis using assms(1) by (auto simp: walk_order_def)
qed

lemma prefix_rootfs:
  assumes "walk_order rootfs T" and "t_dirs T = ds @ later" and "p \<in> insert rootfs (set (t_entries T ds))"
  shows "\<exists>ns. p = rootfs @ map Normal ns"
  using assms(2,3)
proof (induction ds arbitrary: p later rule: rev_induct)
  case Nil
  then show ?case by (auto simp: t_entries_def intro: exI [of _ "[]"])
next
  case (snoc d ds)
  have d: "\<exists>ns. d = rootfs @ map Normal ns"
  proof (cases "d = rootfs")
    case False
    with walk_order_prefix [OF assms(1), of ds d later] snoc.prems(1) snoc.IH [of "d # later" d]
    show ?thesis by simp
  qed (auto intro: exI [of _ "[]"])
  show ?case
  proof (cases "p \<in> set (dir_paths T d)")
    case True
    with d obtain ns n where "d = rootfs @ map Normal ns" "p = d @ [Normal n]" by (auto simp: dir_paths_iff)
    then show ?thesis by (intro exI [of _ "ns @ [n]"]) simp
  next
    case False
    with snoc.prems snoc.IH [of "d # later" p] show ?thesis by (auto simp: t_entries_snoc)
  qed
qed

section \<open>The existing image\<close>

text \<open>
  What a delta takes from the image it extends: the number of a path that the image has, the entries of
  an old directory whose names are gone, and the first number that is free.
\<close>

record base =
  b_num :: "path \<Rightarrow> Ino option"
  b_gone :: "path \<Rightarrow> DirEnt list"
  b_start :: nat

definition no_base :: base where
  "no_base = \<lparr>b_num = (\<lambda>p. None), b_gone = (\<lambda>d. []), b_start = 2\<rparr>"

definition existing_at :: "'o PuzzleFS \<Rightarrow> path \<Rightarrow> path \<Rightarrow> Inode option" where
  "existing_at pfs rootfs p =
     (case PuzzleFS_lookup pfs (RootDir # drop (length rootfs) p) of Ok r \<Rightarrow> r | _ \<Rightarrow> None)"

definition old_entries :: "Inode option \<Rightarrow> DirEnt list" where
  "old_entries ex =
     (case ex of Some i \<Rightarrow> (case i_mode i of InodeMode.Dir dl \<Rightarrow> dl_entries dl | _ \<Rightarrow> []) | None \<Rightarrow> [])"

fun base_of :: "'o PuzzleFS option \<Rightarrow> path \<Rightarrow> tree \<Rightarrow> base" where
  "base_of None rootfs T = no_base"
| "base_of (Some pfs) rootfs T =
     \<lparr>b_num = (\<lambda>p. map_option i_ino (existing_at pfs rootfs p)),
      b_gone = (\<lambda>d. filter (\<lambda>e. de_name e \<notin> set (t_names T d)) (old_entries (existing_at pfs rootfs d))),
      b_start = (case PuzzleFS_max_inode pfs of Ok m \<Rightarrow> unat m + 1 | _ \<Rightarrow> 0)\<rparr>"

text \<open>The entries of the existing image that a delta whites out.\<close>

definition gone_entries :: "base \<Rightarrow> path list \<Rightarrow> DirEnt list" where
  "gone_entries B ds = concat (map (b_gone B) ds)"

text \<open>
  A delta keeps the numbers of the existing image. That is sound when paths that shared a number there
  are still links to one file, no number is whited out twice, and none that is whited out is still used.
\<close>

definition links_kept :: "tree \<Rightarrow> base \<Rightarrow> bool" where
  "links_kept T B \<longleftrightarrow> 2 \<le> b_start B \<and>
     (\<forall>p\<in>set (t_entries T (t_dirs T)). \<forall>i. b_num B p = Some i \<longrightarrow> 1 < unat i \<and> unat i < b_start B \<and>
        (\<forall>q\<in>set (t_entries T (t_dirs T)). b_num B q = Some i \<longrightarrow> t_ino T q = t_ino T p) \<and>
        i \<notin> de_ino ` set (gone_entries B (t_dirs T))) \<and>
     distinct (map de_ino (gone_entries B (t_dirs T))) \<and>
     (\<forall>e\<in>set (gone_entries B (t_dirs T)). 1 < unat (de_ino e) \<and> unat (de_ino e) < b_start B)"

text \<open>Every path of the tree can be looked up: it does not run into an entry without an inode.\<close>

definition lookups_ok :: "'o PuzzleFS option \<Rightarrow> path \<Rightarrow> tree \<Rightarrow> bool" where
  "lookups_ok existing rootfs T \<longleftrightarrow>
     (\<forall>p\<in>t_paths rootfs T. \<exists>r. lookup_existing existing (RootDir # drop (length rootfs) p) = Ok r) \<and>
     (\<forall>pfs. existing = Some pfs \<longrightarrow> (\<exists>m. PuzzleFS_max_inode pfs = Ok m))"

definition t_small_over :: "base \<Rightarrow> tree \<Rightarrow> bool" where
  "t_small_over B T \<longleftrightarrow> length (t_entries T (t_dirs T)) + b_start B < 2 ^ 64"

lemma links_keptD:
  assumes "links_kept T B"
  shows "2 \<le> b_start B" "distinct (map de_ino (gone_entries B (t_dirs T)))"
    "\<And>e. e \<in> set (gone_entries B (t_dirs T)) \<Longrightarrow> 1 < unat (de_ino e) \<and> unat (de_ino e) < b_start B"
    "\<And>p i. p \<in> set (t_entries T (t_dirs T)) \<Longrightarrow> b_num B p = Some i \<Longrightarrow> 1 < unat i \<and> unat i < b_start B"
    "\<And>p q i. p \<in> set (t_entries T (t_dirs T)) \<Longrightarrow> q \<in> set (t_entries T (t_dirs T)) \<Longrightarrow> b_num B p = Some i \<Longrightarrow>
      b_num B q = Some i \<Longrightarrow> t_ino T q = t_ino T p"
    "\<And>p i. p \<in> set (t_entries T (t_dirs T)) \<Longrightarrow> b_num B p = Some i \<Longrightarrow>
      i \<notin> de_ino ` set (gone_entries B (t_dirs T))"
  using assms unfolding links_kept_def by blast+

lemma no_base_simps [simp]: "b_num no_base p = None" "b_gone no_base d = []" "b_start no_base = 2" "gone_entries no_base ds = []"
  by (simp_all add: no_base_def gone_entries_def)

lemma no_base_laws: "links_kept T no_base" "lookups_ok None rootfs T" "t_small_over no_base T \<longleftrightarrow> length (t_entries T (t_dirs T)) + 2 < 2 ^ 64"
  by (simp_all add: links_kept_def lookups_ok_def lookup_existing_def t_small_over_def)

lemma gone_entries_snoc: "gone_entries B (ds @ [d]) = gone_entries B ds @ b_gone B d"
  by (simp add: gone_entries_def)

section \<open>The state of the scan\<close>

text \<open>The inode number the layer gives to a path, and what the builder records for it.\<close>

definition num :: "path \<Rightarrow> tree \<Rightarrow> build_state \<Rightarrow> path \<Rightarrow> Ino" where
  "num rootfs T st p = (if p = rootfs then 1 else the (bs_host_to_pfs st (t_ino T p)))"

definition entry_of :: "path \<Rightarrow> tree \<Rightarrow> build_state \<Rightarrow> path \<Rightarrow> DirEnt" where
  "entry_of rootfs T st p = \<lparr>de_ino = num rootfs T st p, de_name = file_name p\<rparr>"

text \<open>A directory has its whited-out entries from the moment it is opened.\<close>

definition dir_of :: "path \<Rightarrow> tree \<Rightarrow> (path \<Rightarrow> DirEnt list) \<Rightarrow> path list \<Rightarrow> build_state \<Rightarrow> path \<Rightarrow> Dir" where
  "dir_of rootfs T gone vis st p =
     \<lparr>bd_ino = num rootfs T st p,
      bd_entries = gone p @ map (entry_of rootfs T st) (filter (\<lambda>q. butlast q = p) vis),
      bd_md = t_md T p, bd_additional = t_additional T p\<rparr>"

definition file_of :: "path \<Rightarrow> tree \<Rightarrow> build_state \<Rightarrow> path \<Rightarrow> bfile" where
  "file_of rootfs T st p =
     \<lparr>f_ino = num rootfs T st p, f_chunks = [], f_md = t_md T p, f_additional = t_additional T p\<rparr>"

definition other_of :: "path \<Rightarrow> tree \<Rightarrow> build_state \<Rightarrow> path \<Rightarrow> Other" where
  "other_of rootfs T st p =
     \<lparr>bo_ino = num rootfs T st p, bo_md = t_md T p, bo_additional = t_additional T p\<rparr>"

text \<open>The first path of every host inode, and those among them with the given types.\<close>

definition firsts :: "tree \<Rightarrow> path list \<Rightarrow> path list" where
  "firsts T vis = fold (\<lambda>p ps. if t_ino T p \<in> t_ino T ` set ps then ps else ps @ [p]) vis []"

definition typed_paths :: "tree \<Rightarrow> file_type set \<Rightarrow> path list \<Rightarrow> path list" where
  "typed_paths T tys vis = filter (\<lambda>p. t_type T p \<in> tys) (firsts T vis)"

lemma firsts_snoc:
  "firsts T (vis @ [p]) = (if t_ino T p \<in> t_ino T ` set (firsts T vis) then firsts T vis else firsts T vis @ [p])"
  by (simp add: firsts_def)

lemma firsts_inos: "t_ino T ` set (firsts T vis) = t_ino T ` set vis"
  by (induction vis rule: rev_induct) (auto simp: firsts_snoc, auto simp: firsts_def)

lemma firsts_subset: "set (firsts T vis) \<subseteq> set vis"
  by (induction vis rule: rev_induct) (auto simp: firsts_snoc, auto simp: firsts_def)

lemma firsts_distinct: "distinct (map (t_ino T) (firsts T vis))"
  by (induction vis rule: rev_induct) (auto simp: firsts_snoc, auto simp: firsts_def)

lemma typed_paths_linked: "t_ino T p \<in> t_ino T ` set vis \<Longrightarrow> typed_paths T tys (vis @ [p]) = typed_paths T tys vis"
  by (simp add: typed_paths_def firsts_snoc firsts_inos)

lemma typed_paths_new:
  "t_ino T p \<notin> t_ino T ` set vis \<Longrightarrow>
   typed_paths T tys (vis @ [p]) = typed_paths T tys vis @ (if t_type T p \<in> tys then [p] else [])"
  by (simp add: typed_paths_def firsts_snoc firsts_inos)

lemma typed_paths_subset: "p \<in> set (typed_paths T tys vis) \<Longrightarrow> p \<in> set vis \<and> t_type T p \<in> tys"
  using firsts_subset [of T vis] by (auto simp: typed_paths_def)

text \<open>
  Distinct host inodes have distinct numbers, none of them the root's; a number that was in use before
  the scan is that of an old path.
\<close>

definition numbers_ok :: "tree \<Rightarrow> base \<Rightarrow> path list \<Rightarrow> build_state \<Rightarrow> bool" where
  "numbers_ok T B vis st \<longleftrightarrow> inj_on (bs_host_to_pfs st) (dom (bs_host_to_pfs st)) \<and>
     (\<forall>k i. bs_host_to_pfs st k = Some i \<longrightarrow> 1 < unat i \<and> unat i < unat (bs_next_ino st) \<and>
        (unat i < b_start B \<longrightarrow> (\<exists>q\<in>set vis. t_ino T q = k \<and> b_num B q = Some i)))"

text \<open>The directories found so far, by host inode.\<close>

definition dirs_ok :: "path \<Rightarrow> tree \<Rightarrow> (path \<Rightarrow> DirEnt list) \<Rightarrow> path list \<Rightarrow> build_state \<Rightarrow> bool" where
  "dirs_ok rootfs T gone vis st \<longleftrightarrow> distinct (map fst (bs_dirs st)) \<and>
     fst ` set (bs_dirs st) = t_ino T ` {p \<in> insert rootfs (set vis). t_type T p = FtDir} \<and>
     (\<forall>p\<in>insert rootfs (set vis). t_type T p = FtDir \<longrightarrow>
        map_of (bs_dirs st) (t_ino T p) = Some (dir_of rootfs T gone vis st p))"

definition opened_gone :: "base \<Rightarrow> path list \<Rightarrow> path \<Rightarrow> DirEnt list" where
  "opened_gone B opened d = (if d \<in> set opened then b_gone B d else [])"

text \<open>The invariant after the directories \<open>opened\<close> have been opened and the entries \<open>vis\<close> visited.\<close>

definition tree_inv :: "path \<Rightarrow> tree \<Rightarrow> base \<Rightarrow> path list \<Rightarrow> path list \<Rightarrow> build_state \<Rightarrow> bool" where
  "tree_inv rootfs T B opened vis st \<longleftrightarrow>
     dom (bs_host_to_pfs st) = t_ino T ` set vis \<and>
     unat (bs_next_ino st) = b_start B + length (filter (\<lambda>p. b_num B p = None) vis) \<and> numbers_ok T B vis st \<and>
     dirs_ok rootfs T (opened_gone B opened) vis st \<and>
     bs_stream st = stream_of (typed_paths T {FtFile} vis) \<and>
     bs_files st = map (file_of rootfs T st) (typed_paths T {FtFile} vis) \<and>
     bs_others st = map (other_of rootfs T st) (typed_paths T (- {FtFile, FtDir}) vis) \<and>
     bs_inodes st = map (\<lambda>e. new_whiteout (de_ino e)) (gone_entries B opened)"

lemma tree_invD:
  assumes "tree_inv rootfs T B opened vis st"
  shows "dom (bs_host_to_pfs st) = t_ino T ` set vis"
    "unat (bs_next_ino st) = b_start B + length (filter (\<lambda>p. b_num B p = None) vis)"
    "\<And>p. p \<in> insert rootfs (set vis) \<Longrightarrow> t_type T p = FtDir \<Longrightarrow>
        map_of (bs_dirs st) (t_ino T p) = Some (dir_of rootfs T (opened_gone B opened) vis st p)"
    "bs_stream st = stream_of (typed_paths T {FtFile} vis)"
    "bs_files st = map (file_of rootfs T st) (typed_paths T {FtFile} vis)"
    "bs_others st = map (other_of rootfs T st) (typed_paths T (- {FtFile, FtDir}) vis)" "numbers_ok T B vis st"
    "bs_inodes st = map (\<lambda>e. new_whiteout (de_ino e)) (gone_entries B opened)"
    "dirs_ok rootfs T (opened_gone B opened) vis st"
  using assms unfolding tree_inv_def dirs_ok_def by blast+

lemma numbers_ok_mono:
  assumes "numbers_ok T B vis st" and "bs_host_to_pfs st' = bs_host_to_pfs st"
    and "unat (bs_next_ino st) \<le> unat (bs_next_ino st')" and "set vis \<subseteq> set vis'"
  shows "numbers_ok T B vis' st'"
  unfolding numbers_ok_def assms(2)
proof (intro conjI allI impI)
  show "inj_on (bs_host_to_pfs st) (dom (bs_host_to_pfs st))" using assms(1) by (simp add: numbers_ok_def)
  fix k i
  assume "bs_host_to_pfs st k = Some i"
  with assms(1) have i: "1 < unat i" "unat i < unat (bs_next_ino st)"
    "unat i < b_start B \<longrightarrow> (\<exists>q\<in>set vis. t_ino T q = k \<and> b_num B q = Some i)" by (simp_all add: numbers_ok_def)
  show "1 < unat i" "unat i < unat (bs_next_ino st')" using i(1,2) assms(3) by simp_all
  assume "unat i < b_start B"
  with i(3) assms(4) show "\<exists>q\<in>set vis'. t_ino T q = k \<and> b_num B q = Some i" by blast
qed

text \<open>The number that \<open>take_ino\<close> gives to a path.\<close>

definition cur_num :: "base \<Rightarrow> build_state \<Rightarrow> path \<Rightarrow> Ino" where
  "cur_num B st p = (case b_num B p of Some i \<Rightarrow> i | None \<Rightarrow> bs_next_ino st)"

lemma numbers_ok_new:
  assumes ok: "numbers_ok T B vis st" and k: "bs_host_to_pfs st (t_ino T p) = None"
    and kept: "links_kept T B" and p: "p \<in> set (t_entries T (t_dirs T))" "set vis \<subseteq> set (t_entries T (t_dirs T))"
    and start: "b_start B \<le> unat (bs_next_ino st)"
    and st': "bs_host_to_pfs st' = (bs_host_to_pfs st)(t_ino T p \<mapsto> cur_num B st p)"
      "unat (bs_next_ino st') = unat (bs_next_ino st) + (if b_num B p = None then 1 else 0)"
  shows "numbers_ok T B (vis @ [p]) st'"
proof -
  let ?i = "cur_num B st p"
  have cur: "1 < unat ?i" "unat ?i < unat (bs_next_ino st')" "unat ?i < b_start B \<longrightarrow> b_num B p = Some ?i"
    using links_keptD(1) [OF kept] links_keptD(4) [OF kept p(1)] start st'(2)
    by (cases "b_num B p"; simp add: cur_num_def; fastforce)+
  have other: "bs_host_to_pfs st j \<noteq> Some ?i" for j
  proof
    assume j: "bs_host_to_pfs st j = Some ?i"
    with ok have less: "unat ?i < unat (bs_next_ino st)"
      and old: "unat ?i < b_start B \<longrightarrow> (\<exists>q\<in>set vis. t_ino T q = j \<and> b_num B q = Some ?i)" by (simp_all add: numbers_ok_def)
    show False
    proof (cases "b_num B p")
      case None
      with less show False by (simp add: cur_num_def)
    next
      case (Some i)
      then have i: "?i = i" by (simp add: cur_num_def)
      with links_keptD(4) [OF kept p(1) Some] old obtain q where "q \<in> set vis" "t_ino T q = j" "b_num B q = Some i" by auto
      with links_keptD(5) [OF kept p(1) _ Some, of q] p(2) have "j = t_ino T p" by blast
      with j k show False by simp
    qed
  qed
  have inj: "inj_on (bs_host_to_pfs st) (dom (bs_host_to_pfs st))" using ok by (simp add: numbers_ok_def)
  have "inj_on (bs_host_to_pfs st') (dom (bs_host_to_pfs st'))"
    using inj other unfolding st'(1) inj_on_def dom_def by (auto split: if_splits)
  moreover have "1 < unat i \<and> unat i < unat (bs_next_ino st') \<and>
        (unat i < b_start B \<longrightarrow> (\<exists>q\<in>set (vis @ [p]). t_ino T q = j \<and> b_num B q = Some i))"
    if "bs_host_to_pfs st' j = Some i" for j i
  proof (cases "j = t_ino T p")
    case True
    with that st'(1) have "i = ?i" by simp
    with True cur show ?thesis by auto
  next
    case False
    with that st'(1) have "bs_host_to_pfs st j = Some i" by simp
    with ok st'(2) show ?thesis by (fastforce simp: numbers_ok_def)
  qed
  ultimately show ?thesis unfolding numbers_ok_def by blast
qed

lemma map_of_AList_update: "map_of (AList.update k v xs) k' = (if k' = k then Some v else map_of xs k')"
  by (simp add: update_conv')

lemma map_of_dirs_add_entry:
  "map_of dirs k = Some d \<Longrightarrow>
   map_of (dirs_add_entry k n i dirs) k' = (if k' = k then Some (add_entry n i d) else map_of dirs k')"
  by (simp add: dirs_add_entry_def map_of_AList_update)

lemma keys_dirs_add_entry:
  "fst ` set (dirs_add_entry k n i dirs) = fst ` set dirs"
  "distinct (map fst dirs) \<Longrightarrow> distinct (map fst (dirs_add_entry k n i dirs))"
proof -
  show "fst ` set (dirs_add_entry k n i dirs) = fst ` set dirs"
    by (auto simp: dirs_add_entry_def dom_update dest: map_of_SomeD split: option.split intro: rev_image_eqI)
  show "distinct (map fst dirs) \<Longrightarrow> distinct (map fst (dirs_add_entry k n i dirs))"
    by (simp add: dirs_add_entry_def distinct_update split: option.split)
qed

text \<open>Numbers that are already given stay.\<close>

lemma num_cong:
  assumes "\<forall>p\<in>A. bs_host_to_pfs st' (t_ino T p) = bs_host_to_pfs st (t_ino T p)" and "p \<in> A"
  shows "num rootfs T st' p = num rootfs T st p" "entry_of rootfs T st' p = entry_of rootfs T st p"
    "file_of rootfs T st' p = file_of rootfs T st p" "other_of rootfs T st' p = other_of rootfs T st p"
  using assms by (simp_all add: num_def entry_of_def file_of_def other_of_def)

lemma typed_paths_map_cong:
  assumes "\<forall>p\<in>set vis. bs_host_to_pfs st' (t_ino T p) = bs_host_to_pfs st (t_ino T p)"
  shows "map (file_of rootfs T st') (typed_paths T tys vis) = map (file_of rootfs T st) (typed_paths T tys vis)"
    "map (other_of rootfs T st') (typed_paths T tys vis) = map (other_of rootfs T st) (typed_paths T tys vis)"
  using num_cong [OF assms] by (auto dest: typed_paths_subset)

lemma num_same:
  assumes "bs_host_to_pfs st' = bs_host_to_pfs st"
  shows "num rootfs T st' = num rootfs T st" "file_of rootfs T st' = file_of rootfs T st"
    "other_of rootfs T st' = other_of rootfs T st" "dir_of rootfs T g v st' = dir_of rootfs T g v st"
  using assms by (simp_all add: fun_eq_iff num_def file_of_def other_of_def dir_of_def entry_of_def)

text \<open>One entry \<open>p\<close> of the directory \<open>d\<close>, visited after \<open>vis\<close>.\<close>

definition fresh_entry :: "path \<Rightarrow> tree \<Rightarrow> base \<Rightarrow> path list \<Rightarrow> path list \<Rightarrow> path \<Rightarrow> bytes \<Rightarrow> bool" where
  "fresh_entry rootfs T B opened vis d n \<longleftrightarrow>
     set vis \<subseteq> set (t_entries T (t_dirs T)) \<and> d \<in> insert rootfs (set vis) \<and> d \<in> set (t_dirs T) \<and>
     n \<in> set (t_names T d) \<and> d @ [Normal n] \<notin> insert rootfs (set vis) \<and> d @ [Normal n] \<notin> set opened \<and>
     (\<forall>q\<in>set vis. butlast q \<noteq> d @ [Normal n]) \<and> b_start B + length vis + 1 < 2 ^ 64"

lemma file_name_snoc [simp]: "file_name (d @ [Normal n]) = n"
  by (simp add: file_name_def)

lemma links_okD:
  assumes "links_ok rootfs T" and "p \<in> t_paths rootfs T" and "q \<in> t_paths rootfs T" and "t_ino T p = t_ino T q"
  shows "t_md T p = t_md T q" "t_additional T p = t_additional T q" "t_data T p = t_data T q"
    "t_type T p = FtDir \<Longrightarrow> p = q"
  using assms unfolding links_ok_def by blast+

lemma fresh_entryD:
  assumes "fresh_entry rootfs T B opened vis d n" and "walk_order rootfs T" and "p = d @ [Normal n]"
  shows "p \<in> t_paths rootfs T" "d \<in> t_paths rootfs T" "t_type T d = FtDir" "p \<notin> insert rootfs (set vis)"
    "set vis \<subseteq> set (t_entries T (t_dirs T))" "d \<in> insert rootfs (set vis)" "\<forall>q\<in>set vis. butlast q \<noteq> p"
    "b_start B + length vis + 1 < 2 ^ 64" "p \<in> set (t_entries T (t_dirs T))" "p \<notin> set opened"
proof -
  show d: "d \<in> t_paths rootfs T" "t_type T d = FtDir"
    using assms(1) walk_orderD(6,7) [OF assms(2)] unfolding fresh_entry_def by blast+
  show "p \<in> t_paths rootfs T" "p \<notin> insert rootfs (set vis)"
    "set vis \<subseteq> set (t_entries T (t_dirs T))" "d \<in> insert rootfs (set vis)" "\<forall>q\<in>set vis. butlast q \<noteq> p"
    "b_start B + length vis + 1 < 2 ^ 64" "p \<in> set (t_entries T (t_dirs T))" "p \<notin> set opened"
    using assms(1,3) by (auto simp: fresh_entry_def t_entries_iff)
qed

text \<open>Adding an entry to a directory that is known.\<close>

lemma dirs_ok_add:
  assumes inv: "dirs_ok rootfs T gone vis st" and links: "links_ok rootfs T"
    and vis: "set vis \<subseteq> set (t_entries T (t_dirs T))" and d: "d \<in> insert rootfs (set vis)" "t_type T d = FtDir"
    and st2: "\<forall>q\<in>set vis. bs_host_to_pfs st2 (t_ino T q) = bs_host_to_pfs st (t_ino T q)"
    and upd: "add_entry n i (dir_of rootfs T gone vis st2 d) = dir_of rootfs T gone' vis' st2 d"
      "\<And>q. q \<noteq> d \<Longrightarrow> q \<in> insert rootfs (set vis) \<Longrightarrow> dir_of rootfs T gone' vis' st2 q = dir_of rootfs T gone vis st2 q"
    and dirs: "dirs = dirs_add_entry (t_ino T d) n i (bs_dirs st)"
  shows "distinct (map fst dirs)" "fst ` set dirs = t_ino T ` {p \<in> insert rootfs (set vis). t_type T p = FtDir}"
    "\<And>q. q \<in> insert rootfs (set vis) \<Longrightarrow> t_type T q = FtDir \<Longrightarrow>
       map_of dirs (t_ino T q) = Some (dir_of rootfs T gone' vis' st2 q)"
proof -
  show "distinct (map fst dirs)" "fst ` set dirs = t_ino T ` {p \<in> insert rootfs (set vis). t_type T p = FtDir}"
    using inv by (simp_all add: dirs_ok_def dirs keys_dirs_add_entry)
  fix q
  assume q: "q \<in> insert rootfs (set vis)" "t_type T q = FtDir"
  have old: "map_of (bs_dirs st) (t_ino T x) = Some (dir_of rootfs T gone vis st x)" if "x \<in> {d, q}" for x
    using inv d q that unfolding dirs_ok_def by blast
  have same: "dir_of rootfs T gone vis st x = dir_of rootfs T gone vis st2 x" if "x \<in> insert rootfs (set vis)" for x
  proof -
    have "num rootfs T st2 x = num rootfs T st x" using that st2 by (auto simp: num_def)
    moreover have "map (entry_of rootfs T st2) (filter (\<lambda>q. butlast q = x) vis) =
        map (entry_of rootfs T st) (filter (\<lambda>q. butlast q = x) vis)"
      using num_cong(2) [OF st2] by simp
    ultimately show ?thesis by (simp add: dir_of_def)
  qed
  show "map_of dirs (t_ino T q) = Some (dir_of rootfs T gone' vis' st2 q)"
  proof (cases "q = d")
    case True
    with old [of d] same [OF d(1)] upd(1) show ?thesis by (simp add: dirs map_of_dirs_add_entry)
  next
    case False
    have "q \<in> t_paths rootfs T" "d \<in> t_paths rootfs T" using q(1) d(1) vis by auto
    then have "t_ino T q \<noteq> t_ino T d" using links_okD(4) [OF links, of q d] q(2) False by blast
    then show ?thesis using old [of d] old [of q] same [OF q(1)] upd(2) [OF False q(1)] by (simp add: dirs map_of_dirs_add_entry)
  qed
qed

lemma dir_of_snoc:
  assumes "p = d @ [Normal n]"
  shows "add_entry n (num rootfs T st p) (dir_of rootfs T gone vis st d) = dir_of rootfs T gone (vis @ [p]) st d"
    "q \<noteq> d \<Longrightarrow> dir_of rootfs T gone (vis @ [p]) st q = dir_of rootfs T gone vis st q"
  by (simp_all add: add_entry_def dir_of_def entry_of_def assms)

text \<open>Recording a new directory, or leaving the directories as they are.\<close>

lemma dirs_ok_insert:
  assumes links: "links_ok rootfs T" and vis: "set vis \<subseteq> set (t_entries T (t_dirs T))" "p \<in> t_paths rootfs T"
    and dirs: "distinct (map fst dirs)" "fst ` set dirs = t_ino T ` {p \<in> insert rootfs (set vis). t_type T p = FtDir}"
      "\<And>q. q \<in> insert rootfs (set vis) \<Longrightarrow> t_type T q = FtDir \<Longrightarrow> map_of dirs (t_ino T q) = Some (f q)"
    and dirs': "dirs' = (if t_type T p = FtDir then AList.update (t_ino T p) (f p) dirs else dirs)"
  shows "distinct (map fst dirs') \<and>
    fst ` set dirs' = t_ino T ` {x \<in> insert rootfs (set (vis @ [p])). t_type T x = FtDir} \<and>
    (\<forall>x\<in>insert rootfs (set (vis @ [p])). t_type T x = FtDir \<longrightarrow> map_of dirs' (t_ino T x) = Some (f x))"
proof (intro conjI ballI impI)
  show "distinct (map fst dirs')" using dirs(1) by (simp add: dirs' distinct_update)
  show "fst ` set dirs' = t_ino T ` {x \<in> insert rootfs (set (vis @ [p])). t_type T x = FtDir}"
    using dirs(2) by (auto simp: dirs' dom_update)
  show "map_of dirs' (t_ino T x) = Some (f x)"
    if x: "x \<in> insert rootfs (set (vis @ [p]))" "t_type T x = FtDir" for x
  proof (cases "x = p")
    case True
    with x show ?thesis by (simp add: dirs' map_of_AList_update)
  next
    case False
    then have "map_of dirs (t_ino T x) = Some (f x)" using dirs(3) [of x] x by simp
    moreover have "t_ino T x \<noteq> t_ino T p" if "t_type T p = FtDir"
      using links_okD(4) [OF links _ vis(2), of x] x vis(1) False by auto
    ultimately show ?thesis by (simp add: dirs' map_of_AList_update)
  qed
qed

section \<open>Visiting an entry\<close>

text \<open>The state in which \<open>visit_entry\<close> renders: the number is taken and the parent has its entry.\<close>

definition entered :: "tree \<Rightarrow> base \<Rightarrow> path \<Rightarrow> path \<Rightarrow> build_state \<Rightarrow> build_state" where
  "entered T B d p st =
     st\<lparr>bs_next_ino := (if b_num B p = None then bs_next_ino st + 1 else bs_next_ino st),
        bs_dirs := dirs_add_entry (t_ino T d) (file_name p)
          (case bs_host_to_pfs st (t_ino T p) of Some i \<Rightarrow> i | None \<Rightarrow> cur_num B st p) (bs_dirs st)\<rparr>"

lemma host_showsD:
  assumes "host_shows h open_file rootfs T" and "p \<in> t_paths rootfs T"
  shows "h_symlink_metadata h p = Ok (t_md T p)" "additional_of h p (t_md T p) = Ok (t_additional T p)"
    "t_type T p = FtFile \<Longrightarrow> open_file p = Ok (t_data T p)"
    "t_type T p = FtFile \<Longrightarrow> unat (md_len (t_md T p)) = length (t_data T p)"
  using assms unfolding host_shows_def by blast+

lemma t_paths_prefix:
  assumes "walk_order rootfs T" and "p \<in> t_paths rootfs T"
  obtains ns where "p = rootfs @ map Normal ns"
  using prefix_rootfs [OF assms(1), of "t_dirs T" "[]" p] assms(2) by auto

lemma next_ino_fresh:
  assumes "tree_inv rootfs T B opened vis st" and "b_start B + length vis + 1 < 2 ^ 64" and "2 \<le> b_start B"
  shows "unat (bs_next_ino st) + 1 < 2 ^ 64" "bs_next_ino st \<noteq> 1" "unat (bs_next_ino st + 1) = Suc (unat (bs_next_ino st))"
    "b_start B \<le> unat (bs_next_ino st)"
proof -
  have len: "length (filter (\<lambda>p. b_num B p = None) vis) \<le> length vis" by simp
  with assms(2) tree_invD(2) [OF assms(1)] show less: "unat (bs_next_ino st) + 1 < 2 ^ 64" by linarith
  show "b_start B \<le> unat (bs_next_ino st)" using tree_invD(2) [OF assms(1)] by simp
  with assms(3) show "bs_next_ino st \<noteq> 1" by auto
  from less show "unat (bs_next_ino st + 1) = Suc (unat (bs_next_ino st))" by (simp add: unat_word_ariths)
qed

lemma existing_lookup:
  assumes "lookups_ok existing rootfs T" and "walk_order rootfs T" and "p \<in> t_paths rootfs T"
    and "B = base_of existing rootfs T"
  shows "\<exists>r. lookup_existing existing (RootDir # drop (length rootfs) p) = Ok r \<and> map_option i_ino r = b_num B p \<and>
      filter (\<lambda>e. de_name e \<notin> set (t_names T p)) (old_entries r) = b_gone B p"
    "rootfs_relative rootfs p = Ok (RootDir # drop (length rootfs) p)"
proof -
  from assms(1,3) obtain r where "lookup_existing existing (RootDir # drop (length rootfs) p) = Ok r"
    by (auto simp: lookups_ok_def)
  then show "\<exists>r. lookup_existing existing (RootDir # drop (length rootfs) p) = Ok r \<and> map_option i_ino r = b_num B p \<and>
      filter (\<lambda>e. de_name e \<notin> set (t_names T p)) (old_entries r) = b_gone B p"
    by (cases existing) (auto simp: assms(4) lookup_existing_def existing_at_def old_entries_def)
  obtain ns where "p = rootfs @ map Normal ns" using t_paths_prefix [OF assms(2,3)] .
  then show "rootfs_relative rootfs p = Ok (RootDir # drop (length rootfs) p)" by (simp add: rootfs_relative_def)
qed

lemma take_ino_cur:
  assumes "map_option i_ino r = b_num B p" and "unat (bs_next_ino st) + 1 < 2 ^ 64"
  shows "take_ino r st = Ok (cur_num B st p,
    st\<lparr>bs_next_ino := (if b_num B p = None then bs_next_ino st + 1 else bs_next_ino st)\<rparr>)"
  using assms by (cases r) (auto simp: take_ino_def cur_num_def next_u64_def)

lemma visit_entry_step:
  assumes inv: "tree_inv rootfs T B opened vis st" and host: "host_shows h open_file rootfs T"
    and base: "B = base_of existing rootfs T" "lookups_ok existing rootfs T" "links_kept T B"
    and fresh: "fresh_entry rootfs T B opened vis d n" and p: "p = d @ [Normal n]"
  shows "visit_entry h existing rootfs st p =
    (if bs_host_to_pfs st (t_ino T p) \<noteq> None then Ok (entered T B d p st)
     else render_entry h p (t_md T p) (cur_num B st p) (entered T B d p st))"
proof -
  from host have walk: "walk_order rootfs T" by (simp add: host_shows_def)
  note D = fresh_entryD [OF fresh walk p] and N = next_ino_fresh [OF inv _ links_keptD(1) [OF base(3)]]
  from existing_lookup [OF base(2) walk D(1) base(1)] obtain r where
    r: "lookup_existing existing (RootDir # drop (length rootfs) p) = Ok r" "map_option i_ino r = b_num B p"
    "rootfs_relative rootfs p = Ok (RootDir # drop (length rootfs) p)" by auto
  then have ex: "(case existing of None \<Rightarrow> Ok None
       | Some pfs \<Rightarrow> and_then (rootfs_relative rootfs p) (PuzzleFS_lookup pfs)) = Ok r"
    by (simp add: lookup_existing_def split: option.splits)
  have cur: "cur_num B st p \<noteq> 1"
    using N(2) [OF D(8)] links_keptD(4) [OF base(3) D(9)] by (cases "b_num B p") (auto simp: cur_num_def)
  have "map_of (bs_dirs st) (t_ino T d) = Some (dir_of rootfs T (opened_gone B opened) vis st d)"
    using tree_invD(3) [OF inv D(6,3)] .
  moreover have "pop p = d" "p \<noteq> []" "last p \<noteq> RootDir" "file_name p = n" by (auto simp: pop_def p)
  ultimately show ?thesis
    using cur
    by (simp add: visit_entry_def host_showsD(1) [OF host D(1)] host_showsD(1) [OF host D(2)] ex
        take_ino_cur [OF r(2) N(1) [OF D(8)]] add_to_parent_def Let_def entered_def)
qed

lemma tree_inv_link:
  assumes inv: "tree_inv rootfs T B opened vis st" and walk: "walk_order rootfs T" and links: "links_ok rootfs T"
    and kept: "links_kept T B" and fresh: "fresh_entry rootfs T B opened vis d n" and p: "p = d @ [Normal n]"
    and linked: "bs_host_to_pfs st (t_ino T p) = Some i"
  shows "tree_inv rootfs T B opened (vis @ [p]) (entered T B d p st)"
proof -
  note D = fresh_entryD [OF fresh walk p] and N = next_ino_fresh [OF inv _ links_keptD(1) [OF kept]]
  define st1 where "st1 = entered T B d p st"
  have "t_ino T p \<in> dom (bs_host_to_pfs st)" using linked by blast
  then have known: "t_ino T p \<in> t_ino T ` set vis" using tree_invD(1) [OF inv] by simp
  then obtain q where q: "q \<in> set vis" "t_ino T q = t_ino T p" by auto
  then have qp: "t_md T q = t_md T p" "t_type T p \<noteq> FtDir"
    using links_okD [OF links _ D(1), of q] D(4,5) by auto
  have h2p: "bs_host_to_pfs st1 = bs_host_to_pfs st" by (simp add: st1_def entered_def)
  note eqs = num_same [OF h2p]
  have the_ino: "num rootfs T st p = i" using D(4) linked by (simp add: num_def)
  have n: "unat (bs_next_ino st1) = unat (bs_next_ino st) + (if b_num B p = None then 1 else 0)"
    using N(3) [OF D(8)] by (simp add: st1_def entered_def)
  have dirs: "bs_dirs st1 = dirs_add_entry (t_ino T d) n (num rootfs T st p) (bs_dirs st)"
    using file_name_snoc [of d n] by (simp add: st1_def entered_def linked the_ino p [symmetric])
  have only: "{x \<in> insert rootfs (set (vis @ [p])). t_type T x = FtDir} = {x \<in> insert rootfs (set vis). t_type T x = FtDir}"
    using qp(2) by auto
  note add = dirs_ok_add [OF tree_invD(9) [OF inv] links D(5,6,3) _ dir_of_snoc(1) [OF p] dir_of_snoc(2) [OF p] dirs]
  show ?thesis
    unfolding tree_inv_def st1_def [symmetric]
  proof (intro conjI)
    show "dom (bs_host_to_pfs st1) = t_ino T ` set (vis @ [p])"
      using tree_invD(1) [OF inv] known by (auto simp: h2p)
    show "unat (bs_next_ino st1) = b_start B + length (filter (\<lambda>p. b_num B p = None) (vis @ [p]))"
      using tree_invD(2) [OF inv] by (simp add: n)
    show "numbers_ok T B (vis @ [p]) st1"
      using numbers_ok_mono [OF tree_invD(7) [OF inv] h2p, of "vis @ [p]"] by (auto simp: n)
    show "dirs_ok rootfs T (opened_gone B opened) (vis @ [p]) st1"
      unfolding dirs_ok_def eqs only using add qp(2) by auto
    show "bs_stream st1 = stream_of (typed_paths T {FtFile} (vis @ [p]))"
      "bs_files st1 = map (file_of rootfs T st1) (typed_paths T {FtFile} (vis @ [p]))"
      "bs_others st1 = map (other_of rootfs T st1) (typed_paths T (- {FtFile, FtDir}) (vis @ [p]))"
      "bs_inodes st1 = map (\<lambda>e. new_whiteout (de_ino e)) (gone_entries B opened)"
      using tree_invD(4-6,8) [OF inv] unfolding eqs by (simp_all add: typed_paths_linked known st1_def entered_def)
  qed
qed

lemma tree_inv_render:
  assumes inv: "tree_inv rootfs T B opened vis st" and walk: "walk_order rootfs T" and links: "links_ok rootfs T"
    and kept: "links_kept T B" and fresh: "fresh_entry rootfs T B opened vis d n" and p: "p = d @ [Normal n]"
    and unlinked: "bs_host_to_pfs st (t_ino T p) = None" and add: "additional_of h p (t_md T p) = Ok (t_additional T p)"
  shows "\<exists>st'. render_entry h p (t_md T p) (cur_num B st p) (entered T B d p st) = Ok st' \<and>
    tree_inv rootfs T B opened (vis @ [p]) st'"
proof -
  note D = fresh_entryD [OF fresh walk p] and N = next_ino_fresh [OF inv _ links_keptD(1) [OF kept]]
  let ?gone = "opened_gone B opened"
  define cur where "cur = cur_num B st p"
  define st2 where "st2 = (entered T B d p st)\<lparr>bs_host_to_pfs := (bs_host_to_pfs st)(t_ino T p \<mapsto> cur)\<rparr>"
  define dirs where "dirs = (if t_type T p = FtDir
    then AList.update (t_ino T p) (dir_of rootfs T ?gone (vis @ [p]) st2 p) (bs_dirs st2) else bs_dirs st2)"
  define st' where "st' = st2\<lparr>bs_dirs := dirs,
    bs_stream := (if t_type T p = FtFile then FilesystemStream_push (bs_stream st) p else bs_stream st),
    bs_files := (if t_type T p = FtFile then bs_files st @ [file_of rootfs T st2 p] else bs_files st),
    bs_others := (if t_type T p \<in> {FtDir, FtFile} then bs_others st else bs_others st @ [other_of rootfs T st2 p])\<rparr>"
  have np: "num rootfs T st2 p = cur" using D(4) by (simp add: num_def st2_def)
  have "filter (\<lambda>q. butlast q = p) (vis @ [p]) = []" using D(7) by (auto simp: filter_empty_conv p)
  moreover have "?gone p = []" using D(10) by (simp add: opened_gone_def)
  ultimately have dir: "dir_of rootfs T ?gone (vis @ [p]) st2 p =
      \<lparr>bd_ino = cur, bd_entries = [], bd_md = t_md T p, bd_additional = t_additional T p\<rparr>"
    by (simp only: dir_of_def np list.map append.simps)
  have st2: "(entered T B d p st)\<lparr>bs_host_to_pfs := (bs_host_to_pfs (entered T B d p st))(t_ino T p \<mapsto> cur)\<rparr> = st2"
    and sel: "bs_stream st2 = bs_stream st" "bs_files st2 = bs_files st" "bs_others st2 = bs_others st"
      "bs_inodes st2 = bs_inodes st"
    by (simp_all add: st2_def entered_def)
  have dirs2: "bs_dirs st2 = dirs_add_entry (t_ino T d) n (num rootfs T st2 p) (bs_dirs st)"
    unfolding np using file_name_snoc [of d n] by (simp add: st2_def entered_def unlinked p [symmetric] cur_def)
  have render: "render_entry h p (t_md T p) cur (entered T B d p st) = Ok st'"
    by (cases "t_type T p")
      (simp_all add: render_entry_def add Let_def st2 st'_def dirs_def dir file_of_def other_of_def np sel)
  have unknown: "t_ino T p \<notin> t_ino T ` set vis" using unlinked unfolding tree_invD(1) [OF inv, symmetric] by blast
  then have "t_ino T q \<noteq> t_ino T p" if "q \<in> set vis" for q using imageI [OF that, of "t_ino T"] by auto
  then have fixed: "\<forall>q\<in>set vis. bs_host_to_pfs st2 (t_ino T q) = bs_host_to_pfs st (t_ino T q)"
    by (simp add: st2_def)
  have h2p: "bs_host_to_pfs st' = bs_host_to_pfs st2" by (simp add: st'_def)
  note eqs = num_same [OF h2p]
  have n: "unat (bs_next_ino st') = unat (bs_next_ino st) + (if b_num B p = None then 1 else 0)"
    using N(3) [OF D(8)] by (simp add: st'_def st2_def entered_def)
  have st'_dirs: "bs_dirs st' = (if t_type T p = FtDir
    then AList.update (t_ino T p) (dir_of rootfs T ?gone (vis @ [p]) st2 p) (bs_dirs st2) else bs_dirs st2)"
    by (simp add: st'_def dirs_def)
  note added = dirs_ok_add [OF tree_invD(9) [OF inv] links D(5,6,3) fixed dir_of_snoc(1) [OF p] dir_of_snoc(2) [OF p] dirs2]
  have "tree_inv rootfs T B opened (vis @ [p]) st'"
    unfolding tree_inv_def
  proof (intro conjI)
    show "dom (bs_host_to_pfs st') = t_ino T ` set (vis @ [p])"
      using tree_invD(1) [OF inv] by (auto simp: h2p st2_def)
    show "unat (bs_next_ino st') = b_start B + length (filter (\<lambda>p. b_num B p = None) (vis @ [p]))"
      using tree_invD(2) [OF inv] by (simp add: n)
    show "numbers_ok T B (vis @ [p]) st'"
      using numbers_ok_new [OF tree_invD(7) [OF inv] unlinked kept D(9,5) N(4) [OF D(8)] _ n] by (simp add: h2p st2_def cur_def)
    show "dirs_ok rootfs T ?gone (vis @ [p]) st'"
      unfolding dirs_ok_def eqs
      using dirs_ok_insert [OF links D(5,1) added st'_dirs] .
    show "bs_stream st' = stream_of (typed_paths T {FtFile} (vis @ [p]))"
      "bs_files st' = map (file_of rootfs T st') (typed_paths T {FtFile} (vis @ [p]))"
      "bs_others st' = map (other_of rootfs T st') (typed_paths T (- {FtFile, FtDir}) (vis @ [p]))"
      "bs_inodes st' = map (\<lambda>e. new_whiteout (de_ino e)) (gone_entries B opened)"
      using tree_invD(4-6,8) [OF inv] typed_paths_map_cong [OF fixed] unfolding eqs
      by (simp_all add: st'_def typed_paths_new [OF unknown] stream_of_snoc insert_commute sel)
  qed
  with render show ?thesis unfolding cur_def by blast
qed

lemma visit_entry_tree:
  assumes inv: "tree_inv rootfs T B opened vis st" and host: "host_shows h open_file rootfs T"
    and base: "B = base_of existing rootfs T" "lookups_ok existing rootfs T" "links_kept T B"
    and fresh: "fresh_entry rootfs T B opened vis d n" and p: "p = d @ [Normal n]"
  shows "\<exists>st'. visit_entry h existing rootfs st p = Ok st' \<and> tree_inv rootfs T B opened (vis @ [p]) st'"
proof -
  from host have walk: "walk_order rootfs T" and links: "links_ok rootfs T" by (simp_all add: host_shows_def)
  have add: "additional_of h p (t_md T p) = Ok (t_additional T p)"
    using host_showsD(2) [OF host] fresh_entryD(1) [OF fresh walk p] .
  show ?thesis
    using visit_entry_step [OF inv host base fresh p] tree_inv_link [OF inv walk links base(3) fresh p]
      tree_inv_render [OF inv walk links base(3) fresh p _ add]
    by (cases "bs_host_to_pfs st (t_ino T p)") auto
qed

section \<open>Opening a directory\<close>

lemma bs_inodes_same:
  assumes "bs_host_to_pfs st' = bs_host_to_pfs st" "bs_next_ino st' = bs_next_ino st" "bs_files st' = bs_files st"
    "bs_others st' = bs_others st" "bs_stream st' = bs_stream st"
    and "tree_inv rootfs T B opened vis st" and "dirs_ok rootfs T (opened_gone B opened') vis st'"
    and "bs_inodes st' = map (\<lambda>e. new_whiteout (de_ino e)) (gone_entries B opened')"
  shows "tree_inv rootfs T B opened' vis st'"
  using assms(6-8) unfolding tree_inv_def num_same(2-3) [OF assms(1)] numbers_ok_def assms(1-5) by blast

lemma add_whiteouts_state:
  "bs_host_to_pfs (add_whiteouts names k st es) = bs_host_to_pfs st"
  "bs_next_ino (add_whiteouts names k st es) = bs_next_ino st"
  "bs_files (add_whiteouts names k st es) = bs_files st"
  "bs_others (add_whiteouts names k st es) = bs_others st"
  "bs_stream (add_whiteouts names k st es) = bs_stream st"
  "bs_inodes (add_whiteouts names k st es) =
     bs_inodes st @ map (\<lambda>e. new_whiteout (de_ino e)) (filter (\<lambda>e. de_name e \<notin> set names) es)"
  by (induction es arbitrary: st) auto

lemma add_whiteouts_dirs:
  assumes "dirs_ok rootfs T gone vis st" and links: "links_ok rootfs T"
    and vis: "set vis \<subseteq> set (t_entries T (t_dirs T))" and d: "d \<in> insert rootfs (set vis)" "t_type T d = FtDir"
    and "filter (\<lambda>q. butlast q = d) vis = []"
  shows "dirs_ok rootfs T (gone(d := gone d @ filter (\<lambda>e. de_name e \<notin> set names) es)) vis
    (add_whiteouts names (t_ino T d) st es)"
  using assms(1)
proof (induction es arbitrary: gone st)
  case (Cons e es)
  show ?case
  proof (cases "de_name e \<in> set names")
    case True
    with Cons show ?thesis by simp
  next
    case False
    let ?st = "st\<lparr>bs_inodes := bs_inodes st @ [new_whiteout (de_ino e)],
      bs_dirs := dirs_add_entry (t_ino T d) (de_name e) (de_ino e) (bs_dirs st)\<rparr>"
    define g where "g = gone(d := gone d @ [e])"
    have g: "g(d := g d @ ws) = gone(d := gone d @ e # ws)" for ws by (simp add: g_def)
    have "add_entry (de_name e) (de_ino e) (dir_of rootfs T gone vis st d) = dir_of rootfs T g vis st d"
      "\<And>q. q \<noteq> d \<Longrightarrow> dir_of rootfs T g vis st q = dir_of rootfs T gone vis st q"
      using assms(6) by (simp_all add: add_entry_def dir_of_def g_def)
    from dirs_ok_add [OF Cons.prems links vis d _ this refl] have "dirs_ok rootfs T g vis ?st"
      unfolding dirs_ok_def num_same(4) [of ?st st, simplified] by simp
    from Cons.IH [OF this] False show ?thesis unfolding g by simp
  qed
qed simp

lemma tree_inv_open:
  assumes inv: "tree_inv rootfs T B opened vis st" and links: "links_ok rootfs T"
    and vis: "set vis \<subseteq> set (t_entries T (t_dirs T))" and d: "d \<in> insert rootfs (set vis)" "t_type T d = FtDir"
    and new: "filter (\<lambda>q. butlast q = d) vis = []" "d \<notin> set opened"
    and es: "filter (\<lambda>e. de_name e \<notin> set names) es = b_gone B d"
  shows "tree_inv rootfs T B (opened @ [d]) vis (add_whiteouts names (t_ino T d) st es)"
proof -
  have "(opened_gone B opened)(d := opened_gone B opened d @ filter (\<lambda>e. de_name e \<notin> set names) es) =
      opened_gone B (opened @ [d])"
    using new(2) by (auto simp: fun_eq_iff opened_gone_def es)
  with add_whiteouts_dirs [OF tree_invD(9) [OF inv] links vis d new(1), of names es]
  have "dirs_ok rootfs T (opened_gone B (opened @ [d])) vis (add_whiteouts names (t_ino T d) st es)" by simp
  from bs_inodes_same [OF add_whiteouts_state(1-5) inv this] show ?thesis
    by (simp add: add_whiteouts_state es tree_invD(8) [OF inv] gone_entries_snoc)
qed

section \<open>The whole scan\<close>

definition t_small :: "tree \<Rightarrow> bool" where
  "t_small T \<longleftrightarrow> length (t_entries T (t_dirs T)) + 2 < 2 ^ 64"

text \<open>A directory that is opened next has been found, and none of its entries has been visited.\<close>

lemma next_dir:
  assumes walk: "walk_order rootfs T" and dirs: "t_dirs T = ds @ d # later"
  shows "d \<in> insert rootfs (set (t_entries T ds))" "filter (\<lambda>q. butlast q = d) (t_entries T ds) = []" "d \<notin> set ds"
    "set (t_entries T ds) \<subseteq> set (t_entries T (t_dirs T))" "d \<in> set (t_dirs T)"
proof -
  show "d \<in> insert rootfs (set (t_entries T ds))" using walk_order_prefix [OF walk dirs] by blast
  show d: "d \<notin> set ds" "d \<in> set (t_dirs T)" using walk_orderD(3) [OF walk] by (auto simp: dirs)
  show "filter (\<lambda>q. butlast q = d) (t_entries T ds) = []" using d(1) by (auto simp: filter_empty_conv t_entries_iff)
  show "set (t_entries T ds) \<subseteq> set (t_entries T (t_dirs T))" by (simp add: dirs t_entries_append)
qed

lemma fresh_entryI:
  assumes walk: "walk_order rootfs T" and "t_small_over B T" and dirs: "t_dirs T = ds @ d # later"
    and names: "t_names T d = us @ n # ns" and vis: "vis = t_entries T ds @ map (\<lambda>n. d @ [Normal n]) us"
  shows "fresh_entry rootfs T B (ds @ [d]) vis d n"
proof -
  let ?p = "d @ [Normal n]"
  have total: "t_entries T (t_dirs T) = vis @ ?p # map (\<lambda>n. d @ [Normal n]) ns @ t_entries T later"
    by (simp add: dirs vis t_entries_append t_entries_def dir_paths_def names)
  then have new: "?p \<notin> set vis" using walk_orderD(4) [OF walk] by auto
  have d: "d \<in> insert rootfs (set vis)" using next_dir(1) [OF walk dirs] by (auto simp: vis)
  have "\<exists>ms. d = rootfs @ map Normal ms" using prefix_rootfs [OF walk dirs next_dir(1) [OF walk dirs]] .
  then have root: "?p \<noteq> rootfs" by auto
  have later: "?p \<notin> set ds"
  proof
    assume "?p \<in> set ds"
    then obtain ds1 ds2 where ds: "ds = ds1 @ ?p # ds2" by (meson split_list)
    with dirs walk_order_prefix [OF walk, of ds1 ?p "ds2 @ d # later"] root
    have "?p \<in> set (t_entries T ds1)" by simp
    with ds new show False by (auto simp: vis t_entries_append)
  qed
  then have "\<forall>q\<in>set vis. butlast q \<noteq> ?p" by (auto simp: vis t_entries_iff)
  with new d root later total assms(2) show ?thesis
    by (auto simp: fresh_entry_def t_small_over_def dirs names vis)
qed

lemma visit_entries_tree:
  assumes host: "host_shows h open_file rootfs T"
    and base: "B = base_of existing rootfs T" "lookups_ok existing rootfs T" "links_kept T B" "t_small_over B T"
    and dirs: "t_dirs T = ds @ d # later"
    and "t_names T d = us @ ns" and "tree_inv rootfs T B (ds @ [d]) (t_entries T ds @ map (\<lambda>n. d @ [Normal n]) us) st"
  shows "\<exists>st'. visit_entries h existing rootfs st (map (\<lambda>n. d @ [Normal n]) ns) = Ok st' \<and>
    tree_inv rootfs T B (ds @ [d]) (t_entries T (ds @ [d])) st'"
  using assms(7,8)
proof (induction ns arbitrary: us st)
  case Nil
  then show ?case by (simp add: t_entries_snoc dir_paths_def)
next
  case (Cons n ns)
  from host have walk: "walk_order rootfs T" by (simp add: host_shows_def)
  note fresh = fresh_entryI [OF walk base(4) dirs Cons.prems(1) refl]
  from visit_entry_tree [OF Cons.prems(2) host base(1-3) fresh refl] obtain st1 where
    "visit_entry h existing rootfs st (d @ [Normal n]) = Ok st1"
    "tree_inv rootfs T B (ds @ [d]) (t_entries T ds @ map (\<lambda>n. d @ [Normal n]) (us @ [n])) st1" by auto
  with Cons.IH [of "us @ [n]" st1] Cons.prems(1) show ?case by auto
qed

lemma visit_dir_tree:
  assumes host: "host_shows h open_file rootfs T"
    and base: "B = base_of existing rootfs T" "lookups_ok existing rootfs T" "links_kept T B" "t_small_over B T"
    and dirs: "t_dirs T = ds @ d # later" and inv: "tree_inv rootfs T B ds (t_entries T ds) st"
  shows "\<exists>st'. visit_dir h existing rootfs st d = Ok st' \<and>
    tree_inv rootfs T B (ds @ [d]) (t_entries T (ds @ [d])) st'"
proof -
  from host have walk: "walk_order rootfs T" and ne: "rootfs \<noteq> []" and links: "links_ok rootfs T"
    by (simp_all add: host_shows_def)
  note nd = next_dir [OF walk dirs]
  from host nd(5) obtain ns where ns: "h_read_dir h d = Ok (map Ok ns)" "sort ns = t_names T d"
    by (auto simp: host_shows_def)
  have dp: "d \<in> t_paths rootfs T" "t_type T d = FtDir" using walk_orderD(6,7) [OF walk] nd(5) by blast+
  from existing_lookup [OF base(2) walk dp(1) base(1)] obtain r where
    r: "lookup_existing existing (RootDir # drop (length rootfs) d) = Ok r"
    "filter (\<lambda>e. de_name e \<notin> set (t_names T d)) (old_entries r) = b_gone B d"
    "rootfs_relative rootfs d = Ok (RootDir # drop (length rootfs) d)" by auto
  let ?st = "add_whiteouts (t_names T d) (t_ino T d) st (old_entries r)"
  have "collect (\<lambda>r. r) (map Ok ns) = (Ok ns :: bytes list io_result)" by (induction ns) auto
  moreover have new: "map (join d) (sort ns) = map (\<lambda>n. d @ [Normal n]) (t_names T d)"
    using walk_orderD(8) [OF walk nd(5)] ne prefix_rootfs [OF walk dirs nd(1)] by (auto simp: ns(2) join_plain)
  moreover have "map file_name (map (join d) (sort ns)) = t_names T d" unfolding new by (simp add: comp_def)
  moreover have "map_of (bs_dirs st) (t_ino T d) = Some (dir_of rootfs T (opened_gone B ds) (t_entries T ds) st d)"
    using tree_invD(3) [OF inv nd(1) dp(2)] .
  ultimately have "visit_dir h existing rootfs st d =
      visit_entries h existing rootfs ?st (map (\<lambda>n. d @ [Normal n]) (t_names T d))"
    by (simp add: visit_dir_def r(1,3) ns(1) Let_def host_showsD(1) [OF host dp(1)] old_entries_def del: map_map)
  moreover have "tree_inv rootfs T B (ds @ [d]) (t_entries T ds) ?st"
    by (rule tree_inv_open [OF inv links nd(4,1) dp(2) nd(2,3) r(2)])
  ultimately show ?thesis
    using visit_entries_tree [OF host base dirs, of "[]" "t_names T d" ?st] by simp
qed

lemma start_state_tree:
  assumes host: "host_shows h open_file rootfs T"
    and base: "B = base_of existing rootfs T" "lookups_ok existing rootfs T" "t_small_over B T"
  shows "\<exists>st. start_state h existing rootfs = Ok st \<and> tree_inv rootfs T B [] [] st"
proof -
  let ?root = "\<lparr>bd_ino = 1, bd_entries = [], bd_md = t_md T rootfs, bd_additional = t_additional T rootfs\<rparr>"
  define st where "st = \<lparr>bs_dirs = [(t_ino T rootfs, ?root)], bs_files = [], bs_others = [], bs_inodes = [],
    bs_stream = FilesystemStream_new, bs_host_to_pfs = (\<lambda>i. None), bs_next_ino = of_nat (b_start B)\<rparr>"
  have small: "b_start B < 2 ^ 64" using base(3) by (simp add: t_small_over_def)
  have "(case existing of None \<Rightarrow> Ok 2 | Some pfs \<Rightarrow> and_then (PuzzleFS_max_inode pfs) next_u64) =
      (Ok (of_nat (b_start B)) :: u64 wire_result)"
  proof (cases existing)
    case (Some pfs)
    with base(2) obtain m where "PuzzleFS_max_inode pfs = Ok m" by (auto simp: lookups_ok_def)
    with Some small base(1) show ?thesis by (simp add: next_u64_def)
  qed (simp add: base(1))
  then have "start_state h existing rootfs = Ok st"
    using host_showsD(1,2) [OF host, of rootfs] by (simp add: start_state_def st_def)
  moreover have "t_type T rootfs = FtDir" using host walk_orderD(7,9) [of rootfs T] by (simp add: host_shows_def)
  then have "tree_inv rootfs T B [] [] st"
    using small
    by (auto simp: tree_inv_def st_def dir_of_def num_def typed_paths_def firsts_def dirs_ok_def opened_gone_def
        stream_of_def numbers_ok_def gone_entries_def unat_of_nat take_bit_nat_eq_self_iff)
  ultimately show ?thesis by blast
qed

lemma scan_tree:
  assumes host: "host_shows h open_file rootfs T"
    and base: "B = base_of existing rootfs T" "lookups_ok existing rootfs T" "links_kept T B" "t_small_over B T"
  shows "\<exists>st. scan_rootfs h existing rootfs = Ok st \<and> tree_inv rootfs T B (t_dirs T) (t_entries T (t_dirs T)) st"
proof -
  have dirs: "\<exists>st'. visit_dirs h existing rootfs st (map Ok later) = Ok st' \<and>
      tree_inv rootfs T B (t_dirs T) (t_entries T (t_dirs T)) st'"
    if "t_dirs T = ds @ later" "tree_inv rootfs T B ds (t_entries T ds) st" for ds later st
    using that
  proof (induction later arbitrary: ds st)
    case (Cons d later)
    from visit_dir_tree [OF host base Cons.prems] obtain st1 where
      "visit_dir h existing rootfs st d = Ok st1" "tree_inv rootfs T B (ds @ [d]) (t_entries T (ds @ [d])) st1"
      by blast
    with Cons.IH [of "ds @ [d]" st1] Cons.prems(1) show ?case by auto
  qed simp
  from start_state_tree [OF host base(1,2,4)] obtain st where st: "start_state h existing rootfs = Ok st"
    "tree_inv rootfs T B [] [] st" by blast
  with dirs [of "[]" "t_dirs T" st] host show ?thesis
    by (auto simp: scan_rootfs_def host_shows_def t_entries_def)
qed

section \<open>The rendered layer\<close>

text \<open>
  The inode \<open>i\<close> represents the path \<open>p\<close>, with numbers given by \<open>nm\<close> and file contents by \<open>cd\<close>. The entries of a
  directory follow those that are whited out.
\<close>

definition represents_over :: "(path \<Rightarrow> DirEnt list) \<Rightarrow> host \<Rightarrow> tree \<Rightarrow> (path \<Rightarrow> Ino) \<Rightarrow> (BlobRef \<Rightarrow> bytes option) \<Rightarrow> path \<Rightarrow> Inode \<Rightarrow> bool" where
  "represents_over gone h T nm cd p i \<longleftrightarrow>
     i_ino i = nm p \<and> i_uid i = md_uid (t_md T p) \<and> i_gid i = md_gid (t_md T p) \<and>
     i_permissions i = ucast (md_mode (t_md T p) AND 0xFFF) \<and> i_additional i = t_additional T p \<and>
     (case t_type T p of
        FtDir \<Rightarrow> i_mode i = InodeMode.Dir \<lparr>dl_look_below = False,
          dl_entries = gone p @ map (\<lambda>n. \<lparr>de_ino = nm (p @ [Normal n]), de_name = n\<rparr>) (t_names T p)\<rparr>
      | FtFile \<Rightarrow> \<exists>cs. i_mode i = InodeMode.File cs \<and> chunks_readable cd cs \<and> file_bytes cd cs = t_data T p
      | FtFifo \<Rightarrow> i_mode i = Fifo
      | FtChar \<Rightarrow> i_mode i = Chr (h_major h (md_rdev (t_md T p))) (h_minor h (md_rdev (t_md T p)))
      | FtBlock \<Rightarrow> i_mode i = Blk (h_major h (md_rdev (t_md T p))) (h_minor h (md_rdev (t_md T p)))
      | FtSymlink \<Rightarrow> i_mode i = Lnk
      | FtSocket \<Rightarrow> i_mode i = Sock
      | FtOther \<Rightarrow> i_mode i = Unknown)"

abbreviation represents :: "host \<Rightarrow> tree \<Rightarrow> (path \<Rightarrow> Ino) \<Rightarrow> (BlobRef \<Rightarrow> bytes option) \<Rightarrow> path \<Rightarrow> Inode \<Rightarrow> bool" where
  "represents \<equiv> represents_over (\<lambda>d. [])"

lemmas represents_def = represents_over_def [of "\<lambda>d. []", simplified]

definition dir_inode :: "Dir \<Rightarrow> Inode" where
  "dir_inode d = new_inode (bd_ino d) (bd_md d)
     (InodeMode.Dir \<lparr>dl_look_below = False, dl_entries = bd_entries d\<rparr>) (bd_additional d)"

definition file_inode :: "bfile \<Rightarrow> Inode" where
  "file_inode f = new_inode (f_ino f) (f_md f) (InodeMode.File (f_chunks f)) (f_additional f)"

lemma new_inode_rest [simp]:
  "i_uid (new_inode ino md m a) = md_uid md" "i_gid (new_inode ino md m a) = md_gid md"
  "i_permissions (new_inode ino md m a) = ucast (md_mode md AND 0xFFF)"
  by (simp_all add: new_inode_def)

lemma collect_mem: "collect f xs = Ok ys \<Longrightarrow> x \<in> set xs \<Longrightarrow> \<exists>y\<in>set ys. f x = Ok y"
  by (induction xs arbitrary: ys) auto

lemma strip_md: "map strip fs' = map strip fs \<Longrightarrow> map f_md fs' = map f_md fs"
proof -
  have "map f_md xs = map f_md (map strip xs)" for xs by (simp add: strip_def)
  then show "map strip fs' = map strip fs \<Longrightarrow> map f_md fs' = map f_md fs" by metis
qed

lemma render_inodes_total:
  assumes "typed_inv h rootfs st" and "h_symlink_metadata h rootfs = Ok md" and "md_file_type md = FtDir"
    and "map strip files = map strip (bs_files st)" and "values_ok h"
  shows "\<exists>inodes. render_inodes h st files = Ok inodes \<and> set (bs_inodes st) \<subseteq> set inodes \<and>
    dir_inode ` snd ` set (bs_dirs st) \<subseteq> set inodes \<and>
    file_inode ` set files \<subseteq> set inodes \<and> (\<forall>x\<in>set (bs_others st). \<exists>i\<in>set inodes. render_other h x = Ok i)"
proof -
  from assms(1-3) have ty: "\<forall>f\<in>set (bs_files st). md_file_type (f_md f) = FtFile"
    "\<forall>x\<in>set (bs_others st). md_file_type (bo_md x) \<notin> {FtDir, FtFile}" "dirs_typed (bs_dirs st)"
    by (simp_all add: typed_inv_def)
  have "set (h_values h (map snd (bs_dirs st))) = snd ` set (bs_dirs st)"
    using assms(5) by (metis values_ok_def set_mset_mset list.set_map)
  with ty(3) have dirs: "collect render_dir (h_values h (map snd (bs_dirs st))) = Ok (map dir_inode (h_values h (map snd (bs_dirs st))))"
    "dir_inode ` snd ` set (bs_dirs st) = set (map dir_inode (h_values h (map snd (bs_dirs st))))"
    by (auto intro!: collect_total simp: dirs_typed_def render_dir_def new_dir_def dir_inode_def)
  have "f_md ` set files = f_md ` set (bs_files st)"
    using arg_cong [OF strip_md [OF assms(4)], of set] by simp
  then have "md_file_type (f_md f) = FtFile" if "f \<in> set files" for f using ty(1) that by (metis imageE imageI)
  then have files: "collect render_file files = Ok (map file_inode files)"
    by (auto intro!: collect_total simp: render_file_def new_file_def file_inode_def)
  have "\<exists>i. render_other h x = Ok i" if "x \<in> set (bs_others st)" for x
    using ty(2) that by (cases "md_file_type (bo_md x)") (auto simp: render_other_def new_other_def)
  then have "\<exists>g. \<forall>x\<in>set (bs_others st). render_other h x = Ok (g x)" by (intro bchoice) auto
  then obtain os where others: "collect (render_other h) (bs_others st) = Ok os" using collect_total by metis
  let ?inodes = "sort_key i_ino
    (bs_inodes st @ map dir_inode (h_values h (map snd (bs_dirs st))) @ map file_inode files @ os)"
  have "render_inodes h st files = Ok ?inodes" using dirs(1) files others by (simp add: render_inodes_def)
  moreover have "dir_inode ` snd ` set (bs_dirs st) \<subseteq> set ?inodes" "file_inode ` set files \<subseteq> set ?inodes"
    "set os \<subseteq> set ?inodes" "set (bs_inodes st) \<subseteq> set ?inodes"
    unfolding dirs(2) by auto
  moreover from this(3) have "\<exists>i\<in>set ?inodes. render_other h x = Ok i" if "x \<in> set (bs_others st)" for x
    using collect_mem [OF others that] by (meson subsetD)
  ultimately show ?thesis by (intro exI [of _ ?inodes] conjI ballI)
qed

section \<open>Building a first layer\<close>

text \<open>
  The law of the chunker: it reads the stream to its end (with some buffer size) and cuts what it has
  read into non-empty chunks.
\<close>

definition chunker_cuts ::
    "host \<Rightarrow> (path \<Rightarrow> bytes io_result) \<Rightarrow> path FilesystemStream \<Rightarrow> bytes list \<Rightarrow> bool" where
  "chunker_cuts h open_file s ds \<longleftrightarrow> h_chunker h s = map Ok ds \<and> [] \<notin> set ds \<and>
     (\<forall>n bs. 0 < n \<and> stream_to_end open_file [] n s [] = Some (Ok bs) \<longrightarrow> concat ds = bs)"

abbreviation regular_files :: "tree \<Rightarrow> path list" where
  "regular_files T \<equiv> typed_paths T {FtFile} (t_entries T (t_dirs T))"

definition numbering :: "path \<Rightarrow> tree \<Rightarrow> (path \<Rightarrow> Ino) \<Rightarrow> bool" where
  "numbering rootfs T nm \<longleftrightarrow> nm rootfs = 1 \<and>
     (\<forall>p\<in>t_paths rootfs T. \<forall>q\<in>t_paths rootfs T. nm p = nm q \<longleftrightarrow> t_ino T p = t_ino T q)"

text \<open>The number 1 is the root's, and 0 is not used.\<close>

definition numbers_above :: "path \<Rightarrow> tree \<Rightarrow> (path \<Rightarrow> Ino) \<Rightarrow> bool" where
  "numbers_above rootfs T nm \<longleftrightarrow> (\<forall>p\<in>t_paths rootfs T. p \<noteq> rootfs \<longrightarrow> 1 < unat (nm p))"

lemma numbers_aboveD: "numbers_above rootfs T nm \<Longrightarrow> p \<in> t_paths rootfs T \<Longrightarrow> p \<noteq> rootfs \<Longrightarrow> 1 < unat (nm p)"
  unfolding numbers_above_def by (drule (1) bspec) (rule mp)

lemma chunker_cuts_concat:
  assumes "chunker_cuts h open_file (stream_of ps) ds" and "\<forall>p\<in>set ps. open_file p = Ok (data p)"
  shows "concat ds = concat (map data ps)"
proof -
  have "collect open_file ps = Ok (map data ps)" using assms(2) by (intro collect_total) auto
  from stream_to_end_spec [of open_file "stream_of ps" _ 1 "[]" "[]"] chain_rest_fresh [OF this]
  have "stream_to_end open_file [] 1 (stream_of ps) [] = Some (Ok (concat (map data ps)))"
    by (simp add: stream_of_chain)
  with assms(1) show ?thesis unfolding chunker_cuts_def by (metis zero_less_one)
qed

lemma filter_children:
  assumes "distinct ds"
  shows "filter (\<lambda>q. butlast q = p) (t_entries T ds) = (if p \<in> set ds then dir_paths T p else [])"
  using assms
proof (induction ds)
  case (Cons d ds)
  have "filter (\<lambda>q. butlast q = p) (dir_paths T d) = (if p = d then dir_paths T d else [])"
    by (simp add: dir_paths_def comp_def filter_map)
  moreover have "t_entries T (d # ds) = dir_paths T d @ t_entries T ds" by (simp add: t_entries_def)
  ultimately show ?case using Cons by auto
qed (simp add: t_entries_def)

lemma first_path:
  assumes "links_ok rootfs T" and "p \<in> set (t_entries T (t_dirs T))" and "t_type T p \<in> tys"
  obtains p' where "p' \<in> set (typed_paths T tys (t_entries T (t_dirs T)))" "t_ino T p' = t_ino T p"
    "t_md T p' = t_md T p" "t_additional T p' = t_additional T p" "t_data T p' = t_data T p"
proof -
  have "t_ino T p \<in> t_ino T ` set (firsts T (t_entries T (t_dirs T)))" using assms(2) by (simp add: firsts_inos)
  then obtain p' where p': "p' \<in> set (firsts T (t_entries T (t_dirs T)))" "t_ino T p' = t_ino T p" by auto
  then have "p' \<in> t_paths rootfs T" using firsts_subset by fastforce
  from links_okD [OF assms(1) this _ p'(2)] assms(2,3) p' show thesis
    by (intro that [of p']) (auto simp: typed_paths_def)
qed

lemma tree_inv_num:
  assumes "tree_inv rootfs T B opened (t_entries T (t_dirs T)) st" and "p \<in> t_paths rootfs T" and "p \<noteq> rootfs"
  shows "bs_host_to_pfs st (t_ino T p) = Some (num rootfs T st p)" "1 < unat (num rootfs T st p)"
    "unat (num rootfs T st p) < b_start B \<longrightarrow>
      (\<exists>q\<in>set (t_entries T (t_dirs T)). b_num B q = Some (num rootfs T st p))"
proof -
  have "t_ino T p \<in> dom (bs_host_to_pfs st)" using tree_invD(1) [OF assms(1)] assms(2,3) by simp
  then show f: "bs_host_to_pfs st (t_ino T p) = Some (num rootfs T st p)" using assms(3) by (auto simp: num_def)
  with tree_invD(7) [OF assms(1)] show "1 < unat (num rootfs T st p)"
    "unat (num rootfs T st p) < b_start B \<longrightarrow> (\<exists>q\<in>set (t_entries T (t_dirs T)). b_num B q = Some (num rootfs T st p))"
    unfolding numbers_ok_def by blast+
qed

lemma tree_inv_numbering:
  assumes "tree_inv rootfs T B opened (t_entries T (t_dirs T)) st" and "walk_order rootfs T" and "links_ok rootfs T"
  shows "numbering rootfs T (num rootfs T st)"
proof -
  let ?f = "bs_host_to_pfs st"
  note num_p = tree_inv_num [OF assms(1)]
  have root: "t_type T rootfs = FtDir" "num rootfs T st rootfs = 1" using walk_orderD(7,9) [OF assms(2)] by (simp_all add: num_def)
  have one: "num rootfs T st x \<noteq> 1" if "x \<in> t_paths rootfs T" "x \<noteq> rootfs" for x
    using num_p(2) [OF that] by auto
  have "num rootfs T st p = num rootfs T st q \<longleftrightarrow> t_ino T p = t_ino T q"
    if p: "p \<in> t_paths rootfs T" and q: "q \<in> t_paths rootfs T" for p q
  proof (cases "p = rootfs \<or> q = rootfs")
    case True
    with p q one links_okD(4) [OF assms(3)] root show ?thesis by metis
  next
    case False
    with p q have f: "?f (t_ino T p) = Some (num rootfs T st p)" "?f (t_ino T q) = Some (num rootfs T st q)"
      using num_p(1) by blast+
    moreover from this tree_invD(7) [OF assms(1)]
    have "?f (t_ino T p) = ?f (t_ino T q) \<longleftrightarrow> t_ino T p = t_ino T q"
      by (intro inj_on_eq_iff [of ?f "dom ?f"]) (auto simp: numbers_ok_def)
    ultimately show ?thesis by simp
  qed
  then show ?thesis using root(2) by (simp add: numbering_def)
qed

text \<open>No two inodes of the layer have the same number.\<close>

lemma distinct_by_key:
  assumes "distinct (map fst xs)" and "\<And>x y. x \<in> set xs \<Longrightarrow> y \<in> set xs \<Longrightarrow> snd x = snd y \<Longrightarrow> fst x = fst y"
  shows "distinct (map snd xs)"
  using assms unfolding distinct_map inj_on_def by blast

lemma image_apart: "(\<And>p. p \<in> A \<Longrightarrow> f p \<notin> B) \<Longrightarrow> B \<inter> f ` A = {}"
  by blast

lemma tree_inv_inos:
  assumes inv: "tree_inv rootfs T B (t_dirs T) (t_entries T (t_dirs T)) st" and walk: "walk_order rootfs T"
    and links: "links_ok rootfs T" and kept: "links_kept T B"
  shows "distinct (map i_ino (bs_inodes st) @ state_inos st)"
proof -
  let ?es = "t_entries T (t_dirs T)" and ?num = "num rootfs T st"
  let ?of = "\<lambda>ps. map (\<lambda>p. (t_ino T p, ?num p)) ps"
  define ks where "ks = map (\<lambda>x. (fst x, bd_ino (snd x))) (bs_dirs st) @
    ?of (typed_paths T {FtFile} ?es) @ ?of (typed_paths T (- {FtFile, FtDir}) ?es)"
  have inos: "state_inos st = map snd ks"
    by (simp add: state_inos_def ks_def tree_invD(5,6) [OF inv] file_of_def other_of_def comp_def)
  have keys: "fst ` set (bs_dirs st) = t_ino T ` {p \<in> t_paths rootfs T. t_type T p = FtDir}" "distinct (map fst (bs_dirs st))"
    using tree_invD(9) [OF inv] unfolding dirs_ok_def by blast+
  have dir: "\<exists>p\<in>t_paths rootfs T. t_type T p = FtDir \<and> fst x = t_ino T p \<and> bd_ino (snd x) = ?num p"
    if x: "x \<in> set (bs_dirs st)" for x
  proof -
    from imageI [OF x, of fst] obtain p where p: "p \<in> t_paths rootfs T" "t_type T p = FtDir" "fst x = t_ino T p"
      unfolding keys(1) by auto
    have "map_of (bs_dirs st) (fst x) = Some (snd x)" using map_of_is_SomeI [OF keys(2)] x by simp
    with tree_invD(3) [OF inv p(1,2)] p(3)
    have "snd x = dir_of rootfs T (opened_gone B (t_dirs T)) ?es st p" by simp
    then have "bd_ino (snd x) = ?num p" by (simp add: dir_of_def)
    with p show ?thesis by (intro bexI [of _ p]) simp_all
  qed
  have typed: "p \<in> t_paths rootfs T" "t_type T p \<in> tys" if "p \<in> set (typed_paths T tys ?es)" for p tys
    using typed_paths_subset [OF that] by auto
  have ks_path: "\<exists>p\<in>t_paths rootfs T. k = (t_ino T p, ?num p)" if "k \<in> set ks" for k
    using that dir typed(1) unfolding ks_def by fastforce
  have ty: "t_type T p = t_type T q" if "p \<in> t_paths rootfs T" "q \<in> t_paths rootfs T" "t_ino T p = t_ino T q" for p q
    using links_okD(1) [OF links that] by simp
  have sub: "distinct (map (t_ino T) (typed_paths T tys ?es))" for tys
    using firsts_distinct [of T ?es] by (simp add: typed_paths_def distinct_map_filter)
  have apart: "t_ino T p \<notin> t_ino T ` {p \<in> t_paths rootfs T. t_type T p = FtDir}"
    "t_ino T p \<notin> t_ino T ` set (typed_paths T tys' ?es)"
    if p: "p \<in> set (typed_paths T tys ?es)" and tys: "FtDir \<notin> tys" "tys \<inter> tys' = {}" for p tys tys'
  proof -
    have other: "t_ino T p \<noteq> t_ino T q" if "q \<in> t_paths rootfs T" "t_type T q \<notin> tys" for q
      using ty [OF typed(1) [OF p] that(1)] typed(2) [OF p] that(2) by auto
    show "t_ino T p \<notin> t_ino T ` {p \<in> t_paths rootfs T. t_type T p = FtDir}"
    proof
      assume "t_ino T p \<in> t_ino T ` {p \<in> t_paths rootfs T. t_type T p = FtDir}"
      then obtain q where "q \<in> t_paths rootfs T" "t_type T q = FtDir" "t_ino T p = t_ino T q" by auto
      with other [of q] tys(1) show False by simp
    qed
    show "t_ino T p \<notin> t_ino T ` set (typed_paths T tys' ?es)"
    proof
      assume "t_ino T p \<in> t_ino T ` set (typed_paths T tys' ?es)"
      then obtain q where q: "q \<in> set (typed_paths T tys' ?es)" "t_ino T p = t_ino T q" by auto
      with other [OF typed(1) [OF q(1)]] typed(2) [OF q(1)] tys(2) show False by auto
    qed
  qed
  have "distinct (map fst ks)"
  proof -
    let ?F = "typed_paths T {FtFile} ?es" and ?O = "typed_paths T (- {FtFile, FtDir}) ?es"
    have "fst ` set (bs_dirs st) \<inter> t_ino T ` set ?F = {}" "t_ino T ` set ?O \<inter> t_ino T ` set ?F = {}"
      unfolding keys(1) using apart [of _ "{FtFile}" "- {FtFile, FtDir}"] by (intro image_apart; simp)+
    moreover have "fst ` set (bs_dirs st) \<inter> t_ino T ` set ?O = {}"
      unfolding keys(1) using apart(1) [of _ "- {FtFile, FtDir}" "{}"] by (intro image_apart) simp
    moreover have "map fst ks = map fst (bs_dirs st) @ map (t_ino T) ?F @ map (t_ino T) ?O"
      by (simp add: ks_def comp_def)
    ultimately show ?thesis
      using sub keys(2) by (simp only: distinct_append set_map set_append Int_Un_distrib Int_commute) simp
  qed
  then have "distinct (map snd ks)"
  proof (rule distinct_by_key)
    fix x y
    assume xy: "x \<in> set ks" "y \<in> set ks" "snd x = snd y"
    from ks_path [OF xy(1)] ks_path [OF xy(2)] obtain p q where pq: "p \<in> t_paths rootfs T" "q \<in> t_paths rootfs T"
      "x = (t_ino T p, ?num p)" "y = (t_ino T q, ?num q)" by (elim bexE)
    with tree_inv_numbering [OF inv walk links, unfolded numbering_def, THEN conjunct2, rule_format, OF pq(1,2)] xy(3)
    show "fst x = fst y" by simp
  qed
  moreover have "i \<notin> set (map snd ks)" if i: "i \<in> de_ino ` set (gone_entries B (t_dirs T))" for i
  proof
    assume "i \<in> set (map snd ks)"
    then obtain k where k: "k \<in> set ks" "snd k = i" by auto
    from ks_path [OF k(1)] k(2) obtain p where p: "p \<in> t_paths rootfs T" "i = ?num p" by (elim bexE) simp
    from i links_keptD(3) [OF kept] have b: "1 < unat i" "unat i < b_start B" by auto
    then have "p \<noteq> rootfs" using p(2) by (auto simp: num_def)
    with tree_inv_num(3) [OF inv p(1)] b p(2) obtain q where "q \<in> set ?es" "b_num B q = Some i" by blast
    with links_keptD(6) [OF kept] i show False by blast
  qed
  moreover have "map i_ino (bs_inodes st) = map de_ino (gone_entries B (t_dirs T))"
    by (simp add: tree_invD(8) [OF inv] new_whiteout_def comp_def)
  ultimately show ?thesis using links_keptD(2) [OF kept] unfolding inos by (auto simp: comp_def)
qed

lemma files_hold_paths:
  assumes "map strip files = map strip (map (file_of rootfs T st) ps)" and "list_all2 (holds cd) files (map (t_data T) ps)"
    and "p \<in> set ps"
  shows "\<exists>f\<in>set files. f_ino f = num rootfs T st p \<and> f_md f = t_md T p \<and> f_additional f = t_additional T p \<and>
    holds cd f (t_data T p)"
proof -
  from assms(3) obtain k where k: "k < length ps" "ps ! k = p" by (auto simp: in_set_conv_nth)
  have len: "length files = length ps" using assms(1) by (metis length_map)
  have "strip (files ! k) = strip (file_of rootfs T st p)"
    using arg_cong [OF assms(1), of "\<lambda>xs. xs ! k"] k len by simp
  then have "f_ino (files ! k) = f_ino (file_of rootfs T st p)" "f_md (files ! k) = f_md (file_of rootfs T st p)"
    "f_additional (files ! k) = f_additional (file_of rootfs T st p)"
    unfolding strip_def by (metis bfile.select_convs bfile.update_convs(2) bfile.surjective)+
  moreover have "holds cd (files ! k) (t_data T p)"
    using list_all2_nthD2 [OF assms(2), of k] k by simp
  ultimately show ?thesis using k len nth_mem [of k files] by (auto simp: file_of_def)
qed

lemma dir_represented:
  assumes inv: "tree_inv rootfs T B (t_dirs T) (t_entries T (t_dirs T)) st" and walk: "walk_order rootfs T"
    and p: "p \<in> t_paths rootfs T" "t_type T p = FtDir"
  shows "\<exists>d\<in>snd ` set (bs_dirs st). represents_over (b_gone B) h T (num rootfs T st) cd p (dir_inode d)"
proof -
  let ?d = "dir_of rootfs T (opened_gone B (t_dirs T)) (t_entries T (t_dirs T)) st p"
  have mem: "?d \<in> snd ` set (bs_dirs st)" using tree_invD(3) [OF inv p] by (rule map_of_mem_snd)
  have "filter (\<lambda>q. butlast q = p) (t_entries T (t_dirs T)) = dir_paths T p"
    using filter_children [OF walk_orderD(3) [OF walk]] walk_orderD(7) [OF walk p(1)] p(2) by simp
  moreover have "opened_gone B (t_dirs T) p = b_gone B p"
    using walk_orderD(7) [OF walk p(1)] p(2) by (simp add: opened_gone_def)
  ultimately have "bd_entries ?d = b_gone B p @ map (\<lambda>n. \<lparr>de_ino = num rootfs T st (p @ [Normal n]), de_name = n\<rparr>) (t_names T p)"
    by (simp add: dir_of_def dir_paths_def entry_of_def comp_def)
  then have "represents_over (b_gone B) h T (num rootfs T st) cd p (dir_inode ?d)"
    by (simp add: represents_over_def p(2) dir_inode_def) (simp add: dir_of_def)
  with mem show ?thesis by blast
qed

lemma other_represented:
  assumes "render_other h (other_of rootfs T st p') = Ok i" and "num rootfs T st p' = num rootfs T st p"
    and "t_md T p' = t_md T p" "t_additional T p' = t_additional T p" and "t_type T p \<notin> {FtFile, FtDir}"
  shows "represents_over (b_gone B) h T (num rootfs T st) cd p i"
  using assms
  by (cases "t_type T p") (auto simp: represents_over_def render_other_def new_other_def other_of_def)

lemma path_represented:
  assumes inv: "tree_inv rootfs T B (t_dirs T) (t_entries T (t_dirs T)) st" and walk: "walk_order rootfs T" and links: "links_ok rootfs T"
    and files: "map strip files = map strip (bs_files st)" "list_all2 (holds cd) files (map (t_data T) (regular_files T))"
    and inodes: "dir_inode ` snd ` set (bs_dirs st) \<subseteq> set inodes" "file_inode ` set files \<subseteq> set inodes"
      "\<forall>x\<in>set (bs_others st). \<exists>i\<in>set inodes. render_other h x = Ok i"
    and p: "p \<in> t_paths rootfs T"
  shows "\<exists>i\<in>set inodes. represents_over (b_gone B) h T (num rootfs T st) cd p i"
proof (cases "t_type T p = FtDir")
  case True
  from dir_represented [OF inv walk p True] inodes(1) show ?thesis by blast
next
  case False
  have "t_type T rootfs = FtDir" using walk_orderD(7,9) [OF walk] by simp
  with p False have entry: "p \<in> set (t_entries T (t_dirs T))" by auto
  note nums = tree_inv_numbering [OF inv walk links, unfolded numbering_def, THEN conjunct2, rule_format]
  show ?thesis
  proof (cases "t_type T p = FtFile")
    case True
    then have "t_type T p \<in> {FtFile}" by simp
    from first_path [OF links entry this] obtain p' where p': "p' \<in> set (regular_files T)" "t_ino T p' = t_ino T p"
      "t_md T p' = t_md T p" "t_additional T p' = t_additional T p" "t_data T p' = t_data T p" .
    from files_hold_paths [OF files(1) [unfolded tree_invD(5) [OF inv]] files(2) p'(1)] p'(3-5)
    obtain f where f: "f \<in> set files" "f_ino f = num rootfs T st p'" "f_md f = t_md T p"
      "f_additional f = t_additional T p" "holds cd f (t_data T p)" by auto
    have "num rootfs T st p' = num rootfs T st p"
      using nums [of p' p] p'(1,2) p by (auto dest: typed_paths_subset)
    with f True have "represents_over (b_gone B) h T (num rootfs T st) cd p (file_inode f)"
      by (simp add: represents_over_def file_inode_def holds_def)
    with f(1) inodes(2) show ?thesis by blast
  next
    case other: False
    with False have "t_type T p \<in> - {FtFile, FtDir}" by simp
    from first_path [OF links entry this] obtain p' where
      p': "p' \<in> set (typed_paths T (- {FtFile, FtDir}) (t_entries T (t_dirs T)))"
      "t_ino T p' = t_ino T p" "t_md T p' = t_md T p" "t_additional T p' = t_additional T p" .
    have "num rootfs T st p' = num rootfs T st p"
      using nums [of p' p] p'(1,2) p by (auto dest: typed_paths_subset)
    moreover from p'(1) obtain i where "i \<in> set inodes" "render_other h (other_of rootfs T st p') = Ok i"
      using inodes(3) tree_invD(6) [OF inv] by auto
    ultimately show ?thesis using other_represented [OF _ _ p'(3,4)] False other by blast
  qed
qed

text \<open>A layer over an existing image, or a first layer.\<close>

lemma build_delta_over:
  assumes host: "host_shows h open_file rootfs T"
    and base: "B = base_of existing rootfs T" "lookups_ok existing rootfs T" "links_kept T B" "t_small_over B T"
    and "values_ok h" and cuts: "chunker_cuts h open_file (stream_of (regular_files T)) ds" and store: "store_ok env C im ds"
  shows "\<exists>inodes im' vd' m' nm. build_delta h env C rootfs im existing vd m = Some (Ok (inodes, im', vd', m')) \<and>
    image_le im im' \<and> content_addressed env im' \<and> numbering rootfs T nm \<and>
    (\<forall>p\<in>t_paths rootfs T. \<exists>i\<in>set inodes. represents_over (b_gone B) h T nm (image_chunk_data (env, im', None)) p i) \<and>
    (\<forall>e\<in>set (gone_entries B (t_dirs T)). new_whiteout (de_ino e) \<in> set inodes) \<and>
    inodes \<noteq> [] \<and> sorted_wrt (<) (map i_ino inodes) \<and> numbers_above rootfs T nm"
proof -
  from host have walk: "walk_order rootfs T" and links: "links_ok rootfs T" by (simp_all add: host_shows_def)
  from scan_tree [OF host base] obtain st where st: "scan_rootfs h existing rootfs = Ok st"
    and inv: "tree_inv rootfs T B (t_dirs T) (t_entries T (t_dirs T)) st" by blast
  have reg: "p \<in> t_paths rootfs T" "t_type T p = FtFile" if "p \<in> set (regular_files T)" for p
    using typed_paths_subset [OF that] by auto
  have "concat ds = concat (map (t_data T) (regular_files T))"
    by (rule chunker_cuts_concat [OF cuts]) (use host_showsD(3) [OF host] reg in auto)
  moreover have "list_all2 untouched (bs_files st) (map (t_data T) (regular_files T))"
    using host_showsD(4) [OF host] reg
    by (auto simp: tree_invD(5) [OF inv] list_all2_conv_all_nth untouched_def file_of_def)
  moreover have chunker: "h_chunker h (bs_stream st) = map Ok ds" "[] \<notin> set ds"
    using cuts by (simp_all add: chunker_cuts_def tree_invD(4) [OF inv])
  ultimately obtain files im' vd' m' where
    pc: "process_chunks env C im (map Ok ds) (bs_files st) vd m = Some (Ok (files, im', vd', m'))"
    and im': "image_le im im'" "content_addressed env im'" and files: "map strip files = map strip (bs_files st)"
    "list_all2 (holds (image_chunk_data (env, im', None))) files (map (t_data T) (regular_files T))"
    using process_chunks_spec [OF store] by blast
  have root: "h_symlink_metadata h rootfs = Ok (t_md T rootfs)" "t_type T rootfs = FtDir"
    using host_showsD(1) [OF host, of rootfs] walk_orderD(7,9) [OF walk] by simp_all
  from render_inodes_total [OF typed.scan_inv [OF st] root files(1) assms(6)] obtain inodes where
    render: "render_inodes h st files = Ok inodes" and wht: "set (bs_inodes st) \<subseteq> set inodes"
    and mem: "dir_inode ` snd ` set (bs_dirs st) \<subseteq> set inodes"
    "file_inode ` set files \<subseteq> set inodes" "\<forall>x\<in>set (bs_others st). \<exists>i\<in>set inodes. render_other h x = Ok i"
    by blast
  have "bs_dirs st \<noteq> []" using tree_invD(3) [OF inv, of rootfs] root(2) by auto
  from render_inodes_sorted [OF render strip_inos [OF files(1)] tree_inv_inos [OF inv walk links base(3)] this assms(6)]
  have "inodes \<noteq> [] \<and> sorted_wrt (<) (map i_ino inodes)" .
  moreover have "\<forall>e\<in>set (gone_entries B (t_dirs T)). new_whiteout (de_ino e) \<in> set inodes"
    using wht by (auto simp: tree_invD(8) [OF inv])
  moreover have "numbers_above rootfs T (num rootfs T st)"
    using tree_inv_num(2) [OF inv] by (simp add: numbers_above_def)
  moreover have "build_delta h env C rootfs im existing vd m = Some (Ok (inodes, im', vd', m'))"
    by (simp add: build_delta_def st chunker(1) pc render)
  ultimately show ?thesis
    using im' tree_inv_numbering [OF inv walk links] path_represented [OF inv walk links files mem] by blast
qed

lemma build_delta_tree:
  assumes "host_shows h open_file rootfs T" and "t_small T" and "values_ok h"
    and "chunker_cuts h open_file (stream_of (regular_files T)) ds" and "store_ok env C im ds"
  shows "\<exists>inodes im' vd' m' nm. build_delta h env C rootfs im None vd m = Some (Ok (inodes, im', vd', m')) \<and>
    image_le im im' \<and> content_addressed env im' \<and> numbering rootfs T nm \<and>
    (\<forall>p\<in>t_paths rootfs T. \<exists>i\<in>set inodes. represents h T nm (image_chunk_data (env, im', None)) p i) \<and>
    numbers_above rootfs T nm"
proof -
  have "b_gone no_base = (\<lambda>d. [])" "t_small_over no_base T" using assms(2) by (simp_all add: no_base_def t_small_over_def t_small_def)
  with build_delta_over [OF assms(1) _ no_base_laws(2,1) _ assms(3-5), of vd m] show ?thesis by auto
qed

section \<open>Paths of the layer\<close>

lemma layers_view_top:
  assumes "sorted_wrt (<) (map i_ino layer)" and "i \<in> set layer"
  shows "layers_view (layer # layers) (i_ino i) = (if i_mode i = Wht then None else Some i)"
proof -
  have "distinct (map i_ino layer)" using assms(1) by (simp add: strict_sorted_iff)
  from find_unique [OF this assms(2) refl] show ?thesis by simp
qed

lemma layers_view_member:
  assumes "sorted_wrt (<) (map i_ino layer)" and "i \<in> set layer" and "i_mode i \<noteq> Wht"
  shows "layers_view [layer] (i_ino i) = Some i"
  using layers_view_top [OF assms(1,2)] assms(3) by simp

lemma represents_not_whiteout: "represents_over gone h T nm cd p i \<Longrightarrow> i_mode i \<noteq> Wht"
  by (cases "t_type T p") (auto simp: represents_over_def)

lemma represents_entries:
  assumes "represents_over gone h T nm cd p i"
  shows "old_entries (Some i) = (if t_type T p = FtDir
    then gone p @ map (\<lambda>n. \<lparr>de_ino = nm (p @ [Normal n]), de_name = n\<rparr>) (t_names T p) else [])"
  using assms by (cases "t_type T p") (auto simp: represents_over_def old_entries_def)

lemma entry_named_entries: "entry_named i n = List.find (\<lambda>d. de_name d = n) (old_entries (Some i))"
  by (cases "i_mode i") (auto simp: entry_named_def old_entries_def)

lemma find_append_none: "(\<forall>x\<in>set xs. \<not> P x) \<Longrightarrow> List.find P (xs @ ys) = List.find P ys"
  by (induction xs) auto

lemma find_in: "List.find P xs = Some x \<Longrightarrow> x \<in> set xs \<and> P x"
  by (induction xs) (auto split: if_splits)

lemma find_names: "List.find (\<lambda>d. de_name d = n) (map (\<lambda>n. \<lparr>de_ino = f n, de_name = n\<rparr>) ns) =
    (if n \<in> set ns then Some \<lparr>de_ino = f n, de_name = n\<rparr> else None)"
  by (induction ns) auto

text \<open>
  The paths of the image are those of the tree, when the view has the inodes of the layer and nothing for
  the entries that are whited out.
\<close>

definition view_over :: "(path \<Rightarrow> DirEnt list) \<Rightarrow> tree \<Rightarrow> Inode list \<Rightarrow> (Ino \<Rightarrow> Inode option) \<Rightarrow> bool" where
  "view_over gone T inodes V \<longleftrightarrow> (\<forall>i\<in>set inodes. i_mode i \<noteq> Wht \<longrightarrow> V (i_ino i) = Some i) \<and>
     (\<forall>d\<in>set (t_dirs T). \<forall>e\<in>set (gone d). V (de_ino e) = None \<and> de_name e \<notin> set (t_names T d))"

lemma view_over_step:
  assumes V: "view_over gone T inodes V" and r: "represents_over gone h T nm cd p d" and p: "t_type T p = FtDir \<longrightarrow> p \<in> set (t_dirs T)"
  shows "(\<exists>e. entry_named d n = Some e \<and> V (de_ino e) = Some i) \<longleftrightarrow>
    t_type T p = FtDir \<and> n \<in> set (t_names T p) \<and> V (nm (p @ [Normal n])) = Some i"
proof (cases "t_type T p = FtDir")
  case True
  let ?ns = "map (\<lambda>n. \<lparr>de_ino = nm (p @ [Normal n]), de_name = n\<rparr>) (t_names T p)"
  have named: "entry_named d n = List.find (\<lambda>d. de_name d = n) (gone p @ ?ns)"
    using represents_entries [OF r] True by (simp add: entry_named_entries)
  have gone: "V (de_ino e) = None" "de_name e \<notin> set (t_names T p)" if "e \<in> set (gone p)" for e
    using V True p that unfolding view_over_def by blast+
  show ?thesis
  proof (cases "n \<in> set (t_names T p)")
    case n: True
    then have "\<forall>e\<in>set (gone p). de_name e \<noteq> n" using gone(2) by blast
    with named n True show ?thesis by (simp add: find_append_none find_names)
  next
    case False
    then have "V (de_ino e) = None" if "entry_named d n = Some e" for e
      using find_in [OF that [unfolded named]] gone(1) by auto
    with False show ?thesis by auto
  qed
next
  case False
  with represents_entries [OF r] show ?thesis by (simp add: entry_named_entries)
qed

lemma layer_path_to_over:
  assumes walk: "walk_order rootfs T" and nums: "numbering rootfs T nm" and V: "view_over gone T inodes V"
    and repr: "\<forall>p\<in>t_paths rootfs T. \<exists>i\<in>set inodes. represents_over gone h T nm cd p i"
  shows "path_to V ns i \<longleftrightarrow>
    rootfs @ map Normal ns \<in> t_paths rootfs T \<and> i \<in> set inodes \<and> represents_over gone h T nm cd (rootfs @ map Normal ns) i"
proof -
  have view: "V (nm p) = Some i \<longleftrightarrow> i \<in> set inodes \<and> represents_over gone h T nm cd p i"
    if p: "p \<in> t_paths rootfs T" for p i
  proof -
    from repr p obtain j where j: "j \<in> set inodes" "represents_over gone h T nm cd p j" by blast
    have "V (nm p) = Some k" if "k \<in> set inodes" "represents_over gone h T nm cd p k" for k
    proof -
      have "i_ino k = nm p" using that(2) unfolding represents_over_def by blast
      moreover have "V (i_ino k) = Some k"
        using V that(1) represents_not_whiteout [OF that(2)] by (simp add: view_over_def)
      ultimately show ?thesis by simp
    qed
    with j show ?thesis by (metis option.inject)
  qed
  have root: "nm rootfs = 1" using nums by (simp add: numbering_def)
  show ?thesis
  proof (induction ns arbitrary: i rule: rev_induct)
    case Nil
    have "path_to V [] i \<longleftrightarrow> V 1 = Some i"
      by (auto intro: path_to.root elim: path_to_NilE)
    with view [of rootfs i] root show ?case by simp
  next
    case (snoc n ns)
    let ?p = "rootfs @ map Normal ns"
    define P where "P \<longleftrightarrow> ?p \<in> t_paths rootfs T"
    have dir: "P \<and> t_type T ?p = FtDir \<longleftrightarrow> ?p \<in> set (t_dirs T)"
      unfolding P_def by (rule t_dirs_iff [OF walk, symmetric])
    have some: "\<exists>d\<in>set inodes. represents_over gone h T nm cd ?p d" if P
      using repr that unfolding P_def by (rule bspec)
    have step: "(\<exists>e. entry_named d n = Some e \<and> V (de_ino e) = Some i) \<longleftrightarrow>
        ?p \<in> set (t_dirs T) \<and> n \<in> set (t_names T ?p) \<and> V (nm (?p @ [Normal n])) = Some i"
      if "represents_over gone h T nm cd ?p d" P for d
    proof -
      have ty: "t_type T ?p = FtDir \<longleftrightarrow> ?p \<in> set (t_dirs T)" using dir that(2) by simp
      from view_over_step [OF V that(1), of n i] show ?thesis unfolding ty by simp
    qed
    have "path_to V (ns @ [n]) i \<longleftrightarrow>
        (\<exists>d. path_to V ns d \<and> (\<exists>e. entry_named d n = Some e \<and> V (de_ino e) = Some i))"
      by (blast intro: path_to.step elim: path_to_snocE)
    also have "\<dots> \<longleftrightarrow> ?p \<in> set (t_dirs T) \<and> n \<in> set (t_names T ?p) \<and> V (nm (?p @ [Normal n])) = Some i"
      unfolding snoc.IH P_def [symmetric] using step some dir by blast
    also have "\<dots> \<longleftrightarrow> ?p @ [Normal n] \<in> t_paths rootfs T \<and> V (nm (?p @ [Normal n])) = Some i"
      by (auto simp: t_entries_iff)
    finally show ?case using view [of "?p @ [Normal n]" i] by auto
  qed
qed

lemma layer_path_to:
  assumes "walk_order rootfs T" and "numbering rootfs T nm" and "sorted_wrt (<) (map i_ino inodes)"
    and "V = layers_view [inodes]"
    and "\<forall>p\<in>t_paths rootfs T. \<exists>i\<in>set inodes. represents h T nm cd p i"
  shows "path_to V ns i \<longleftrightarrow>
    rootfs @ map Normal ns \<in> t_paths rootfs T \<and> i \<in> set inodes \<and> represents h T nm cd (rootfs @ map Normal ns) i"
proof (rule layer_path_to_over [OF assms(1,2) _ assms(5)])
  show "view_over (\<lambda>d. []) T inodes V"
    unfolding view_over_def assms(4) using layers_view_member [OF assms(3)] by simp
qed

end
