(* ===== verification/Build_Image.thy ===== *)
theory Build_Image
  imports Build_Tree
begin

text \<open>
  From the built layer to the opened image: what \<open>write_rootfs\<close> stores is what \<open>PuzzleFS_open\<close> finds
  under the tag, given that the Cap'n Proto library reads back what it wrote and that \<open>ocidir\<close> finds
  the manifest it inserted.
\<close>

section \<open>Laws of the libraries\<close>

definition messages_ok :: "'o env \<Rightarrow> bool" where
  "messages_ok env \<longleftrightarrow> (\<forall>c buf. env_write_message env c = Ok buf \<longrightarrow> env_read_message env buf = Ok c)"

definition registry_ok :: "'o env \<Rightarrow> 'o registry \<Rightarrow> bool" where
  "registry_ok env rg \<longleftrightarrow> (\<forall>im m tag im'. rg_insert_manifest rg im m tag = Ok im' \<longrightarrow>
     env_find_manifest_with_tag env im' tag = Ok (Some m) \<and> image_le im im')"

text \<open>
  No stored blob has the SHA-256 of the serialized rootfs without being it. Only the buffer that is written is
  meant: for a first build, the one with the layer and the verity data that \<open>build_delta\<close> returns.
\<close>

definition rootfs_collision_free :: "'o env \<Rightarrow> 'o Image \<Rightarrow> Rootfs \<Rightarrow> bool" where
  "rootfs_collision_free env im r \<longleftrightarrow> (\<forall>buf. serialize_metadata env r = Ok buf \<longrightarrow> collision_free env im buf)"

definition initial_collision_free :: "host \<Rightarrow> 'o env \<Rightarrow> 'o registry \<Rightarrow> compression \<Rightarrow> path \<Rightarrow> 'o Image \<Rightarrow> bool" where
  "initial_collision_free h env rg C rootfs im \<longleftrightarrow>
     (\<forall>m inodes im' vd m'. rg_empty_manifest rg im = Ok m \<longrightarrow>
        build_delta h env C rootfs im None [] m = Some (Ok (inodes, im', vd, m')) \<longrightarrow>
        rootfs_collision_free env im'
          \<lparr>rf_metadatas = [inodes], rf_fs_verity_data = vd, rf_manifest_version = PUZZLEFS_IMAGE_MANIFEST_VERSION\<rparr>)"

lemma put_blob_le:
  assumes "put_blob env C im buf m mt = Ok ((desc, v, c), im', m')" and "env_lawful env"
  shows "image_le im im'"
proof -
  from assms obtain z where "store_blob env im (d_digest desc) (env_sha256 env (stored_data C buf z)) (stored_data C buf z) = Ok im'"
    by (rule put_blobE)
  from store_blob_mono [OF this] show ?thesis by (auto simp: image_le_def map_le_def dom_def)
qed

section \<open>Writing and opening the rootfs\<close>

lemma write_rootfs_opens:
  assumes wrt: "write_rootfs env rg r im m tag = Ok (desc, im'')"
    and env: "env_lawful env" "messages_ok env" "registry_ok env rg" and cf: "rootfs_collision_free env im r"
    and r: "wf_Rootfs r" "rf_manifest_version r = PUZZLEFS_IMAGE_MANIFEST_VERSION"
  shows "\<exists>c. PuzzleFS_open env im'' tag None =
      Ok \<lparr>pfs_oci = im'', pfs_rootfs = c, pfs_verity_data = None, pfs_manifest_verity = None\<rparr> \<and>
    Rootfs_fill_capnp r = Ok c \<and> reader_layers c = Ok (rf_metadatas r) \<and> image_le im im'' \<and> fits_Rootfs r"
proof -
  from wrt obtain c buf v cmp im1 m1 where fill: "Rootfs_fill_capnp r = Ok c"
    and buf: "env_write_message env c = Ok buf"
    and put: "put_blob env Noop im buf m RootfsMedia = Ok ((desc, v, cmp), im1, m1)"
    and insert: "rg_insert_manifest rg im1 m1 tag = Ok im''"
    by (auto simp: write_rootfs_def serialize_metadata_def)
  from env(3) insert have found: "env_find_manifest_with_tag env im'' tag = Ok (Some m1)" and le1: "image_le im1 im''"
    by (auto simp: registry_ok_def)
  have le0: "image_le im im1" using put_blob_le [OF put env(1)] .
  have noop: "stored_data Noop buf z = z" "c_compress Noop buf = Ok z \<Longrightarrow> z = buf" "c_append_extension Noop s = s" for z s
    by (simp_all add: stored_data_def Noop_def Noop_compress_all_def Noop_append_extension_def)
  from put env(1) obtain z where z: "c_compress Noop buf = Ok z"
    "store_blob env im (d_digest desc) (env_sha256 env (stored_data Noop buf z)) (stored_data Noop buf z) = Ok im1"
    "d_media_type desc = c_append_extension Noop (media_name RootfsMedia)"
    "m1 = m\<lparr>m_layers := (if RootfsMedia = RootfsMedia then desc # m_layers m else m_layers m @ [desc])\<rparr>"
    by (rule put_blobE)
  have "collision_free env im buf"
    using cf fill buf by (simp add: rootfs_collision_free_def serialize_metadata_def)
  with z(2) noop(1,2) z(1) obtain f where f: "im_blobs im1 (d_digest desc) = Some f" "bf_data f = buf"
    using store_blob_lookup by metis
  then have f'': "im_blobs im'' (d_digest desc) = Some f" using le1 by (auto simp: image_le_def map_le_def dom_def)
  have desc: "find_rootfs_desc m1 = Ok desc"
    using z(3,4) noop(3) by (simp add: find_rootfs_desc_def)
  have "open_rootfs_blob env im'' tag None = Ok c"
    using env(2) buf
    by (simp add: open_rootfs_blob_def get_pfs_rootfs_def find_manifest_def found desc open_raw_blob_def f''
        RootfsReader_open_def f(2) messages_ok_def)
  moreover have "cp_manifest_version c = PUZZLEFS_IMAGE_MANIFEST_VERSION"
    using fill r(2) by (auto simp: Rootfs_fill_capnp_def)
  ultimately have "PuzzleFS_open env im'' tag None =
      Ok \<lparr>pfs_oci = im'', pfs_rootfs = c, pfs_verity_data = None, pfs_manifest_verity = None\<rparr>"
    by (simp add: PuzzleFS_open_def RootfsReader_get_manifest_version_def)
  moreover have "reader_layers c = Ok (rf_metadatas r)"
    using Rootfs_roundtrip [OF r(1) fill] by (auto simp: Rootfs_from_capnp_def reader_layers_def)
  moreover have "fits_Rootfs r" using Rootfs_fill_cases [of r] fill by (auto split: if_splits)
  ultimately show ?thesis using fill image_le_trans [OF le0 le1] by blast
qed

lemma write_rootfs_reads:
  assumes "write_rootfs env rg r im m tag = Ok (desc, im'')"
    and "env_lawful env" and "messages_ok env" and "registry_ok env rg" and "rootfs_collision_free env im r"
    and "wf_Rootfs r" and "rf_manifest_version r = PUZZLEFS_IMAGE_MANIFEST_VERSION"
  shows "\<exists>pfs. PuzzleFS_open env im'' tag None = Ok pfs \<and> Rootfs_from_capnp (pfs_rootfs pfs) = Ok r"
  using write_rootfs_opens [OF assms] Rootfs_roundtrip [OF assms(6)] by auto

section \<open>The built image\<close>

text \<open>Reads of an inode, with or without verity data, return the bytes of a file.\<close>

definition reads_with :: "'o env \<Rightarrow> 'o Image \<Rightarrow> VerityData option \<Rightarrow> Inode \<Rightarrow> bytes \<Rightarrow> bool" where
  "reads_with env im vd i bs \<longleftrightarrow> (\<forall>off n. off + n < 2 ^ 64 \<longrightarrow>
     file_read env im i off (replicate n 0) vd =
       Ok (length (take n (drop off bs)),
         take n (drop off bs) @ replicate (n - length (take n (drop off bs))) 0))"

abbreviation reads_as :: "'o env \<Rightarrow> 'o Image \<Rightarrow> Inode \<Rightarrow> bytes \<Rightarrow> bool" where
  "reads_as env im \<equiv> reads_with env im None"

lemma chunks_read:
  assumes "i_mode i = InodeMode.File cs" and "chunks_readable (image_chunk_data (env, im, vd)) cs"
    and "file_bytes (image_chunk_data (env, im, vd)) cs = bs" and "length bs < 2 ^ 64"
  shows "reads_with env im vd i bs"
proof -
  have "chunks_total cs < 2 ^ 64" using length_file_bytes [OF assms(2)] assms(3,4) by simp
  from file_read_image [OF assms(1,2) this] show ?thesis by (simp add: reads_with_def assms(3) Let_def)
qed

lemma represents_mono:
  assumes "represents_over gone h T nm (image_chunk_data (env, im, None)) p i" and "image_le im im'"
  shows "represents_over gone h T nm (image_chunk_data (env, im', None)) p i"
proof (cases "t_type T p = FtFile")
  case True
  with assms(1) obtain cs where cs: "i_mode i = InodeMode.File cs"
    "holds (image_chunk_data (env, im, None)) \<lparr>f_ino = 0, f_chunks = cs, f_md = t_md T p, f_additional = None\<rparr> (t_data T p)"
    by (auto simp: represents_over_def holds_def)
  from holds_mono [OF assms(2) cs(2)] cs(1) True assms(1) show ?thesis
    by (auto simp: represents_over_def holds_def)
qed (use assms(1) in \<open>cases "t_type T p"; simp add: represents_over_def\<close>)

lemma represents_reads:
  assumes "represents_over gone h T nm (image_chunk_data (env, im, None)) p i" and "t_type T p = FtFile"
    and "length (t_data T p) < 2 ^ 64"
  shows "reads_as env im i (t_data T p)"
proof -
  from assms(1,2) obtain cs where cs: "i_mode i = InodeMode.File cs"
    "chunks_readable (image_chunk_data (env, im, None)) cs" "file_bytes (image_chunk_data (env, im, None)) cs = t_data T p"
    by (auto simp: represents_over_def)
  from chunks_read [OF cs assms(3)] show ?thesis .
qed

lemma build_initial_rootfsE:
  assumes "build_initial_rootfs h env rg C rootfs im tag = Some (Ok (desc, im''))"
    and "\<forall>data. length (env_fs_verity_sha256 env data) = SHA256_BLOCK_SIZE"
  obtains m0 inodes im1 vd m1 where "build_delta h env C rootfs im None [] m0 = Some (Ok (inodes, im1, vd, m1))"
    "write_rootfs env rg \<lparr>rf_metadatas = [inodes], rf_fs_verity_data = vd, rf_manifest_version = PUZZLEFS_IMAGE_MANIFEST_VERSION\<rparr>
       im1 m1 tag = Ok (desc, im'')" "rg_empty_manifest rg im = Ok m0"
    "wf_Rootfs \<lparr>rf_metadatas = [inodes], rf_fs_verity_data = vd, rf_manifest_version = PUZZLEFS_IMAGE_MANIFEST_VERSION\<rparr>"
proof -
  from assms(1) obtain m0 inodes im1 vd m1 where m0: "rg_empty_manifest rg im = Ok m0"
    and bd: "build_delta h env C rootfs im None [] m0 = Some (Ok (inodes, im1, vd, m1))"
    and wr: "write_rootfs env rg \<lparr>rf_metadatas = [inodes], rf_fs_verity_data = vd, rf_manifest_version = PUZZLEFS_IMAGE_MANIFEST_VERSION\<rparr>
       im1 m1 tag = Ok (desc, im'')"
    by (auto simp: build_initial_rootfs_def split: outcome.splits)
  have "wf_VerityData []" by (simp add: wf_VerityData_def btree_invar_def)
  from build_delta_wf [OF bd assms(2) this] show thesis by (intro that [OF bd wr m0]) (auto simp: wf_Rootfs_def)
qed

lemma build_initial_opens:
  assumes host: "host_shows h open_file rootfs T" "t_small T" "values_ok h"
    and cuts: "chunker_cuts h open_file (stream_of (regular_files T)) ds" and store: "store_ok env C im ds"
    and laws: "\<forall>data. length (env_fs_verity_sha256 env data) = SHA256_BLOCK_SIZE" "messages_ok env" "registry_ok env rg"
    and build: "build_initial_rootfs h env rg C rootfs im tag = Some (Ok (desc, im''))"
    and cf: "initial_collision_free h env rg C rootfs im"
  obtains pfs nm inodes where "PuzzleFS_open env im'' tag None = Ok pfs" "wf_pfs pfs" "pfs_oci pfs = im''"
    "reader_layers (pfs_rootfs pfs) = Ok [inodes]" "pfs_view pfs = layers_view [inodes]"
    "sorted_wrt (<) (map i_ino inodes)" "numbering rootfs T nm" "numbers_above rootfs T nm"
    "\<forall>p\<in>t_paths rootfs T. \<exists>i\<in>set inodes. represents h T nm (image_chunk_data (env, im'', None)) p i"
proof -
  from build obtain m0 where m0: "rg_empty_manifest rg im = Ok m0"
    by (auto simp: build_initial_rootfs_def split: outcome.splits)
  from build_delta_tree [OF host cuts store, of "[]" m0] obtain inodes im1 vd m1 nm where
    bd: "build_delta h env C rootfs im None [] m0 = Some (Ok (inodes, im1, vd, m1))"
    and nm: "numbering rootfs T nm" "numbers_above rootfs T nm"
    and repr: "\<forall>p\<in>t_paths rootfs T. \<exists>i\<in>set inodes. represents h T nm (image_chunk_data (env, im1, None)) p i"
    by blast
  let ?r = "\<lparr>rf_metadatas = [inodes], rf_fs_verity_data = vd, rf_manifest_version = PUZZLEFS_IMAGE_MANIFEST_VERSION\<rparr>"
  from build have wr: "write_rootfs env rg ?r im1 m1 tag = Ok (desc, im'')"
    by (simp add: build_initial_rootfs_def m0 bd)
  have "wf_VerityData []" by (simp add: wf_VerityData_def btree_invar_def)
  from build_delta_wf [OF bd laws(1) this] have "wf_Rootfs ?r" by (auto simp: wf_Rootfs_def)
  moreover have "env_lawful env" using store by (simp add: store_ok_def)
  moreover have "rootfs_collision_free env im1 ?r" using cf m0 bd by (simp add: initial_collision_free_def)
  ultimately obtain c where open_ok: "PuzzleFS_open env im'' tag None =
      Ok \<lparr>pfs_oci = im'', pfs_rootfs = c, pfs_verity_data = None, pfs_manifest_verity = None\<rparr>"
    and c: "reader_layers c = Ok [inodes]" and le: "image_le im1 im''" and fits: "fits_Rootfs ?r"
    using write_rootfs_opens [OF wr _ laws(2,3)] by auto
  let ?pfs = "\<lparr>pfs_oci = im'', pfs_rootfs = c, pfs_verity_data = None, pfs_manifest_verity = None\<rparr>"
  note sorted = build_delta_initial_sorted [OF bd host(3)]
  have "wf_pfs ?pfs" using sorted fits by (simp add: wf_pfs_def wf_reader_def c wf_layer_def fits_Rootfs_def)
  moreover have "pfs_view ?pfs = layers_view [inodes]"
    by (rule ext) (simp add: pfs_view_def reader_view_def c)
  moreover have "\<forall>p\<in>t_paths rootfs T. \<exists>i\<in>set inodes. represents h T nm (image_chunk_data (env, im'', None)) p i"
    using repr represents_mono [OF _ le] by blast
  ultimately show thesis using open_ok sorted nm c by (intro that) auto
qed

end
