(* ===== verification/Sample_Host.thy ===== *)
theory Sample_Host
  imports Build_Image Store_Properties
begin

text \<open>
  A small host tree on which the theorems about the builder are instantiated: a directory with a
  file of five bytes, a hard link to it, and a sub-directory with a symbolic link.
\<close>

definition host_root :: path where
  "host_root = [RootDir, Normal [114]]"

definition host_md :: "u64 \<Rightarrow> file_type \<Rightarrow> u64 \<Rightarrow> host_metadata" where
  "host_md ino ty len =
     \<lparr>md_ino = ino, md_file_type = ty, md_len = len, md_mode = 0x1ED, md_uid = 0, md_gid = 0, md_rdev = 0\<rparr>"

definition host_tree :: tree where
  "host_tree =
     \<lparr>t_dirs = [host_root, host_root @ [Normal [100]]],
      t_names = (\<lambda>d. if d = host_root then [[97], [98], [100]] else [[115]]),
      t_md = (\<lambda>p. if p = host_root then host_md 10 FtDir 0
        else if p = host_root @ [Normal [100]] then host_md 11 FtDir 0
        else if p = host_root @ [Normal [100], Normal [115]] then host_md 13 FtSymlink 1
        else host_md 12 FtFile 5),
      t_additional = (\<lambda>p. if p = host_root @ [Normal [100], Normal [115]]
        then Some \<lparr>ia_xattrs = [], ia_symlink_target = Some [97]\<rparr> else None),
      t_data = (\<lambda>p. [1, 2, 3, 4, 5])\<rparr>"

definition host_open :: "path \<Rightarrow> bytes io_result" where
  "host_open p = Ok [1, 2, 3, 4, 5]"

definition sample_host :: host where
  "sample_host =
     \<lparr>h_walk_dirs = (\<lambda>p. map Ok (t_dirs host_tree)),
      h_symlink_metadata = (\<lambda>p. Ok (t_md host_tree p)),
      h_read_dir = (\<lambda>d. Ok (map Ok (rev (t_names host_tree d)))),
      h_read_link = (\<lambda>p. Ok [97]),
      h_xattr_list = (\<lambda>p. Ok []),
      h_xattr_get = (\<lambda>p name. Ok None),
      h_major = (\<lambda>d. d), h_minor = (\<lambda>d. d),
      h_stream_cdc = (\<lambda>_ _ _ _. [Ok [1, 2, 3], Ok [4, 5]]),
      h_values = (\<lambda>ds. ds)\<rparr>"

lemmas sample_host_defs = sample_host_def host_tree_def host_root_def host_md_def

lemma host_entries:
  "t_entries host_tree (t_dirs host_tree) =
     [host_root @ [Normal [97]], host_root @ [Normal [98]], host_root @ [Normal [100]],
      host_root @ [Normal [100], Normal [115]]]"
  by (simp add: t_entries_def dir_paths_def host_tree_def host_root_def)

lemma host_regular_files: "regular_files host_tree = [host_root @ [Normal [97]]]"
  by (simp add: typed_paths_def firsts_def host_entries) (simp add: host_tree_def host_root_def host_md_def)

lemma host_tree_walk: "walk_order host_root host_tree"
proof -
  have "t_dirs host_tree ! i \<in> set (t_entries host_tree (take i (t_dirs host_tree)))"
    if "i < length (t_dirs host_tree)" "0 < i" for i
  proof -
    from that have "i = 1" by (simp add: host_tree_def)
    then show ?thesis by (simp add: host_tree_def t_entries_def dir_paths_def host_root_def)
  qed
  then show ?thesis
    unfolding walk_order_def host_entries
    by (simp add: host_tree_def host_root_def host_md_def plain_name_def slash_def dot_def)
qed

lemma host_tree_links: "links_ok host_root host_tree"
  unfolding links_ok_def host_entries by (simp add: host_tree_def host_root_def host_md_def)

lemma sample_host_shows: "host_shows sample_host host_open host_root host_tree"
  unfolding host_shows_def host_entries
  using host_tree_walk host_tree_links
  by (auto simp: sample_host_defs host_open_def additional_of_def InodeAdditional_new_def get_xattrs_def
      intro: exI [of _ "[[100], [98], [97]]"] exI [of _ "[[115]]"])

lemma sample_host_cuts: "chunker_cuts sample_host host_open (stream_of (regular_files host_tree)) [[1, 2, 3], [4, 5]]"
proof -
  have rest: "chain_rest host_open (reader_chain (stream_of (regular_files host_tree)))
      (current_reader (stream_of (regular_files host_tree))) = Ok [1, 2, 3, 4, 5]"
    by (simp add: host_regular_files stream_of_chain host_open_def)
  show ?thesis
    unfolding chunker_cuts_def using stream_to_end_spec [OF rest, of _ "[]" "[]"] by (auto simp: sample_host_def h_chunker_def)
qed

lemma host_tree_small: "t_small host_tree"
  by (simp add: t_small_def host_entries)

lemma sample_host_values: "values_ok sample_host"
  by (simp add: values_ok_def sample_host_def)

section \<open>An image store with manifests\<close>

text \<open>
  The state of \<open>ocidir\<close> is the map from tags to manifests. The message library knows one message,
  which it writes as one byte.
\<close>

type_synonym tags = "string \<rightharpoonup> ImageManifest"

text \<open>The blob that holds the manifest of a tag.\<close>

definition tagged_desc :: Descriptor where
  "tagged_desc = \<lparr>d_media_type = [], d_size = 1, d_digest = base16_encode (pad32 [9]), d_annotations = None\<rparr>"

definition tag_env :: "capnp_rootfs \<Rightarrow> tags env" where
  "tag_env c =
     \<lparr>env_hex = base16, env_sha256 = pad32, env_fs_verity_sha256 = pad32,
      env_fsverity_measure = (\<lambda>f. Ok (pad32 (bf_data f))),
      env_seekable_init = (\<lambda>fh. Ok (seekable_on (sample_unzstd (fh_data fh)))),
      env_read_message = (\<lambda>bs. if bs = [9] then Ok c else Err CapnpError),
      env_write_message = (\<lambda>x. if x = c then Ok [9] else Err CapnpError),
      env_digest_from_str = (\<lambda>s. Ok (drop 7 s)),
      env_write_error = (\<lambda>name data. None), env_reopen_error = (\<lambda>name. None),
      env_find_manifest_with_tag = (\<lambda>im tag. Ok (im_oci im tag)),
      env_find_manifest_descriptor_with_tag = (\<lambda>im tag. Ok (map_option (\<lambda>_. tagged_desc) (im_oci im tag)))\<rparr>"

text \<open>The manifest of a new image; its configuration is in the same blob.\<close>

definition tag_manifest :: ImageManifest where
  "tag_manifest = plain_manifest\<lparr>m_config := tagged_desc\<rparr>"

definition tag_registry :: "tags registry" where
  "tag_registry =
     \<lparr>rg_empty_manifest = (\<lambda>im. Ok tag_manifest),
      rg_insert_manifest = (\<lambda>im m tag. Ok (im\<lparr>im_oci := (im_oci im)(tag \<mapsto> m)\<rparr>))\<rparr>"

definition tag_image :: "tags Image" where
  "tag_image = \<lparr>im_blobs = Map.empty, im_oci = Map.empty\<rparr>"

lemma tag_env_simps [simp]:
  "env_hex (tag_env c) = base16" "env_sha256 (tag_env c) = pad32" "env_fs_verity_sha256 (tag_env c) = pad32"
  "env_digest_from_str (tag_env c) str = Ok (drop 7 str)" "env_write_error (tag_env c) name data = None" "env_reopen_error (tag_env c) name = None"
  by (simp_all add: tag_env_def)

lemma tag_env_laws: "env_lawful (tag_env c)" "messages_ok (tag_env c)" "registry_ok (tag_env c) tag_registry"
  by (auto simp: env_lawful_def base16_lawful SHA256_BLOCK_SIZE_def messages_ok_def registry_ok_def tag_registry_def
      image_le_def) (auto simp: tag_env_def split: if_splits)

lemma pad32_differ: "pad32 [1, 2, 3] \<noteq> pad32 [4, 5]"
proof -
  have "hd (pad32 [1, 2, 3]) = 1" "hd (pad32 [4, 5]) = 4" by (simp_all add: pad32_def)
  then show ?thesis by force
qed

lemma sample_store_ok: "store_ok (tag_env c) Noop tag_image [[1, 2, 3], [4, 5]]"
proof -
  from tag_env_laws(1) show ?thesis
    by (auto simp: pad32_differ pad32_differ [symmetric] store_ok_def content_addressed_def tag_image_def no_collision_def chunk_blobs_def Noop_def
        stored_data_def Noop_compress_all_def)
qed

section \<open>The build, evaluated\<close>

lemmas scan_defs = scan_rootfs_def start_state_def additional_of_def InodeAdditional_new_def get_xattrs_def
  visit_dir_def visit_entry_def rootfs_relative_def lookup_existing_def take_ino_def next_u64_def
  add_to_parent_def render_entry_def dirs_add_entry_def add_entry_def join_def components_def pop_def
  FilesystemStream_push_def FilesystemStream_new_def file_name_def component_of_def slash_def dot_def

definition built_file :: bfile where
  "built_file = \<lparr>f_ino = 2, f_chunks = [], f_md = host_md 12 FtFile 5, f_additional = None\<rparr>"

definition built_state :: build_state where
  "built_state =
     \<lparr>bs_dirs =
        [(10, \<lparr>bd_ino = 1, bd_entries = [\<lparr>de_ino = 2, de_name = [97]\<rparr>, \<lparr>de_ino = 2, de_name = [98]\<rparr>,
            \<lparr>de_ino = 4, de_name = [100]\<rparr>], bd_md = host_md 10 FtDir 0, bd_additional = None\<rparr>),
         (11, \<lparr>bd_ino = 4, bd_entries = [\<lparr>de_ino = 5, de_name = [115]\<rparr>], bd_md = host_md 11 FtDir 0,
            bd_additional = None\<rparr>)],
      bs_files = [built_file],
      bs_others = [\<lparr>bo_ino = 5, bo_md = host_md 13 FtSymlink 1,
        bo_additional = Some \<lparr>ia_xattrs = [], ia_symlink_target = Some [97]\<rparr>\<rparr>],
      bs_inodes = [], bs_stream = stream_of [host_root @ [Normal [97]]],
      bs_host_to_pfs = [12 \<mapsto> 2, 11 \<mapsto> 4, 13 \<mapsto> 5], bs_next_ino = 6\<rparr>"

lemma sample_scan: "scan_rootfs sample_host (None :: 'o PuzzleFS option) host_root = Ok built_state"
  by (simp add: scan_defs sample_host_defs Let_def built_state_def built_file_def stream_of_def)

definition chunk_desc :: "bytes \<Rightarrow> Descriptor" where
  "chunk_desc d = \<lparr>d_media_type = PUZZLEFS_CHUNK_DATA, d_size = length d, d_digest = base16_encode (pad32 d),
     d_annotations = None\<rparr>"

lemma sample_put:
  "im_blobs im (base16_encode (pad32 d)) = None \<Longrightarrow>
   put_blob (tag_env c) Noop im d m ChunkMedia =
     Ok ((chunk_desc d, pad32 d, False),
       im\<lparr>im_blobs := (im_blobs im)(base16_encode (pad32 d) \<mapsto> \<lparr>bf_data = d, bf_verity = False\<rparr>)\<rparr>,
       m\<lparr>m_layers := m_layers m @ [chunk_desc d]\<rparr>)"
  by (simp add: put_blob_def Noop_def Noop_compress_all_def Noop_append_extension_def Let_def chunk_desc_def
      get_fs_verity_digest_def store_blob_def base16_def PUZZLEFS_CHUNK_DATA_def PUZZLEFS_ROOTFS_def)

lemma base16_pad32_inj: "base16_encode (pad32 a) = base16_encode (pad32 b) \<longleftrightarrow> pad32 a = pad32 b"
  using base16_pad32 by (metis Digest.inject outcome.inject(1))

lemma pad32_nine: "pad32 [9] \<noteq> pad32 [1, 2, 3]" "pad32 [9] \<noteq> pad32 [4, 5]"
proof -
  have "hd (pad32 [9]) = 9" "hd (pad32 [1, 2, 3]) = 1" "hd (pad32 [4, 5]) = 4" by (simp_all add: pad32_def)
  then show "pad32 [9] \<noteq> pad32 [1, 2, 3]" "pad32 [9] \<noteq> pad32 [4, 5]" by force+
qed

definition built_files :: "bfile list" where
  "built_files = [push_chunk (pad32 [4, 5]) False 0 2 (push_chunk (pad32 [1, 2, 3]) False 0 3 built_file)]"

definition built_image :: "tags Image" where
  "built_image = tag_image\<lparr>im_blobs := [base16_encode (pad32 [1, 2, 3]) \<mapsto> \<lparr>bf_data = [1, 2, 3], bf_verity = False\<rparr>,
     base16_encode (pad32 [4, 5]) \<mapsto> \<lparr>bf_data = [4, 5], bf_verity = False\<rparr>]\<rparr>"

lemma sample_chunk_loops:
  fixes cur :: cursor
  assumes "cur = \<lparr>cu_passed = [], cu_file = Some built_file, cu_used = 0, cu_rest = []\<rparr>"
  shows "chunk_loop dg False 3 0 cur =
      Some (Ok (cur\<lparr>cu_file := Some (push_chunk dg False 0 3 built_file), cu_used := 3\<rparr>, False))"
    "chunk_loop dg' False 2 0 (cur\<lparr>cu_file := Some (push_chunk dg False 0 3 built_file), cu_used := 3\<rparr>) =
      Some (Ok (\<lparr>cu_passed = [push_chunk dg' False 0 2 (push_chunk dg False 0 3 built_file)],
        cu_file = None, cu_used = 0, cu_rest = []\<rparr>, True))"
proof -
  have "f_size built_file = 5" by (simp add: built_file_def host_md_def)
  then show "chunk_loop dg False 3 0 cur =
      Some (Ok (cur\<lparr>cu_file := Some (push_chunk dg False 0 3 built_file), cu_used := 3\<rparr>, False))"
    "chunk_loop dg' False 2 0 (cur\<lparr>cu_file := Some (push_chunk dg False 0 3 built_file), cu_used := 3\<rparr>) =
      Some (Ok (\<lparr>cu_passed = [push_chunk dg' False 0 2 (push_chunk dg False 0 3 built_file)],
        cu_file = None, cu_used = 0, cu_rest = []\<rparr>, True))"
    by (simp_all add: assms chunk_loop.simps [of _ _ _ 0] chunk_loop.simps [of _ _ 3 3] Let_def)
qed

lemma sample_loop_step:
  assumes "im_blobs im (base16_encode (pad32 d)) = None"
    and "chunk_loop (pad32 d) False (length d) 0 cur = Some (Ok (cur', stop))" and "stop \<longrightarrow> rest = []"
  shows "chunks_loop (tag_env c) Noop (Ok d # rest) im vd m cur =
    (let im' = im\<lparr>im_blobs := (im_blobs im)(base16_encode (pad32 d) \<mapsto> \<lparr>bf_data = d, bf_verity = False\<rparr>)\<rparr>;
         vd' = btree_insert (pad32 d) (pad32 d) vd; m' = m\<lparr>m_layers := m_layers m @ [chunk_desc d]\<rparr>
     in if stop then Some (Ok (cur', im', vd', m')) else chunks_loop (tag_env c) Noop rest im' vd' m' cur')"
proof -
  have "Digest_try_from_str base16 (d_digest (chunk_desc d)) = Ok (Digest (pad32 d))"
    by (simp add: chunk_desc_def base16_pad32)
  with assms show ?thesis by (simp add: sample_put underlying_def Let_def)
qed

lemma sample_process:
  "process_chunks (tag_env c) Noop tag_image [Ok [1, 2, 3], Ok [4, 5]] [built_file] [] tag_manifest =
     Some (Ok (built_files, built_image,
       btree_insert (pad32 [4, 5]) (pad32 [4, 5]) [(pad32 [1, 2, 3], pad32 [1, 2, 3])],
       tag_manifest\<lparr>m_layers := [chunk_desc [1, 2, 3], chunk_desc [4, 5]]\<rparr>))"
proof -
  let ?cur = "\<lparr>cu_passed = [], cu_file = Some built_file, cu_used = 0, cu_rest = []\<rparr> :: cursor"
  let ?f = "push_chunk (pad32 [1, 2, 3]) False 0 3 built_file"
  have start: "next_file [] [built_file] = ?cur" by (simp add: built_file_def host_md_def)
  have loops: "chunk_loop (pad32 [1, 2, 3]) False (length [1, 2, 3 :: u8]) 0 ?cur =
      Some (Ok (?cur\<lparr>cu_file := Some ?f, cu_used := 3\<rparr>, False))"
    "chunk_loop (pad32 [4, 5]) False (length [4, 5 :: u8]) 0 (?cur\<lparr>cu_file := Some ?f, cu_used := 3\<rparr>) =
      Some (Ok (\<lparr>cu_passed = built_files, cu_file = None, cu_used = 0, cu_rest = []\<rparr>, True))"
    using sample_chunk_loops [OF refl] by (simp_all add: built_files_def eval_nat_numeral)
  let ?im = "tag_image\<lparr>im_blobs := [base16_encode (pad32 [1, 2, 3]) \<mapsto> \<lparr>bf_data = [1, 2, 3], bf_verity = False\<rparr>]\<rparr>"
  let ?m = "tag_manifest\<lparr>m_layers := [chunk_desc [1, 2, 3]]\<rparr>"
  have "im_blobs ?im (base16_encode (pad32 [4, 5])) = None"
    using pad32_differ [symmetric] by (simp add: base16_pad32_inj tag_image_def)
  from sample_loop_step [OF this loops(2), of "[]" c "[(pad32 [1, 2, 3], pad32 [1, 2, 3])]" ?m]
  have two: "chunks_loop (tag_env c) Noop [Ok [4, 5]] ?im [(pad32 [1, 2, 3], pad32 [1, 2, 3])] ?m
      (?cur\<lparr>cu_file := Some ?f, cu_used := 3\<rparr>) =
      Some (Ok (\<lparr>cu_passed = built_files, cu_file = None, cu_used = 0, cu_rest = []\<rparr>, built_image,
        btree_insert (pad32 [4, 5]) (pad32 [4, 5]) [(pad32 [1, 2, 3], pad32 [1, 2, 3])],
        tag_manifest\<lparr>m_layers := [chunk_desc [1, 2, 3], chunk_desc [4, 5]]\<rparr>))"
    by (simp add: Let_def built_image_def tag_image_def)
  have "im_blobs tag_image (base16_encode (pad32 [1, 2, 3])) = None" by (simp add: tag_image_def)
  from sample_loop_step [OF this loops(1), of "[Ok [4, 5]]" c "[]" tag_manifest]
  have "chunks_loop (tag_env c) Noop [Ok [1, 2, 3], Ok [4, 5]] tag_image [] tag_manifest ?cur =
      chunks_loop (tag_env c) Noop [Ok [4, 5]] ?im [(pad32 [1, 2, 3], pad32 [1, 2, 3])] ?m
        (?cur\<lparr>cu_file := Some ?f, cu_used := 3\<rparr>)"
    by (simp add: Let_def tag_manifest_def plain_manifest_def tag_image_def del: chunks_loop.simps)
  then show ?thesis by (simp only: process_chunks_def start two) (simp add: cursor_files_def)
qed

text \<open>The inodes of the layer and the message that holds them.\<close>

definition built_inodes :: "Inode list" where
  "built_inodes = (case render_inodes sample_host built_state built_files of Ok is \<Rightarrow> is | _ \<Rightarrow> [])"

definition built_rootfs :: Rootfs where
  "built_rootfs = \<lparr>rf_metadatas = [built_inodes],
     rf_fs_verity_data = btree_insert (pad32 [4, 5]) (pad32 [4, 5]) [(pad32 [1, 2, 3], pad32 [1, 2, 3])],
     rf_manifest_version = PUZZLEFS_IMAGE_MANIFEST_VERSION\<rparr>"

definition built_message :: capnp_rootfs where
  "built_message = (case Rootfs_fill_capnp built_rootfs of Ok c \<Rightarrow> c | _ \<Rightarrow> empty_message)"

lemma built_render: "render_inodes sample_host built_state built_files = Ok built_inodes \<and> fits_Rootfs built_rootfs"
proof -
  have r: "\<exists>is. render_inodes sample_host built_state built_files = Ok is \<and> length is < 10 \<and> (\<forall>i\<in>set is. fits_Inode i)"
    by (simp add: render_inodes_def built_state_def built_files_def built_file_def push_chunk_def render_dir_def
        render_file_def render_other_def new_dir_def new_file_def new_other_def host_md_def fits_Inode_def new_inode_def
        sample_host_def)
  then show ?thesis by (auto simp: built_inodes_def built_rootfs_def fits_Rootfs_def)
qed

lemma built_fill: "Rootfs_fill_capnp built_rootfs = Ok built_message"
  using Rootfs_fill_cases [of built_rootfs] built_render by (auto simp: built_message_def)

definition built_desc :: Descriptor where
  "built_desc = \<lparr>d_media_type = PUZZLEFS_ROOTFS, d_size = 1, d_digest = base16_encode (pad32 [9]),
     d_annotations = Some [VERITY_ROOT_HASH_ANNOTATION \<mapsto> base16_encode (pad32 [9])]\<rparr>"

definition built_manifest :: ImageManifest where
  "built_manifest = tag_manifest\<lparr>m_layers := [built_desc, chunk_desc [1, 2, 3], chunk_desc [4, 5]]\<rparr>"

definition built_store :: "tags Image" where
  "built_store = \<lparr>im_blobs = (im_blobs built_image)(base16_encode (pad32 [9]) \<mapsto> \<lparr>bf_data = [9], bf_verity = False\<rparr>),
     im_oci = [''t'' \<mapsto> built_manifest]\<rparr>"

lemma sample_layer:
  "build_delta sample_host (tag_env built_message) Noop host_root tag_image None [] tag_manifest =
      Some (Ok (built_inodes, built_image, rf_fs_verity_data built_rootfs,
        tag_manifest\<lparr>m_layers := [chunk_desc [1, 2, 3], chunk_desc [4, 5]]\<rparr>))"
  "serialize_metadata (tag_env built_message) built_rootfs = Ok [9]"
proof -
  show "build_delta sample_host (tag_env built_message) Noop host_root tag_image None [] tag_manifest =
      Some (Ok (built_inodes, built_image, rf_fs_verity_data built_rootfs,
        tag_manifest\<lparr>m_layers := [chunk_desc [1, 2, 3], chunk_desc [4, 5]]\<rparr>))"
    using sample_scan [where ?'o = tags] sample_process [of built_message] built_render
    by (simp add: build_delta_def h_chunker_def sample_host_def built_state_def built_rootfs_def)
  show "serialize_metadata (tag_env built_message) built_rootfs = Ok [9]"
    by (simp add: serialize_metadata_def built_fill tag_env_def)
qed

lemma sample_build:
  "build_initial_rootfs sample_host (tag_env built_message) tag_registry Noop host_root tag_image ''t'' =
     Some (Ok (built_desc, built_store))"
proof -
  have "im_blobs built_image (base16_encode (pad32 [9])) = None"
    using pad32_nine by (simp add: built_image_def tag_image_def base16_pad32_inj)
  with sample_layer show ?thesis
    by (simp add: build_initial_rootfs_def write_rootfs_def tag_registry_def built_rootfs_def put_blob_def Noop_def
        Noop_compress_all_def Noop_append_extension_def Let_def get_fs_verity_digest_def store_blob_def base16_def)
      (simp add: built_image_def tag_image_def built_desc_def built_manifest_def built_store_def)
qed

text \<open>The image that was built meets what opening it again needs.\<close>

lemma sample_build_laws:
  "initial_collision_free sample_host (tag_env built_message) tag_registry Noop host_root tag_image"
  "\<forall>data. length (env_fs_verity_sha256 (tag_env built_message) data) = SHA256_BLOCK_SIZE"
proof -
  have "collision_free (tag_env built_message) built_image [9]"
    using pad32_nine by (auto simp: collision_free_def built_image_def tag_image_def split: if_splits)
  then have "rootfs_collision_free (tag_env built_message) built_image built_rootfs"
    by (simp add: rootfs_collision_free_def sample_layer(2))
  then show "initial_collision_free sample_host (tag_env built_message) tag_registry Noop host_root tag_image"
    using sample_layer(1) by (auto simp: initial_collision_free_def tag_registry_def built_rootfs_def)
qed (simp add: SHA256_BLOCK_SIZE_def)

end
