(* ===== verification/Verity_Enable.thy ===== *)
theory Verity_Enable
  imports Build_Image Store_Properties
begin

text \<open>
  What \<open>enable_fs_verity\<close> of \<open>builder.rs\<close> leaves behind: the contents of no file change, and the manifest,
  the rootfs and every chunk with a recorded digest are protected by fs-verity with that digest.
\<close>

section \<open>Laws\<close>

text \<open>
  \<open>FS_IOC_ENABLE_VERITY\<close> keeps the contents of the file; it fails with \<open>EEXIST\<close> only where fs-verity is
  already enabled. Looking up a tag in the index depends on the contents of the files only.
\<close>

definition enable_lawful :: "(blob_file \<Rightarrow> blob_file io_result) \<Rightarrow> bool" where
  "enable_lawful enable \<longleftrightarrow>
     (\<forall>f f'. enable f = Ok f' \<longrightarrow> bf_data f' = bf_data f \<and> bf_verity f') \<and>
     (\<forall>f e. enable f = Err e \<longrightarrow> io_kind e = AlreadyExists \<longrightarrow> bf_verity f)"

definition verity_le :: "'o Image \<Rightarrow> 'o Image \<Rightarrow> bool" where
  "verity_le im im' \<longleftrightarrow> im_oci im' = im_oci im \<and> dom (im_blobs im') = dom (im_blobs im) \<and>
     (\<forall>name f f'. im_blobs im name = Some f \<longrightarrow> im_blobs im' name = Some f' \<longrightarrow>
        bf_data f' = bf_data f \<and> (bf_verity f \<longrightarrow> bf_verity f'))"

definition index_stable :: "'o env \<Rightarrow> bool" where
  "index_stable env \<longleftrightarrow> (\<forall>im im' tag. verity_le im im' \<longrightarrow>
     env_find_manifest_with_tag env im' tag = env_find_manifest_with_tag env im tag \<and>
     env_find_manifest_descriptor_with_tag env im' tag = env_find_manifest_descriptor_with_tag env im tag)"

section \<open>Protected files\<close>

definition protected :: "'o env \<Rightarrow> 'o Image \<Rightarrow> string \<Rightarrow> bytes \<Rightarrow> bool" where
  "protected env im name v \<longleftrightarrow> length v = SHA256_BLOCK_SIZE \<and>
     (\<exists>f. im_blobs im name = Some f \<and> bf_verity f \<and> env_fs_verity_sha256 env (bf_data f) = v)"

lemma verity_le_refl [simp]: "verity_le im im"
  by (auto simp: verity_le_def)

lemma verity_le_trans: "verity_le a b \<Longrightarrow> verity_le b c \<Longrightarrow> verity_le a c"
  unfolding verity_le_def by (metis domD domI)

lemma verity_leD:
  assumes "verity_le im im'" and "im_blobs im name = Some f"
  obtains f' where "im_blobs im' name = Some f'" "bf_data f' = bf_data f" "bf_verity f \<longrightarrow> bf_verity f'"
  using assms unfolding verity_le_def by (metis domD domI)

lemma protected_mono: "protected env im name v \<Longrightarrow> verity_le im im' \<Longrightarrow> protected env im' name v"
  unfolding protected_def by (metis verity_leD)

lemma protected_opens:
  assumes "protected env im name v" and "verity_lawful env"
  shows "\<exists>f. im_blobs im name = Some f \<and> open_raw_blob env im name (Some v) = Ok f \<and> check_fs_verity env f v = Ok ()"
  using assms by (auto simp: protected_def verity_lawful_def open_raw_blob_def check_fs_verity_def)

lemma enable_verity_for_file_le:
  assumes "enable_verity_for_file enable im name = Ok im'" and "enable_lawful enable"
  shows "verity_le im im' \<and> (\<exists>f. im_blobs im' name = Some f \<and> bf_verity f)"
proof -
  from assms(1) obtain f where f: "im_blobs im name = Some f"
    "(case enable f of Ok f' \<Rightarrow> Ok (im\<lparr>im_blobs := (im_blobs im)(name \<mapsto> f')\<rparr>)
      | Err e \<Rightarrow> if io_kind e \<noteq> AlreadyExists then Err (IOError e) else Ok im | Panic p \<Rightarrow> Panic p) = Ok im'"
    by (auto simp: enable_verity_for_file_def open_blob_def)
  show ?thesis
  proof (cases "enable f")
    case (Ok f')
    with f assms(2) have "im' = im\<lparr>im_blobs := (im_blobs im)(name \<mapsto> f')\<rparr>" "bf_data f' = bf_data f" "bf_verity f'"
      by (auto simp: enable_lawful_def)
    with f(1) show ?thesis by (auto simp: verity_le_def)
  next
    case (Err e)
    with f have "im' = im" "io_kind e = AlreadyExists" by (auto split: if_splits)
    with f(1) Err assms(2) show ?thesis by (auto simp: enable_lawful_def)
  next
    case (Panic p)
    with f(2) show ?thesis by simp
  qed
qed

lemma enable_and_check_protects:
  assumes "enable_and_check_verity_for_file env enable im name v = Ok im'" and "enable_lawful enable" and "verity_lawful env"
  shows "verity_le im im' \<and> protected env im' name v"
proof -
  from assms(1) obtain f where e: "enable_verity_for_file enable im name = Ok im'" and f: "im_blobs im' name = Some f"
    "check_fs_verity env f v = Ok ()"
    by (auto simp: enable_and_check_verity_for_file_def open_blob_def)
  from enable_verity_for_file_le [OF e assms(2)] f(1) have "verity_le im im'" "bf_verity f" by auto
  with f assms(3) show ?thesis by (auto simp: protected_def check_fs_verity_Ok_iff verity_lawful_def)
qed

lemma enable_chunks_protects:
  assumes "enable_chunks env enable im vd = Ok im'" and "enable_lawful enable" and "verity_lawful env"
  shows "verity_le im im' \<and> (\<forall>(d, v)\<in>set vd. protected env im' (hex_encode (env_hex env) d) v)"
  using assms(1)
proof (induction vd arbitrary: im)
  case (Cons x vd)
  obtain d v where x: "x = (d, v)" by (cases x)
  with Cons.prems obtain im1 where
    "enable_and_check_verity_for_file env enable im (hex_encode (env_hex env) d) v = Ok im1"
    and rest: "enable_chunks env enable im1 vd = Ok im'"
    by (auto simp: Digest_to_string_def Digest_new_def)
  with enable_and_check_protects assms(2,3) have "verity_le im im1" "protected env im1 (hex_encode (env_hex env) d) v"
    by blast+
  with Cons.IH [OF rest] x protected_mono verity_le_trans show ?case by fastforce
qed simp

section \<open>The whole operation\<close>

lemma find_manifest_stable:
  assumes "index_stable env" and "verity_le im im'"
  shows "find_manifest env im' tag = find_manifest env im tag"
    "get_pfs_rootfs_verity env im' tag = get_pfs_rootfs_verity env im tag"
    "env_find_manifest_descriptor_with_tag env im' tag = env_find_manifest_descriptor_with_tag env im tag"
  using assms by (auto simp: index_stable_def find_manifest_def get_pfs_rootfs_verity_def)

lemma open_rootfs_stable:
  assumes "open_rootfs_blob env im tag None = Ok rootfs" and "verity_le im im'" and "index_stable env"
  shows "open_rootfs_blob env im' tag None = Ok rootfs"
proof -
  from assms(1) obtain m rd f where m: "find_manifest env im tag = Ok m" "find_rootfs_desc m = Ok rd"
    and f: "im_blobs im (d_digest rd) = Some f" "env_read_message env (bf_data f) = Ok rootfs"
    by (auto simp: open_rootfs_blob_def get_pfs_rootfs_def open_raw_blob_def RootfsReader_open_def split: option.splits)
  from assms(2) f(1) obtain f' where "im_blobs im' (d_digest rd) = Some f'" "bf_data f' = bf_data f" by (rule verity_leD)
  with f(2) m show ?thesis
    by (simp add: open_rootfs_blob_def get_pfs_rootfs_def open_raw_blob_def RootfsReader_open_def
        find_manifest_stable(1) [OF assms(3,2)])
qed

text \<open>A run that succeeds, step by step.\<close>

lemma enable_fs_verityE:
  assumes "enable_fs_verity env enable im tag manifest_root_hash = Ok im'"
    and laws: "enable_lawful enable" "verity_lawful env" "index_stable env"
  obtains root_hash manifest_desc manifest rootfs_desc rootfs_verity rootfs vd where
    "hex_decode (env_hex env) manifest_root_hash = Some root_hash"
    "env_find_manifest_descriptor_with_tag env im' tag = Ok (Some manifest_desc)"
    "find_manifest env im' tag = Ok manifest" "find_rootfs_desc manifest = Ok rootfs_desc"
    "get_pfs_rootfs_verity env im' tag = Ok rootfs_verity"
    "protected env im' (d_digest manifest_desc) root_hash" "protected env im' (d_digest rootfs_desc) rootfs_verity"
    "RootfsReader_get_verity_data rootfs = Ok vd"
    "\<forall>(d, v)\<in>set vd. protected env im' (hex_encode (env_hex env) d) v"
    "open_rootfs_blob env im' tag None = Ok rootfs" "verity_le im im'"
    "RootfsReader_get_manifest_version rootfs = Ok PUZZLEFS_IMAGE_MANIFEST_VERSION"
proof -
  from assms(1) obtain root_hash md im1 pfs rootfs rv m rd im2 m' im3 vd where
    hash: "hex_decode (env_hex env) manifest_root_hash = Some root_hash"
    and md: "env_find_manifest_descriptor_with_tag env im tag = Ok (Some md)"
    and im1: "enable_and_check_verity_for_file env enable im (d_digest md) root_hash = Ok im1"
    and pfs: "PuzzleFS_open env im1 tag None = Ok pfs" and rootfs: "open_rootfs_blob env im1 tag None = Ok rootfs"
    and rv: "get_pfs_rootfs_verity env im1 tag = Ok rv" and m: "find_manifest env im1 tag = Ok m"
    and rd: "find_rootfs_desc m = Ok rd"
    and im2: "enable_and_check_verity_for_file env enable im1 (d_digest rd) rv = Ok im2"
    and m': "find_manifest env im2 tag = Ok m'"
    and im3: "enable_verity_for_file enable im2 (d_digest (m_config m')) = Ok im3"
    and vd: "RootfsReader_get_verity_data rootfs = Ok vd" "enable_chunks env enable im3 vd = Ok im'"
    by (auto simp: enable_fs_verity_def)
  note p1 = enable_and_check_protects [OF im1 laws(1,2)] and p2 = enable_and_check_protects [OF im2 laws(1,2)]
    and p3 = enable_verity_for_file_le [OF im3 laws(1)] and p4 = enable_chunks_protects [OF vd(2) laws(1,2)]
  from p1 p2 p3 p4 have le: "verity_le im im'" "verity_le im1 im'" "verity_le im2 im'"
    by (meson verity_le_trans)+
  have "open_rootfs_blob env im' tag None = Ok rootfs" by (rule open_rootfs_stable [OF rootfs le(2) laws(3)])
  moreover have "RootfsReader_get_manifest_version rootfs = Ok PUZZLEFS_IMAGE_MANIFEST_VERSION"
    using pfs rootfs by (auto simp: PuzzleFS_open_def RootfsReader_get_manifest_version_def split: if_splits)
  moreover have "env_find_manifest_descriptor_with_tag env im' tag = Ok (Some md)" "find_manifest env im' tag = Ok m"
    "get_pfs_rootfs_verity env im' tag = Ok rv"
    using md m rv find_manifest_stable [OF laws(3) le(2)] find_manifest_stable(3) [OF laws(3) le(1)] by simp_all
  moreover have "protected env im' (d_digest md) root_hash" "protected env im' (d_digest rd) rv"
    using p1 p2 le(2,3) protected_mono by blast+
  ultimately show thesis using that [OF hash _ _ rd _ _ _ vd(1)] p4 le(1) by blast
qed

lemma protected_image_opens:
  assumes "env_find_manifest_descriptor_with_tag env im tag = Ok (Some manifest_desc)"
    and "find_manifest env im tag = Ok manifest" and "find_rootfs_desc manifest = Ok rdesc"
    and "get_pfs_rootfs_verity env im tag = Ok rootfs_verity" and "open_rootfs_blob env im tag None = Ok rootfs"
    and "RootfsReader_get_manifest_version rootfs = Ok PUZZLEFS_IMAGE_MANIFEST_VERSION"
    and "RootfsReader_get_verity_data rootfs = Ok vd" and "verity_lawful env"
    and prot: "protected env im (d_digest manifest_desc) root_hash" "protected env im (d_digest rdesc) rootfs_verity"
  shows "PuzzleFS_open env im tag (Some root_hash) = Ok \<lparr>pfs_oci = im, pfs_rootfs = rootfs,
    pfs_verity_data = Some vd, pfs_manifest_verity = Some root_hash\<rparr>"
proof -
  from protected_opens [OF prot(1) assms(8)] obtain mf where
    mf: "im_blobs im (d_digest manifest_desc) = Some mf" "check_fs_verity env mf root_hash = Ok ()" by blast
  from protected_opens [OF prot(2) assms(8)] obtain rf where
    rf: "im_blobs im (d_digest rdesc) = Some rf" "check_fs_verity env rf rootfs_verity = Ok ()" by blast
  have "open_rootfs_blob env im tag (Some root_hash) = Ok rootfs"
    using assms(1-5) mf rf
    by (simp add: open_rootfs_blob_def get_image_manifest_fd_def get_pfs_rootfs_def open_raw_blob_def)
  with assms(6,7) show ?thesis by (simp add: PuzzleFS_open_def)
qed

end
