(* ===== verification/Builder_Properties.thy ===== *)
theory Builder_Properties
  imports Sample_Host Verity_Enable
begin

text \<open>
  Properties of the builder: the file stream, the cutting of chunks at file boundaries, the layer a
  build makes of a host tree, the image as it opens again, and enabling fs-verity.
\<close>

section \<open>Files, stream and chunks\<close>

text \<open>
  The chained reader ends, and it delivers the bytes of the pushed files in the order in which they
  were pushed, whatever the sizes of the buffers it is asked to fill.
\<close>

lemma stream_concatenates_files:
  assumes "collect open_file files = Ok datas" and "0 < dflt" and "\<forall>n\<in>set sizes. 0 < n"
  shows "stream_to_end open_file sizes dflt (stream_of files) [] = Some (Ok (concat datas))"
  using stream_to_end_spec [of open_file "stream_of files" "concat datas" dflt sizes "[]"] chain_rest_fresh [OF assms(1)]
    assms(2,3)
  by (simp add: stream_of_chain)

lemma stream_concatenates_files_sample:
  "stream_to_end (\<lambda>n. Ok (replicate n 7)) [1, 3] 2 (stream_of [2, 0, 3]) [] = Some (Ok (replicate 5 7))"
  using stream_concatenates_files [of "\<lambda>n. Ok (replicate n 7)" "[2, 0, 3]" "[replicate 2 7, [], replicate 3 7]" 2 "[1, 3]"]
  by (simp add: numeral_eq_Suc)

text \<open>
  C19: Cutting the chunks of the stream at file boundaries loses and invents nothing: the loop ends
  without an error or a panic, and the chunk list of every file, read back from the store, gives
  exactly the bytes of that file, empty files and files spread over several chunks included.
\<close>

theorem process_chunks_reconstructs:
  assumes "store_ok env C im ds" and "[] \<notin> set ds" and "list_all2 untouched files contents"
    and "concat ds = concat contents"
  shows "\<exists>files' im' vd' m'. process_chunks env C im (map Ok ds) files vd m = Some (Ok (files', im', vd', m')) \<and>
    image_le im im' \<and> content_addressed env im' \<and> map strip files' = map strip files \<and>
    list_all2 (\<lambda>f bs. chunks_readable (image_chunk_data (env, im', None)) (f_chunks f) \<and>
      file_bytes (image_chunk_data (env, im', None)) (f_chunks f) = bs) files' contents"
  using process_chunks_spec [OF assms, of vd m] by (simp add: holds_def [abs_def])

theorem process_chunks_reconstructs_witness:
  "\<exists>files' im' vd' m'. process_chunks (tag_env empty_message) Noop tag_image [Ok [1, 2, 3], Ok [4, 5]]
       [built_file] [] plain_manifest = Some (Ok (files', im', vd', m')) \<and>
     list_all2 (\<lambda>f bs. file_bytes (image_chunk_data (tag_env empty_message, im', None)) (f_chunks f) = bs)
       files' [[1, 2, 3, 4, 5]]"
proof -
  have "list_all2 untouched [built_file] [[1, 2, 3, 4, 5]]"
    by (simp add: untouched_def built_file_def host_md_def)
  from process_chunks_reconstructs [OF sample_store_ok _ this, of empty_message "[]" plain_manifest]
  show ?thesis by (auto simp: list_all2_conv_all_nth)
qed

section \<open>The layer of a host tree\<close>

text \<open>
  C5: A first layer is a faithful picture of the host tree: the build succeeds; a path leads to an inode
  of the layer exactly if it is a path of the tree; the inode has the owner, permissions, extended
  attributes and symlink target of the host's file, its type, the sorted entries of a directory and
  the bytes of a regular file; and two paths have the same inode exactly if they are hard links.
\<close>

theorem build_delta_represents_tree:
  assumes "host_shows h open_file rootfs T" and "t_small T" and "values_ok h"
    and "chunker_cuts h open_file (stream_of (regular_files T)) ds" and "store_ok env C im ds"
  shows "\<exists>inodes im' vd' m' nm. build_delta h env C rootfs im None vd m = Some (Ok (inodes, im', vd', m')) \<and>
    numbering rootfs T nm \<and>
    (\<forall>ns. (\<exists>i. path_to (layers_view [inodes]) ns i) \<longleftrightarrow> rootfs @ map Normal ns \<in> t_paths rootfs T) \<and>
    (\<forall>ns i. path_to (layers_view [inodes]) ns i \<longrightarrow>
       represents h T nm (image_chunk_data (env, im', None)) (rootfs @ map Normal ns) i)"
proof -
  from build_delta_tree [OF assms, of vd m] obtain inodes im' vd' m' nm where
    bd: "build_delta h env C rootfs im None vd m = Some (Ok (inodes, im', vd', m'))" and nm: "numbering rootfs T nm"
    and repr: "\<forall>p\<in>t_paths rootfs T. \<exists>i\<in>set inodes. represents h T nm (image_chunk_data (env, im', None)) p i"
    by blast
  have walk: "walk_order rootfs T" using assms(1) by (simp add: host_shows_def)
  note path = layer_path_to [OF walk nm conjunct2 [OF build_delta_initial_sorted [OF bd assms(3)]] refl repr]
  have "(\<exists>i. path_to (layers_view [inodes]) ns i) \<longleftrightarrow> rootfs @ map Normal ns \<in> t_paths rootfs T" for ns
    unfolding path using repr by blast
  moreover have "represents h T nm (image_chunk_data (env, im', None)) (rootfs @ map Normal ns) i"
    if "path_to (layers_view [inodes]) ns i" for ns i
    using that unfolding path by blast
  ultimately show ?thesis using bd nm by blast
qed

theorem build_delta_represents_tree_witness:
  "\<exists>inodes im' vd' m' i. build_delta sample_host (tag_env empty_message) Noop host_root tag_image None [] plain_manifest =
      Some (Ok (inodes, im', vd', m')) \<and>
    path_to (layers_view [inodes]) [[100], [115]] i \<and> i_mode i = Lnk \<and>
    \<not> (\<exists>i. path_to (layers_view [inodes]) [[99]] i)"
proof -
  from build_delta_represents_tree [OF sample_host_shows host_tree_small sample_host_values sample_host_cuts
      sample_store_ok, of empty_message "[]" plain_manifest]
  obtain inodes im' vd' m' nm where bd: "build_delta sample_host (tag_env empty_message) Noop host_root tag_image None []
        plain_manifest = Some (Ok (inodes, im', vd', m'))"
    and ex: "\<forall>ns. (\<exists>i. path_to (layers_view [inodes]) ns i) \<longleftrightarrow> host_root @ map Normal ns \<in> t_paths host_root host_tree"
    and repr: "\<forall>ns i. path_to (layers_view [inodes]) ns i \<longrightarrow> represents sample_host host_tree nm
        (image_chunk_data (tag_env empty_message, im', None)) (host_root @ map Normal ns) i"
    by (elim exE conjE) (rule that, assumption+)
  from ex [rule_format, of "[[100], [115]]"] obtain i where i: "path_to (layers_view [inodes]) [[100], [115]] i"
    unfolding host_entries by auto
  from repr [rule_format, OF i] have "i_mode i = Lnk" by (simp add: represents_def host_tree_def host_root_def host_md_def)
  moreover have "\<not> (\<exists>i. path_to (layers_view [inodes]) [[99]] i)"
    unfolding ex [rule_format] host_entries by (simp add: host_root_def)
  ultimately show ?thesis using bd i by blast
qed

text \<open>
  What the builder writes is what the reader sees: after \<open>build_initial_rootfs\<close> the tag opens, looking
  up a path finds an inode exactly for the paths of the host tree, and reading a regular file at any
  offset returns the bytes of the host's file.
\<close>

lemma built_image_shows_tree:
  assumes "host_shows h open_file rootfs T" and "t_small T" and "values_ok h"
    and "chunker_cuts h open_file (stream_of (regular_files T)) ds" and "store_ok env C im ds"
    and "\<forall>data. length (env_fs_verity_sha256 env data) = SHA256_BLOCK_SIZE" and "messages_ok env" and "registry_ok env rg"
    and "build_initial_rootfs h env rg C rootfs im tag = Some (Ok (desc, im''))" and "initial_collision_free h env rg C rootfs im"
  shows "\<exists>pfs. PuzzleFS_open env im'' tag None = Ok pfs \<and>
    (\<forall>ns. (\<exists>i. PuzzleFS_lookup pfs (abs_path ns) = Ok (Some i)) \<longleftrightarrow> rootfs @ map Normal ns \<in> t_paths rootfs T) \<and>
    (\<forall>ns i. PuzzleFS_lookup pfs (abs_path ns) = Ok (Some i) \<longrightarrow>
       (case t_type T (rootfs @ map Normal ns) of
          FtDir \<Rightarrow> map_ok (map de_name) (dir_entries i) = Ok (t_names T (rootfs @ map Normal ns))
        | FtFile \<Rightarrow> reads_as env (pfs_oci pfs) i (t_data T (rootfs @ map Normal ns))
        | _ \<Rightarrow> i_additional i = t_additional T (rootfs @ map Normal ns)))"
proof -
  from build_initial_opens [OF assms] obtain pfs nm inodes where
    pfs: "PuzzleFS_open env im'' tag None = Ok pfs" "wf_pfs pfs" "pfs_oci pfs = im''" "reader_layers (pfs_rootfs pfs) = Ok [inodes]"
      "pfs_view pfs = layers_view [inodes]"
    and sorted: "sorted_wrt (<) (map i_ino inodes)" and nm: "numbering rootfs T nm" "numbers_above rootfs T nm"
    and repr: "\<forall>p\<in>t_paths rootfs T. \<exists>i\<in>set inodes. represents h T nm (image_chunk_data (env, im'', None)) p i" .
  have walk: "walk_order rootfs T" using assms(1) by (simp add: host_shows_def)
  have lookup: "PuzzleFS_lookup pfs (abs_path ns) = Ok (Some i) \<longleftrightarrow> rootfs @ map Normal ns \<in> t_paths rootfs T \<and>
      i \<in> set inodes \<and> represents h T nm (image_chunk_data (env, im'', None)) (rootfs @ map Normal ns) i" for ns i
    unfolding PuzzleFS_lookup_def pfs.lookup_path_iff [OF pfs(2)]
    by (rule layer_path_to [OF walk nm(1) sorted pfs(5) repr])
  have len: "length (t_data T p) < 2 ^ 64" if "p \<in> t_paths rootfs T" "t_type T p = FtFile" for p
    using host_showsD(4) [OF assms(1) that] unat_u64_bound by metis
  have "case t_type T (rootfs @ map Normal ns) of
      FtDir \<Rightarrow> map_ok (map de_name) (dir_entries i) = Ok (t_names T (rootfs @ map Normal ns))
    | FtFile \<Rightarrow> reads_as env (pfs_oci pfs) i (t_data T (rootfs @ map Normal ns))
    | _ \<Rightarrow> i_additional i = t_additional T (rootfs @ map Normal ns)"
    if "PuzzleFS_lookup pfs (abs_path ns) = Ok (Some i)" for ns i
  proof -
    let ?p = "rootfs @ map Normal ns"
    from that lookup have p: "?p \<in> t_paths rootfs T" and r: "represents h T nm (image_chunk_data (env, im'', None)) ?p i"
      by blast+
    show ?thesis
      using r represents_reads [OF r] len [OF p]
      by (cases "t_type T ?p") (auto simp: represents_def pfs(3) dir_entries_def comp_def)
  qed
  moreover have "(\<exists>i. PuzzleFS_lookup pfs (abs_path ns) = Ok (Some i)) \<longleftrightarrow> rootfs @ map Normal ns \<in> t_paths rootfs T" for ns
    unfolding lookup using repr by blast
  ultimately show ?thesis using pfs(1) by blast
qed

lemma built_image_shows_tree_sample:
  "\<exists>desc im'' pfs i. build_initial_rootfs sample_host (tag_env built_message) tag_registry Noop host_root tag_image ''t'' =
      Some (Ok (desc, im'')) \<and> PuzzleFS_open (tag_env built_message) im'' ''t'' None = Ok pfs \<and>
    PuzzleFS_lookup pfs (abs_path [[98]]) = Ok (Some i) \<and>
    file_read (tag_env built_message) (pfs_oci pfs) i 2 (replicate 2 0) None = Ok (2, [3, 4])"
proof -
  from built_image_shows_tree [OF sample_host_shows host_tree_small sample_host_values sample_host_cuts sample_store_ok
      sample_build_laws(2) tag_env_laws(2,3) sample_build sample_build_laws(1)]
  obtain pfs where pfs: "PuzzleFS_open (tag_env built_message) built_store ''t'' None = Ok pfs"
    and ex: "\<forall>ns. (\<exists>i. PuzzleFS_lookup pfs (abs_path ns) = Ok (Some i)) \<longleftrightarrow>
      host_root @ map Normal ns \<in> t_paths host_root host_tree"
    and rd: "\<forall>ns i. PuzzleFS_lookup pfs (abs_path ns) = Ok (Some i) \<longrightarrow>
       (case t_type host_tree (host_root @ map Normal ns) of
          FtDir \<Rightarrow> map_ok (map de_name) (dir_entries i) = Ok (t_names host_tree (host_root @ map Normal ns))
        | FtFile \<Rightarrow> reads_as (tag_env built_message) (pfs_oci pfs) i (t_data host_tree (host_root @ map Normal ns))
        | _ \<Rightarrow> i_additional i = t_additional host_tree (host_root @ map Normal ns))"
    by (elim exE conjE) (rule that, assumption+)
  from ex [rule_format, of "[[98]]"] obtain i where i: "PuzzleFS_lookup pfs (abs_path [[98]]) = Ok (Some i)"
    unfolding host_entries by auto
  have "reads_as (tag_env built_message) (pfs_oci pfs) i [1, 2, 3, 4, 5]"
    using rd [rule_format, OF i] by (simp add: host_tree_def host_root_def host_md_def)
  from this [unfolded reads_with_def, rule_format, of 2 2]
  have "file_read (tag_env built_message) (pfs_oci pfs) i 2 (replicate 2 0) None = Ok (2, [3, 4])" by simp
  with sample_build pfs i show ?thesis by blast
qed

text \<open>
  C31: Every layer the builder returns, first layer or delta, is of the type the reader requires: sorted by
  inode number, with 32-byte digests in all chunk references, and with sorted verity data of 32-byte
  values. The numbers of a first layer are moreover distinct, and there is at least one inode.
\<close>

theorem build_delta_layer_type:
  assumes "build_delta h env C rootfs im existing vd m = Some (Ok (inodes, im', vd', m'))"
    and "\<forall>data. length (env_fs_verity_sha256 env data) = SHA256_BLOCK_SIZE" and "wf_VerityData vd" and "values_ok h"
  shows "sorted (map i_ino inodes) \<and> (\<forall>i\<in>set inodes. wf_InodeMode (i_mode i)) \<and> wf_VerityData vd' \<and>
    (existing = None \<longrightarrow> inodes \<noteq> [] \<and> distinct (map i_ino inodes))"
  using build_delta_wf [OF assms(1-3)] build_delta_initial_sorted [of h env C rootfs im vd m inodes im' vd' m'] assms(1,4)
  by (auto simp: strict_sorted_iff)

theorem build_delta_layer_type_witness:
  "\<exists>inodes im' vd' m'. build_delta sample_host (tag_env empty_message) Noop host_root tag_image None [] plain_manifest =
      Some (Ok (inodes, im', vd', m')) \<and> inodes \<noteq> [] \<and> sorted (map i_ino inodes) \<and> distinct (map i_ino inodes)"
proof -
  from build_delta_tree [OF sample_host_shows host_tree_small sample_host_values sample_host_cuts
      sample_store_ok, of empty_message "[]" plain_manifest]
  obtain inodes im' vd' m' where bd: "build_delta sample_host (tag_env empty_message) Noop host_root tag_image None []
      plain_manifest = Some (Ok (inodes, im', vd', m'))" by blast
  from build_delta_layer_type [OF bd] sample_host_values have "inodes \<noteq> [] \<and> sorted (map i_ino inodes) \<and> distinct (map i_ino inodes)"
    by (simp add: SHA256_BLOCK_SIZE_def wf_VerityData_def btree_invar_def)
  with bd show ?thesis by blast
qed

section \<open>Enabling fs-verity\<close>

text \<open>
  C20: After a successful \<open>enable_fs_verity\<close> no file has changed its contents, the image opens when the
  manifest digest given on the command line is demanded, and every chunk with a recorded digest is
  protected by fs-verity and measures to that digest.
\<close>

theorem enable_fs_verity_protects:
  assumes "enable_fs_verity env enable im tag manifest_root_hash = Ok im'"
    and "enable_lawful enable" and "verity_lawful env" and "index_stable env"
  shows "\<exists>root_hash pfs vd. hex_decode (env_hex env) manifest_root_hash = Some root_hash \<and> verity_le im im' \<and>
    PuzzleFS_open env im' tag (Some root_hash) = Ok pfs \<and> pfs_verity_data pfs = Some vd \<and>
    (\<forall>(d, v)\<in>set vd. protected env im' (hex_encode (env_hex env) d) v)"
proof -
  from assms obtain root_hash manifest_desc manifest rootfs_desc rootfs_verity rootfs vd where
    hash: "hex_decode (env_hex env) manifest_root_hash = Some root_hash"
    and found: "env_find_manifest_descriptor_with_tag env im' tag = Ok (Some manifest_desc)"
      "find_manifest env im' tag = Ok manifest" "find_rootfs_desc manifest = Ok rootfs_desc"
      "get_pfs_rootfs_verity env im' tag = Ok rootfs_verity"
    and prot: "protected env im' (d_digest manifest_desc) root_hash" "protected env im' (d_digest rootfs_desc) rootfs_verity"
    and vd: "RootfsReader_get_verity_data rootfs = Ok vd"
      "\<forall>(d, v)\<in>set vd. protected env im' (hex_encode (env_hex env) d) v"
    and rootfs: "open_rootfs_blob env im' tag None = Ok rootfs" and le: "verity_le im im'"
    and version: "RootfsReader_get_manifest_version rootfs = Ok PUZZLEFS_IMAGE_MANIFEST_VERSION"
    by (rule enable_fs_verityE)
  from protected_image_opens [OF found rootfs version vd(1) assms(3) prot] hash le vd(2) show ?thesis by auto
qed

definition plain_store :: "unit Image" where
  "plain_store =
     \<lparr>im_blobs = [base16_encode (pad32 [5]) \<mapsto> \<lparr>bf_data = [5], bf_verity = False\<rparr>,
        base16_encode (pad32 sample_blob) \<mapsto> \<lparr>bf_data = sample_blob, bf_verity = False\<rparr>,
        ''0'' \<mapsto> \<lparr>bf_data = [], bf_verity = False\<rparr>], im_oci = ()\<rparr>"

definition sample_enable :: "blob_file \<Rightarrow> blob_file io_result" where
  "sample_enable f = (if bf_verity f then Err (OsError (errno_code EEXIST)) else Ok (f\<lparr>bf_verity := True\<rparr>))"

lemma sample_enable_lawful: "enable_lawful sample_enable"
  by (auto simp: enable_lawful_def sample_enable_def)

lemma verity_env_laws: "verity_lawful verity_env" "index_stable verity_env"
  by (simp_all add: verity_lawful_def index_stable_def verity_env_def sample_env_def SHA256_BLOCK_SIZE_def)

theorem enable_fs_verity_protects_witness:
  "\<exists>im' pfs. enable_fs_verity verity_env sample_enable plain_store ''t'' (base16_encode (pad32 [5])) = Ok im' \<and>
    PuzzleFS_open verity_env im' ''t'' (Some (pad32 [5])) = Ok pfs"
proof -
  have ne: "base16_encode (pad32 [5]) \<noteq> base16_encode (pad32 sample_blob)"
  proof -
    have "hd (pad32 [5]) = 5" "hd (pad32 sample_blob) = 10" by (simp_all add: pad32_def sample_blob_def)
    then show ?thesis unfolding base16_pad32_inj by force
  qed
  have hex: "hex_decode base16 (base16_encode (pad32 [5])) = Some (pad32 [5])"
    using base16_lawful by (simp add: hex_lawful_def base16_def)
  have zero: "base16_encode (pad32 xs) \<noteq> ''0''" for xs
    by (rule notI, drule arg_cong [of _ _ length]) (simp add: base16_encode_def length_concat comp_def sum_list_triv)
  have enc: "hex_encode base16 = base16_encode" by (simp add: base16_def)
  have decode: "decode_to_slice base16 (base16_encode (pad32 [5])) = Ok (pad32 [5])"
    using decode_to_slice_encode [OF base16_lawful, of "pad32 [5]"] by (simp add: enc SHA256_BLOCK_SIZE_def)
  have vd: "RootfsReader_get_verity_data sample_message = Ok [(pad32 sample_blob, pad32 sample_blob)]"
    "cp_manifest_version sample_message = PUZZLEFS_IMAGE_MANIFEST_VERSION"
    using Rootfs_roundtrip [OF sample_wf_Rootfs sample_fill]
    by (auto simp: RootfsReader_get_verity_data_def Rootfs_from_capnp_def sample_rootfs_def)
  have "\<exists>im'. enable_fs_verity verity_env sample_enable plain_store ''t'' (base16_encode (pad32 [5])) = Ok im'"
    by (simp add: ne ne [symmetric] zero zero [symmetric] hex vd enc enable_fs_verity_def get_image_manifest_fd_def open_raw_blob_def plain_store_def rootfs_desc_def
        enable_and_check_verity_for_file_def enable_verity_for_file_def open_blob_def sample_enable_def check_fs_verity_def
        SHA256_BLOCK_SIZE_def PuzzleFS_open_def open_rootfs_blob_def get_pfs_rootfs_def find_manifest_def
        find_rootfs_desc_def RootfsReader_open_def RootfsReader_get_manifest_version_def get_pfs_rootfs_verity_def
        plain_manifest_def decode Digest_to_string_def Digest_new_def verity_env_def sample_env_def)
  then obtain im' where im': "enable_fs_verity verity_env sample_enable plain_store ''t'' (base16_encode (pad32 [5])) = Ok im'" ..
  from enable_fs_verity_protects [OF im' sample_enable_lawful verity_env_laws] hex im' show ?thesis
    by (auto simp: verity_env_def sample_env_def)
qed

end
