(* ===== verification/Extractor.thy ===== *)
theory Extractor
  imports Walk
begin

text \<open>
  \<open>puzzlefs-lib/src/extractor.rs\<close>: writing the files of an image below a directory of the host. The host
  is a function of the operations performed on it so far: \<open>x_result\<close> is what the next operation
  returns, \<open>x_symlink_metadata\<close> what \<open>fs::symlink_metadata\<close> reports. The extraction returns the
  operations it has performed together with its result, so that an early error keeps them.
\<close>

section \<open>The host\<close>

datatype host_op =
    CreateDirAll path
  | HardLink path path
  | CreateFile path
  | WriteAll path bytes
  | Mkfifo path
  | MknodChr path u64 u64
  | MknodBlk path u64 u64
  | Symlinkat bytes path
  | SetXattr path bytes bytes
  | SetPermissions path u16
  | Chown path u32 u32

record xhost =
  x_symlink_metadata :: "host_op list \<Rightarrow> path \<Rightarrow> host_metadata io_result"
  x_result :: "host_op list \<Rightarrow> host_op \<Rightarrow> unit io_result"
  x_euid_root :: bool

datatype extract_error =
    PrefixError
  | SymlinkPrefix path
  | AccessError path io_error
  | EscapesDir path
  | BadInodeMode
  | WireError WireFormatError
  | HostError io_error

type_synonym 'a xresult = "(extract_error, 'a) outcome"

definition runs_privileged :: "xhost \<Rightarrow> bool" where
  "runs_privileged xh = x_euid_root xh"

section \<open>Safe paths\<close>

text \<open>The loop over the components; \<open>level\<close> is an \<open>i32\<close>.\<close>

fun safe_path_loop ::
    "(path \<Rightarrow> host_metadata io_result) \<Rightarrow> path \<Rightarrow> path \<Rightarrow> int \<Rightarrow> component list \<Rightarrow> path xresult" where
  "safe_path_loop symlink_metadata image_path buf level [] = Ok buf"
| "safe_path_loop symlink_metadata image_path buf level (component # comps) =
     (case component of
        Prefix \<Rightarrow> Err PrefixError
      | RootDir \<Rightarrow> safe_path_loop symlink_metadata image_path buf level comps
      | CurDir \<Rightarrow> safe_path_loop symlink_metadata image_path buf level comps
      | Normal c \<Rightarrow>
          (let buf = buf @ [Normal c] in
           if level + 1 \<ge> 2 ^ 31 then Panic ArithOverflow
           else
             (case symlink_metadata buf of
                Ok md \<Rightarrow>
                  if md_file_type md = FtSymlink then Err (SymlinkPrefix buf)
                  else safe_path_loop symlink_metadata image_path buf (level + 1) comps
              | Err e \<Rightarrow> if io_kind e \<noteq> NotFound then Err (AccessError buf e) else Ok buf
              | Panic p \<Rightarrow> Panic p))
      | ParentDir \<Rightarrow>
          (let level = level - 1 in
           if level \<le> 0 then Err (EscapesDir image_path)
           else safe_path_loop symlink_metadata image_path (pop buf) level comps))"

definition safe_path :: "(path \<Rightarrow> host_metadata io_result) \<Rightarrow> path \<Rightarrow> path \<Rightarrow> path xresult" where
  "safe_path symlink_metadata dir image_path = safe_path_loop symlink_metadata image_path dir 1 image_path"

section \<open>Operations in sequence\<close>

type_synonym 'a xact = "host_op list \<times> 'a xresult"

text \<open>One host call followed by \<open>?\<close>.\<close>

definition perform :: "xhost \<Rightarrow> host_op \<Rightarrow> host_op list \<Rightarrow> unit xact" where
  "perform xh x log = (log @ [x], map_err HostError (x_result xh log x))"

text \<open>\<open>for x in &x.xattrs { xattr::set(...)?; }\<close>.\<close>

fun set_xattrs :: "xhost \<Rightarrow> path \<Rightarrow> Xattr list \<Rightarrow> host_op list \<Rightarrow> unit xact" where
  "set_xattrs xh p [] log = (log, Ok ())"
| "set_xattrs xh p (x # xs) log =
     act_then (perform xh (SetXattr p (x_key x) (x_val x)) log) (\<lambda>log _. set_xattrs xh p xs log)"

text \<open>\<open>io::copy\<close> into the created file with a buffer of \<open>n\<close> bytes.\<close>

partial_function (option) copy_file ::
    "xhost \<Rightarrow> 'o env \<Rightarrow> nat \<Rightarrow> path \<Rightarrow> 'o FileReader \<Rightarrow> host_op list \<Rightarrow> unit xact option" where
  "copy_file xh env n p r log =
     (case FileReader_read env r n of
        Err e \<Rightarrow> Some (log, Err (HostError e))
      | Panic q \<Rightarrow> Some (log, Panic q)
      | Ok (out, r') \<Rightarrow>
          (if out = [] then Some (log, Ok ())
           else
             (case perform xh (WriteAll p out) log of
                (log', Ok _) \<Rightarrow> copy_file xh env n p r' log'
              | (log', Err e) \<Rightarrow> Some (log', Err e)
              | (log', Panic q) \<Rightarrow> Some (log', Panic q))))"

text \<open>The \<open>match\<close> on the inode's mode: the file is made.\<close>

definition make_node ::
    "xhost \<Rightarrow> 'o env \<Rightarrow> nat \<Rightarrow> 'o DirEntry \<Rightarrow> path \<Rightarrow> host_op list \<Rightarrow> unit xact option" where
  "make_node xh env n dir_entry p log =
     (case i_mode (wd_inode dir_entry) of
        File chunks \<Rightarrow>
          (case map_err WireError (DirEntry_open dir_entry) of
             Err e \<Rightarrow> Some (log, Err e)
           | Panic q \<Rightarrow> Some (log, Panic q)
           | Ok reader \<Rightarrow>
               (case perform xh (CreateFile p) log of
                  (log', Ok _) \<Rightarrow> copy_file xh env n p reader log'
                | (log', Err e) \<Rightarrow> Some (log', Err e)
                | (log', Panic q) \<Rightarrow> Some (log', Panic q)))
      | Dir dir_list \<Rightarrow> Some (perform xh (CreateDirAll p) log)
      | Fifo \<Rightarrow> Some (perform xh (Mkfifo p) log)
      | Chr major minor \<Rightarrow> Some (perform xh (MknodChr p major minor) log)
      | Blk major minor \<Rightarrow> Some (perform xh (MknodBlk p major minor) log)
      | Lnk \<Rightarrow>
          (case map_err WireError (symlink_target (wd_inode dir_entry)) of
             Ok target \<Rightarrow> Some (perform xh (Symlinkat target p) log)
           | Err e \<Rightarrow> Some (log, Err e)
           | Panic q \<Rightarrow> Some (log, Panic q))
      | Sock \<Rightarrow> Some (log, Panic NotImplemented)
      | Wht \<Rightarrow> Some (log, Panic NotImplemented)
      | Unknown \<Rightarrow> Some (log, Err BadInodeMode))"

text \<open>What follows the \<open>match\<close>: extended attributes, permissions and owner.\<close>

definition set_attributes :: "xhost \<Rightarrow> Inode \<Rightarrow> path \<Rightarrow> host_op list \<Rightarrow> unit xact" where
  "set_attributes xh inode p log =
     act_then (set_xattrs xh p (case i_additional inode of None \<Rightarrow> [] | Some x \<Rightarrow> ia_xattrs x) log) (\<lambda>log _.
     act_then (if i_mode inode \<noteq> Lnk then perform xh (SetPermissions p (i_permissions inode)) log else (log, Ok ()))
       (\<lambda>log _.
     if runs_privileged xh then perform xh (Chown p (i_uid inode) (i_gid inode)) log else (log, Ok ())))"

text \<open>The closure of \<open>try_for_each\<close>; its captured map is passed on.\<close>

definition extract_entry ::
    "xhost \<Rightarrow> 'o env \<Rightarrow> nat \<Rightarrow> path \<Rightarrow> 'o DirEntry \<Rightarrow> (Ino \<rightharpoonup> path) \<Rightarrow> host_op list \<Rightarrow> (Ino \<rightharpoonup> path) xact option" where
  "extract_entry xh env n dir dir_entry host_to_pfs log =
     (case safe_path (x_symlink_metadata xh log) dir (wd_path dir_entry) of
        Err e \<Rightarrow> Some (log, Err e)
      | Panic q \<Rightarrow> Some (log, Panic q)
      | Ok p \<Rightarrow>
          (case host_to_pfs (i_ino (wd_inode dir_entry)) of
             Some existing_path \<Rightarrow>
               Some (act_then (perform xh (HardLink existing_path p) log) (\<lambda>log _. (log, Ok host_to_pfs)))
           | None \<Rightarrow>
               (let host_to_pfs' = host_to_pfs(i_ino (wd_inode dir_entry) \<mapsto> p) in
                map_option (\<lambda>a. act_then a (\<lambda>log _. act_then (set_attributes xh (wd_inode dir_entry) p log)
                    (\<lambda>log _. (log, Ok host_to_pfs'))))
                  (make_node xh env n dir_entry p log))))"

partial_function (option) extract_loop ::
    "xhost \<Rightarrow> 'o env \<Rightarrow> nat \<Rightarrow> path \<Rightarrow> (Ino \<Rightarrow> Inode wire_result) \<Rightarrow> 'o DirEntry list \<Rightarrow> (Ino \<rightharpoonup> path) \<Rightarrow>
     host_op list \<Rightarrow> unit xact option" where
  "extract_loop xh env n dir find_ino q host_to_pfs log =
     (case walk_next find_ino q of
        (q', None) \<Rightarrow> Some (log, Ok ())
      | (q', Some (Err e)) \<Rightarrow> Some (log, Err (WireError e))
      | (q', Some (Panic p)) \<Rightarrow> Some (log, Panic p)
      | (q', Some (Ok de)) \<Rightarrow>
          (case extract_entry xh env n dir de host_to_pfs log of
             None \<Rightarrow> None
           | Some (log', Err e) \<Rightarrow> Some (log', Err e)
           | Some (log', Panic p) \<Rightarrow> Some (log', Panic p)
           | Some (log', Ok host_to_pfs') \<Rightarrow> extract_loop xh env n dir find_ino q' host_to_pfs' log'))"

text \<open>\<open>opened\<close> is the result of \<open>Image::open\<close> on the image directory.\<close>

definition extract_rootfs ::
    "xhost \<Rightarrow> 'o env \<Rightarrow> nat \<Rightarrow> 'o Image wire_result \<Rightarrow> string \<Rightarrow> path \<Rightarrow> unit xact option" where
  "extract_rootfs xh env n opened tag dir =
     (case opened of
        Err e \<Rightarrow> Some ([], Err (WireError e))
      | Panic p \<Rightarrow> Some ([], Panic p)
      | Ok im \<Rightarrow>
          (case act_then (perform xh (CreateDirAll dir) []) (\<lambda>log _.
                (log, map_err WireError (and_then (PuzzleFS_open env im tag None) (\<lambda>pfs.
                   and_then (walk_start (pfs_oci pfs) (PuzzleFS_find_inode pfs)) (\<lambda>q. Ok (pfs, q)))))) of
             (log, Err e) \<Rightarrow> Some (log, Err e)
           | (log, Panic p) \<Rightarrow> Some (log, Panic p)
           | (log, Ok (pfs, q)) \<Rightarrow>
               extract_loop xh env n dir (PuzzleFS_find_inode pfs) q Map.empty log))"

section \<open>Confinement\<close>

text \<open>A path below \<open>dir\<close>, reached by plain names only.\<close>

definition below :: "path \<Rightarrow> path \<Rightarrow> bool" where
  "below dir p \<longleftrightarrow> (\<exists>ns. p = dir @ map Normal ns)"

text \<open>
  Every strict prefix below \<open>dir\<close> exists and is no symbolic link; the path itself is no symbolic link
  or does not exist.
\<close>

definition no_symlink :: "(path \<Rightarrow> host_metadata io_result) \<Rightarrow> path \<Rightarrow> bool" where
  "no_symlink sm p \<longleftrightarrow> (\<exists>md. sm p = Ok md \<and> md_file_type md \<noteq> FtSymlink)"

definition not_found :: "(path \<Rightarrow> host_metadata io_result) \<Rightarrow> path \<Rightarrow> bool" where
  "not_found sm p \<longleftrightarrow> (\<exists>e. sm p = Err e \<and> io_kind e = NotFound)"

definition walked :: "(path \<Rightarrow> host_metadata io_result) \<Rightarrow> path \<Rightarrow> bytes list \<Rightarrow> bool" where
  "walked sm dir ns \<longleftrightarrow> (\<forall>k<length ns. no_symlink sm (dir @ map Normal (take (Suc k) ns)))"

lemma walked_butlast: "walked sm dir ns \<Longrightarrow> walked sm dir (butlast ns)"
  by (auto simp: walked_def butlast_conv_take)

lemma walked_snoc: "walked sm dir ns \<Longrightarrow> no_symlink sm (dir @ map Normal (ns @ [n])) \<Longrightarrow> walked sm dir (ns @ [n])"
  by (auto simp: walked_def less_Suc_eq)

lemma safe_path_loop_confined:
  assumes "safe_path_loop sm ip (dir @ map Normal ns) (int (length ns) + 1) comps = Ok p" and "walked sm dir ns"
  shows "\<exists>ms. p = dir @ map Normal ms \<and>
    (walked sm dir ms \<or> ms \<noteq> [] \<and> walked sm dir (butlast ms) \<and> not_found sm p)"
  using assms
proof (induction comps arbitrary: ns)
  case (Cons c comps)
  show ?case
  proof (cases c)
    case (Normal n)
    let ?buf = "dir @ map Normal (ns @ [n])"
    show ?thesis
    proof (cases "sm ?buf")
      case (Ok md)
      with Cons.prems(1) Normal have "md_file_type md \<noteq> FtSymlink"
        "safe_path_loop sm ip ?buf (int (length (ns @ [n])) + 1) comps = Ok p"
        by (auto simp: Let_def ac_simps split: if_splits)
      with Ok Cons.IH [of "ns @ [n]"] walked_snoc [OF Cons.prems(2)] show ?thesis by (auto simp: no_symlink_def)
    next
      case (Err e)
      with Cons.prems(1) Normal have "p = ?buf" "io_kind e = NotFound" by (auto simp: Let_def split: if_splits)
      with Err Cons.prems(2) show ?thesis by (intro exI [of _ "ns @ [n]"]) (auto simp: not_found_def)
    next
      case (Panic q)
      with Cons.prems(1) Normal show ?thesis by (auto simp: Let_def split: if_splits)
    qed
  next
    case ParentDir
    with Cons.prems(1) have "ns \<noteq> []" by (auto simp: Let_def split: if_splits)
    then obtain ms n where ns: "ns = ms @ [n]" by (cases ns rule: rev_cases) auto
    with Cons.prems(1) ParentDir have "safe_path_loop sm ip (dir @ map Normal ms) (int (length ms) + 1) comps = Ok p"
      by (auto simp: Let_def pop_def ac_simps butlast_append split: if_splits)
    with Cons.IH [of ms] walked_butlast [OF Cons.prems(2)] ns show ?thesis by simp
  qed (use Cons in auto)
qed auto

definition safe_at :: "(path \<Rightarrow> host_metadata io_result) \<Rightarrow> path \<Rightarrow> path \<Rightarrow> bool" where
  "safe_at sm dir p \<longleftrightarrow> (\<exists>ms. p = dir @ map Normal ms \<and>
     (walked sm dir ms \<or> ms \<noteq> [] \<and> walked sm dir (butlast ms) \<and> not_found sm p))"

lemma safe_path_safe: "safe_path sm dir ip = Ok p \<Longrightarrow> safe_at sm dir p"
  using safe_path_loop_confined [of sm ip dir "[]" ip p] by (simp add: safe_path_def walked_def safe_at_def)

lemma safe_at_below: "safe_at sm dir p \<Longrightarrow> below dir p"
  by (auto simp: safe_at_def below_def)

section \<open>The log of an extraction\<close>

fun op_paths :: "host_op \<Rightarrow> path list" where
  "op_paths (CreateDirAll p) = [p]"
| "op_paths (HardLink p q) = [p, q]"
| "op_paths (CreateFile p) = [p]"
| "op_paths (WriteAll p data) = [p]"
| "op_paths (Mkfifo p) = [p]"
| "op_paths (MknodChr p major minor) = [p]"
| "op_paths (MknodBlk p major minor) = [p]"
| "op_paths (Symlinkat target p) = [p]"
| "op_paths (SetXattr p key val) = [p]"
| "op_paths (SetPermissions p mode) = [p]"
| "op_paths (Chown p uid gid) = [p]"

text \<open>The path at which an operation makes something new.\<close>

fun creates :: "host_op \<Rightarrow> path option" where
  "creates (CreateDirAll p) = Some p"
| "creates (HardLink p q) = Some q"
| "creates (CreateFile p) = Some p"
| "creates (Mkfifo p) = Some p"
| "creates (MknodChr p major minor) = Some p"
| "creates (MknodBlk p major minor) = Some p"
| "creates (Symlinkat target p) = Some p"
| "creates x = None"

definition log_ok :: "xhost \<Rightarrow> path \<Rightarrow> host_op list \<Rightarrow> bool" where
  "log_ok xh dir log \<longleftrightarrow>
     (\<forall>x\<in>set log. \<forall>p\<in>set (op_paths x). below dir p) \<and>
     (\<forall>k p. k < length log \<longrightarrow> creates (log ! k) = Some p \<longrightarrow> safe_at (x_symlink_metadata xh (take k log)) dir p)"

lemma log_ok_snoc:
  assumes "log_ok xh dir log" and "\<forall>p\<in>set (op_paths x). below dir p"
    and "\<And>p. creates x = Some p \<Longrightarrow> safe_at (x_symlink_metadata xh log) dir p"
  shows "log_ok xh dir (log @ [x])"
  using assms by (auto simp: log_ok_def less_Suc_eq nth_append)

lemma fst_perform [simp]: "fst (perform xh x log) = log @ [x]"
  by (simp add: perform_def)

lemma log_ok_act_then:
  assumes "log_ok xh dir (fst a)" and "\<And>log x. log_ok xh dir log \<Longrightarrow> log_ok xh dir (fst (f log x))"
  shows "log_ok xh dir (fst (act_then a f))"
  using assms by (cases a; cases "snd a") (auto simp: act_then_def)

lemma set_xattrs_ok:
  "log_ok xh dir log \<Longrightarrow> below dir p \<Longrightarrow> log_ok xh dir (fst (set_xattrs xh p xs log))"
  by (induction xs arbitrary: log) (auto intro!: log_ok_act_then log_ok_snoc)

lemma set_attributes_ok:
  "log_ok xh dir log \<Longrightarrow> below dir p \<Longrightarrow> log_ok xh dir (fst (set_attributes xh i p log))"
  by (auto simp: set_attributes_def intro!: log_ok_act_then set_xattrs_ok log_ok_snoc)

lemma copy_file_ok:
  assumes "copy_file xh env n p r log = Some a" and "log_ok xh dir log" and "below dir p"
  shows "log_ok xh dir (fst a)"
proof -
  have "log_ok xh dir log \<longrightarrow> below dir p \<longrightarrow> log_ok xh dir (fst a)"
    using assms(1)
    apply (rule copy_file.raw_induct [rotated, where
        P = "\<lambda>xh env n p r log a. log_ok xh dir log \<longrightarrow> below dir p \<longrightarrow> log_ok xh dir (fst a)"])
    subgoal premises prems for copy xh env n p r log a
    proof (intro impI)
      assume ok: "log_ok xh dir log" "below dir p"
      have next_ok: "log_ok xh dir (log @ [WriteAll p out])" for out using ok by (intro log_ok_snoc) auto
      show "log_ok xh dir (fst a)"
      proof (cases "FileReader_read env r n")
        case (Ok x)
        obtain out r' where x: "x = (out, r')" by (cases x)
        show ?thesis
          using prems(2) Ok x ok(1) next_ok [of out] prems(1) [rule_format, OF _ next_ok [of out] ok(2)]
          by (cases "x_result xh log (WriteAll p out)") (auto simp: perform_def split: if_splits)
      qed (use prems(2) ok(1) in auto)
    qed
    done
  with assms(2,3) show ?thesis by blast
qed

lemma make_node_ok:
  assumes "make_node xh env n de p log = Some a" and "log_ok xh dir log" and "safe_at (x_symlink_metadata xh log) dir p"
  shows "log_ok xh dir (fst a)"
proof -
  note b = safe_at_below [OF assms(3)]
  have snoc: "log_ok xh dir (log @ [x])" if "op_paths x = [p]" "creates x = Some p" for x
    using assms(2,3) b that by (intro log_ok_snoc) auto
  have copy: "log_ok xh dir (fst a)" if "copy_file xh env n p r (log @ [CreateFile p]) = Some a" for r
    using copy_file_ok [OF that snoc b] by simp
  show ?thesis
    using assms(1,2) snoc copy
    by (cases "i_mode (wd_inode de)")
      (auto simp: make_node_def perform_def split: outcome.splits)
qed

text \<open>The map from inodes to extracted paths stays below the directory as well.\<close>

definition extracted_ok :: "xhost \<Rightarrow> path \<Rightarrow> (Ino \<rightharpoonup> path) xact \<Rightarrow> bool" where
  "extracted_ok xh dir a \<longleftrightarrow> log_ok xh dir (fst a) \<and> (\<forall>m. snd a = Ok m \<longrightarrow> (\<forall>p\<in>ran m. below dir p))"

lemma extract_entry_ok:
  assumes "extract_entry xh env n dir de m log = Some a" and "log_ok xh dir log" and "\<forall>p\<in>ran m. below dir p"
  shows "extracted_ok xh dir a"
proof (cases "safe_path (x_symlink_metadata xh log) dir (wd_path de)")
  case (Ok p)
  note safe = safe_path_safe [OF Ok] and b = safe_at_below [OF safe_path_safe [OF Ok]]
  show ?thesis
  proof (cases "m (i_ino (wd_inode de))")
    case None
    with assms(1) Ok obtain a0 where a0: "make_node xh env n de p log = Some a0"
      and a: "a = act_then a0 (\<lambda>log _. act_then (set_attributes xh (wd_inode de) p log)
        (\<lambda>log _. (log, Ok (m(i_ino (wd_inode de) \<mapsto> p)))))"
      by (auto simp: extract_entry_def)
    have "log_ok xh dir (fst a)"
      unfolding a by (intro log_ok_act_then make_node_ok [OF a0 assms(2) safe] set_attributes_ok b) simp_all
    moreover have "\<forall>p'\<in>ran (m(i_ino (wd_inode de) \<mapsto> p)). below dir p'"
      using assms(3) b by (auto simp: ran_def)
    moreover have "m' = m(i_ino (wd_inode de) \<mapsto> p)" if "snd a = Ok m'" for m'
    proof -
      have "a = (fst a, Ok m')" using that by (metis prod.collapse)
      then show ?thesis unfolding a by (auto elim!: act_then_cases)
    qed
    ultimately show ?thesis by (auto simp: extracted_ok_def)
  next
    case (Some old)
    then have "below dir old" using assms(3) by (auto intro: ranI)
    with safe b assms(2) have "log_ok xh dir (log @ [HardLink old p])" by (intro log_ok_snoc) auto
    with Some Ok assms show ?thesis
      by (cases "x_result xh log (HardLink old p)")
        (auto simp: extract_entry_def extracted_ok_def act_then_def perform_def)
  qed
qed (use assms in \<open>auto simp: extract_entry_def extracted_ok_def\<close>)

lemma extract_loop_ok:
  assumes "extract_loop xh env n dir find_ino q m log = Some a" and "log_ok xh dir log" and "\<forall>p\<in>ran m. below dir p"
  shows "log_ok xh dir (fst a)"
proof -
  have "log_ok xh dir log \<longrightarrow> (\<forall>p\<in>ran m. below dir p) \<longrightarrow> log_ok xh dir (fst a)"
    using assms(1)
    apply (rule extract_loop.raw_induct [rotated, where P = "\<lambda>xh env n dir find_ino q m log a.
        log_ok xh dir log \<longrightarrow> (\<forall>p\<in>ran m. below dir p) \<longrightarrow> log_ok xh dir (fst a)"])
    subgoal premises prems for loop xh env n dir find_ino q m log a
    proof (intro impI)
      assume ok: "log_ok xh dir log" "\<forall>p\<in>ran m. below dir p"
      obtain q' r where w: "walk_next find_ino q = (q', r)" by (cases "walk_next find_ino q")
      consider de where "r = Some (Ok de)" | "\<not> (\<exists>de. r = Some (Ok de))" by blast
      then show "log_ok xh dir (fst a)"
      proof cases
        case 1
        with prems(2) w obtain b where b: "extract_entry xh env n dir de m log = Some b"
          by (auto split: option.splits)
        note ok' = extract_entry_ok [OF b ok]
        show ?thesis
          using prems(2) w 1 b ok' prems(1) [rule_format]
          by (cases b; cases "snd b") (auto simp: extracted_ok_def)
      next
        case 2
        with prems(2) w ok(1) show ?thesis by (auto split: option.splits outcome.splits)
      qed
    qed
    done
  with assms(2,3) show ?thesis by blast
qed

lemma extract_rootfs_ok:
  assumes "extract_rootfs xh env n opened tag dir = Some a"
  shows "log_ok xh dir (fst a)"
proof -
  have "log_ok xh dir []" by (simp add: log_ok_def)
  moreover have "below dir dir" by (auto simp: below_def intro: exI [of _ "[]"])
  moreover have "safe_at sm dir dir" for sm by (auto simp: safe_at_def walked_def intro: exI [of _ "[]"])
  ultimately have "log_ok xh dir [CreateDirAll dir]" using log_ok_snoc [of xh dir "[]" "CreateDirAll dir"] by simp
  with assms \<open>log_ok xh dir []\<close> show ?thesis
    by (auto simp: extract_rootfs_def act_then_def perform_def split: outcome.splits prod.splits
        dest: extract_loop_ok)
qed

end
