(* ===== verification/Extract_Tree.thy ===== *)
theory Extract_Tree
  imports Extractor
begin

text \<open>
  What an extraction does on a host that co-operates: the target directory is empty at the start and
  every operation succeeds. The log is then exactly the expected one, entry by entry in the order of
  the walk.
\<close>

section \<open>The expected operations\<close>

function pieces :: "nat \<Rightarrow> bytes \<Rightarrow> bytes list" where
  "pieces n bs = (if bs = [] \<or> n = 0 then [] else take n bs # pieces n (drop n bs))"
  by pat_completeness auto
termination by (relation "measure (length \<circ> snd)") auto

declare pieces.simps [simp del]

lemma concat_pieces: "0 < n \<Longrightarrow> concat (pieces n bs) = bs"
  by (induction n bs rule: pieces.induct) (subst pieces.simps, auto)

definition node_ops :: "nat \<Rightarrow> (BlobRef \<Rightarrow> bytes option) \<Rightarrow> Inode \<Rightarrow> path \<Rightarrow> host_op list" where
  "node_ops n cd i p =
     (case i_mode i of
        File chunks \<Rightarrow> CreateFile p # map (WriteAll p) (pieces n (file_bytes cd chunks))
      | Dir dl \<Rightarrow> [CreateDirAll p]
      | Fifo \<Rightarrow> [Mkfifo p]
      | Chr major minor \<Rightarrow> [MknodChr p major minor]
      | Blk major minor \<Rightarrow> [MknodBlk p major minor]
      | Lnk \<Rightarrow> (case symlink_target i of Ok t \<Rightarrow> [Symlinkat t p] | _ \<Rightarrow> [])
      | _ \<Rightarrow> [])"

definition attr_ops :: "bool \<Rightarrow> Inode \<Rightarrow> path \<Rightarrow> host_op list" where
  "attr_ops privileged i p =
     map (\<lambda>x. SetXattr p (x_key x) (x_val x)) (case i_additional i of None \<Rightarrow> [] | Some a \<Rightarrow> ia_xattrs a) @
     (if i_mode i \<noteq> Lnk then [SetPermissions p (i_permissions i)] else []) @
     (if privileged then [Chown p (i_uid i) (i_gid i)] else [])"

text \<open>The host path of an image path.\<close>

definition target :: "path \<Rightarrow> 'o DirEntry \<Rightarrow> path" where
  "target dir de = dir @ tl (wd_path de)"

fun expected_ops ::
    "bool \<Rightarrow> nat \<Rightarrow> (BlobRef \<Rightarrow> bytes option) \<Rightarrow> path \<Rightarrow> (Ino \<rightharpoonup> path) \<Rightarrow> 'o DirEntry list \<Rightarrow> host_op list" where
  "expected_ops privileged n cd dir m [] = []"
| "expected_ops privileged n cd dir m (de # des) =
     (case m (i_ino (wd_inode de)) of
        Some old \<Rightarrow> HardLink old (target dir de) # expected_ops privileged n cd dir m des
      | None \<Rightarrow>
          node_ops n cd (wd_inode de) (target dir de) @ attr_ops privileged (wd_inode de) (target dir de) @
          expected_ops privileged n cd dir (m(i_ino (wd_inode de) \<mapsto> target dir de)) des)"

section \<open>Single entries\<close>

definition willing :: "xhost \<Rightarrow> bool" where
  "willing xh \<longleftrightarrow> (\<forall>log x. x_result xh log x = Ok ())"

definition extractable :: "(BlobRef \<Rightarrow> bytes option) \<Rightarrow> Inode \<Rightarrow> bool" where
  "extractable cd i \<longleftrightarrow>
     (case i_mode i of
        File chunks \<Rightarrow> chunks_readable cd chunks \<and> chunks_total chunks < 2 ^ 63
      | Lnk \<Rightarrow> \<exists>t. symlink_target i = Ok t
      | Sock \<Rightarrow> False | Wht \<Rightarrow> False | Unknown \<Rightarrow> False | _ \<Rightarrow> True)"

lemma perform_willing: "willing xh \<Longrightarrow> perform xh x log = (log @ [x], Ok ())"
  by (simp add: willing_def perform_def)

lemma set_xattrs_willing:
  "willing xh \<Longrightarrow> set_xattrs xh p xs log = (log @ map (\<lambda>x. SetXattr p (x_key x) (x_val x)) xs, Ok ())"
  by (induction xs arbitrary: log) (auto simp: perform_willing act_then_def)

lemma set_attributes_willing:
  "willing xh \<Longrightarrow> set_attributes xh i p log = (log @ attr_ops (runs_privileged xh) i p, Ok ())"
  by (simp add: set_attributes_def set_xattrs_willing act_then_def perform_willing attr_ops_def)

lemma copy_file_willing:
  assumes "willing xh" and "0 < n" and "reader_at env r chunks"
  shows "copy_file xh env n p r log = Some (log @ map (WriteAll p) (pieces n (reader_rest env r chunks)), Ok ())"
  using assms(3)
proof (induction "length (reader_rest env r chunks)" arbitrary: r log rule: less_induct)
  case less
  from FileReader_read_spec [OF less.prems, of n] obtain r' where
    r': "FileReader_read env r n = Ok (take n (reader_rest env r chunks), r')" "reader_at env r' chunks"
    "reader_rest env r' chunks = drop n (reader_rest env r chunks)" by blast
  show ?case
  proof (cases "reader_rest env r chunks = []")
    case True
    with r'(1) show ?thesis by (subst copy_file.simps) (simp add: pieces.simps)
  next
    case False
    with r' less.hyps [OF _ r'(2), of "log @ [WriteAll p (take n (reader_rest env r chunks))]"] assms(2)
    show ?thesis
      by (subst copy_file.simps) (simp add: perform_willing [OF assms(1)] pieces.simps [of n "reader_rest env r chunks"])
  qed
qed

lemma make_node_willing:
  assumes "willing xh" and "0 < n" and "extractable (image_chunk_data (env, wd_oci de, None)) (wd_inode de)"
  shows "make_node xh env n de p log =
    Some (log @ node_ops n (image_chunk_data (env, wd_oci de, None)) (wd_inode de) p, Ok ())"
proof (cases "i_mode (wd_inode de)")
  case (File chunks)
  with assms(3) have c: "chunks_readable (image_chunk_data (env, wd_oci de, None)) chunks" "chunks_total chunks < 2 ^ 63"
    by (simp_all add: extractable_def)
  then have "chunks_total chunks < 2 ^ 64" by simp
  with File file_len_File obtain len where len: "file_len (wd_inode de) = Ok len" "unat len = chunks_total chunks"
    by blast
  let ?r = "\<lparr>fr_oci = wd_oci de, fr_inode = wd_inode de, fr_offset = 0, fr_len = unat len\<rparr>"
  have "reader_at env ?r chunks" using File c len by (simp add: reader_at_def)
  from copy_file_willing [OF assms(1,2) this] len(1) File show ?thesis
    by (simp add: make_node_def DirEntry_open_def FileReader_new_def perform_willing [OF assms(1)] node_ops_def
        reader_rest_def)
qed (use assms in \<open>auto simp: make_node_def node_ops_def perform_willing extractable_def\<close>)

definition entry_ops ::
    "bool \<Rightarrow> nat \<Rightarrow> (BlobRef \<Rightarrow> bytes option) \<Rightarrow> path \<Rightarrow> (Ino \<rightharpoonup> path) \<Rightarrow> 'o DirEntry \<Rightarrow> host_op list" where
  "entry_ops privileged n cd dir m de = expected_ops privileged n cd dir m [de]"

definition entry_map :: "path \<Rightarrow> (Ino \<rightharpoonup> path) \<Rightarrow> 'o DirEntry \<Rightarrow> (Ino \<rightharpoonup> path)" where
  "entry_map dir m de = (if m (i_ino (wd_inode de)) = None then m(i_ino (wd_inode de) \<mapsto> target dir de) else m)"

lemma expected_ops_Cons:
  "expected_ops privileged n cd dir m (de # des) =
     entry_ops privileged n cd dir m de @ expected_ops privileged n cd dir (entry_map dir m de) des"
  by (cases "m (i_ino (wd_inode de))") (simp_all add: entry_ops_def entry_map_def)

lemma expected_ops_append:
  "expected_ops privileged n cd dir m (xs @ ys) =
     expected_ops privileged n cd dir m xs @ expected_ops privileged n cd dir (foldl (entry_map dir) m xs) ys"
  by (induction xs arbitrary: m) (simp_all add: expected_ops_Cons del: expected_ops.simps(2))

lemma extract_entry_willing:
  assumes "willing xh" and "0 < n" and "extractable (image_chunk_data (env, wd_oci de, None)) (wd_inode de)"
    and "safe_path (x_symlink_metadata xh log) dir (wd_path de) = Ok (target dir de)"
  shows "extract_entry xh env n dir de m log =
    Some (log @ entry_ops (runs_privileged xh) n (image_chunk_data (env, wd_oci de, None)) dir m de,
      Ok (entry_map dir m de))"
  using assms(4) make_node_willing [OF assms(1-3)]
  by (cases "m (i_ino (wd_inode de))")
    (simp_all add: extract_entry_def entry_ops_def entry_map_def act_then_def perform_willing [OF assms(1)]
      set_attributes_willing [OF assms(1)])

section \<open>Paths during the extraction\<close>

lemma safe_path_loop_walk:
  assumes "walked sm dir (pre @ rest)" and "not_found sm (dir @ map Normal (pre @ rest @ [n]))"
    and "length (pre @ rest) + 2 < 2 ^ 31"
  shows "safe_path_loop sm ip (dir @ map Normal pre) (int (length pre) + 1) (map Normal (rest @ [n])) =
    Ok (dir @ map Normal (pre @ rest @ [n]))"
  using assms
proof (induction rest arbitrary: pre)
  case Nil
  then show ?case by (auto simp: not_found_def)
next
  case (Cons r rest)
  from Cons.prems(1) have "no_symlink sm (dir @ map Normal (pre @ [r]))"
    unfolding walked_def by (metis append_Cons append_Nil append_assoc append_eq_conv_conj length_append_singleton
        length_append less_add_Suc1 list.size(4) add_Suc_right)
  then obtain md where md: "sm (dir @ map Normal (pre @ [r])) = Ok md" "md_file_type md \<noteq> FtSymlink"
    by (auto simp: no_symlink_def)
  with Cons.IH [of "pre @ [r]"] Cons.prems show ?case by (auto simp: Let_def ac_simps)
qed

lemma safe_path_walk:
  assumes "walked sm dir ns" and "not_found sm (dir @ map Normal (ns @ [n]))" and "length ns + 2 < 2 ^ 31"
  shows "safe_path sm dir (abs_path (ns @ [n])) = Ok (dir @ map Normal (ns @ [n]))"
  using safe_path_loop_walk [of sm dir "[]" ns n] assms by (simp add: safe_path_def abs_path_def)

lemma abs_path_inject [simp]: "abs_path a = abs_path b \<longleftrightarrow> a = b"
  by (simp add: abs_path_def inj_map_eq_map inj_def)

lemma target_abs_path: "wd_path de = abs_path names \<Longrightarrow> target dir de = dir @ map Normal names"
  by (simp add: target_def abs_path_def)

lemma path_to_prefix_dir:
  assumes "path_to view (a @ c # b) i"
  shows "\<exists>d dl. path_to view a d \<and> i_mode d = Dir dl"
  using assms
proof (induction b arbitrary: i rule: rev_induct)
  case Nil
  then have "path_to view (a @ [c]) i" by simp
  then obtain d e where "path_to view a d" "entry_named d c = Some e" by (auto elim: path_to_snocE)
  then show ?case by (cases "i_mode d") (auto simp: entry_named_def)
next
  case (snoc x b)
  then have "path_to view ((a @ c # b) @ [x]) i" by simp
  then obtain d where "path_to view (a @ c # b) d" by (rule path_to_snocE) auto
  with snoc.IH show ?case by blast
qed

lemma prefix_seen:
  assumes "once_inv (seen, q)" and "y \<in> set (seen @ q)" and "wd_path y = abs_path (a @ b)" and "b \<noteq> []"
  shows "\<exists>x\<in>set seen. wd_path x = abs_path a"
  using assms(2-4)
proof (induction b arbitrary: y rule: rev_induct)
  case (snoc c b)
  have "wd_path y \<noteq> abs_path []" using snoc.prems(2) by simp
  with assms(1) snoc.prems(1) obtain x where x: "x \<in> set seen" "butlast (wd_path y) = wd_path x"
    unfolding once_inv_def by blast
  then have "wd_path x = abs_path (a @ b)" using snoc.prems(2) by (simp add: abs_path_def butlast_append)
  with snoc.IH [of x] x(1) show ?case by (cases "b = []") auto
qed simp

lemma expected_creates:
  assumes "x \<in> set (expected_ops pr n cd dir m xs)" and "creates x = Some p"
  shows "\<exists>de\<in>set xs. p = target dir de"
  using assms
proof (induction xs arbitrary: m)
  case (Cons de xs)
  have "p = target dir de" if "x \<in> set (entry_ops pr n cd dir m de)"
    using that Cons.prems(2)
    by (auto simp: entry_ops_def node_ops_def attr_ops_def split: option.splits InodeMode.splits outcome.splits if_splits)
  with Cons show ?case by (auto simp: expected_ops_Cons simp del: expected_ops.simps(2))
qed simp

lemma dom_entry_maps: "dom (foldl (entry_map dir) m xs) = dom m \<union> (\<lambda>x. i_ino (wd_inode x)) ` set xs"
  by (induction xs arbitrary: m) (auto simp: entry_map_def)

text \<open>Directories have one path, and no path is too long for the level counter.\<close>

definition dirs_once :: "(Ino \<Rightarrow> Inode option) \<Rightarrow> bool" where
  "dirs_once view \<longleftrightarrow> (\<forall>a b i dl. path_to view a i \<longrightarrow> path_to view b i \<longrightarrow> i_mode i = Dir dl \<longrightarrow> a = b)"

definition shallow :: "(Ino \<Rightarrow> Inode option) \<Rightarrow> bool" where
  "shallow view \<longleftrightarrow> (\<forall>a i. path_to view a i \<longrightarrow> length a + 1 < 2 ^ 31)"

text \<open>The host: nothing is below the directory but what the extraction has made.\<close>

definition starts_empty :: "xhost \<Rightarrow> path \<Rightarrow> bool" where
  "starts_empty xh dir \<longleftrightarrow> (\<forall>log p.
     (below dir p \<and> p \<noteq> dir \<and> (\<forall>x\<in>set log. creates x \<noteq> Some p) \<longrightarrow> not_found (x_symlink_metadata xh log) p) \<and>
     (CreateDirAll p \<in> set log \<longrightarrow> no_symlink (x_symlink_metadata xh log) p))"

section \<open>The whole tree\<close>

lemma walk_invE:
  assumes "walk_inv view oci (seen, q)" and "x \<in> set (seen @ q)"
  obtains names where "wd_oci x = oci" "wd_path x = abs_path names" "path_to view names (wd_inode x)"
  using assms unfolding walk_inv_def prod.case by blast

lemma dir_created:
  assumes once: "once_inv (seen, q)" and inv: "walk_inv view oci (seen, q)" and "dirs_once view"
    and numbered: "\<forall>ino i. view ino = Some i \<longrightarrow> i_ino i = ino"
    and x: "x \<in> set seen" "i_mode (wd_inode x) = Dir dl"
  shows "CreateDirAll (target dir x) \<in> set (expected_ops pr n cd dir Map.empty seen)"
proof -
  from x(1) obtain us vs where seen: "seen = us @ x # vs" by (meson split_list)
  define m where "m = foldl (entry_map dir) Map.empty us"
  have "m (i_ino (wd_inode x)) = None"
  proof (rule ccontr)
    assume "m (i_ino (wd_inode x)) \<noteq> None"
    then have "i_ino (wd_inode x) \<in> dom m" by blast
    then obtain y where y: "y \<in> set us" "i_ino (wd_inode y) = i_ino (wd_inode x)" by (auto simp: m_def dom_entry_maps)
    obtain a where a: "wd_path x = abs_path a" "path_to view a (wd_inode x)"
      using walk_invE [OF inv, of x] x(1) by auto
    obtain b where b: "wd_path y = abs_path b" "path_to view b (wd_inode y)"
      using walk_invE [OF inv, of y] y(1) seen by auto
    have "wd_inode y = wd_inode x"
      using path_to_view [OF a(2)] path_to_view [OF b(2)] numbered y(2) by (metis option.inject)
    with a b x(2) assms(3) have "a = b" unfolding dirs_once_def by metis
    with a(1) b(1) have "wd_path y = wd_path x" by simp
    with imageI [OF y(1), of wd_path] have "wd_path x \<in> wd_path ` set us" by simp
    with once show False by (simp add: once_inv_def seen)
  qed
  then have "CreateDirAll (target dir x) \<in> set (entry_ops pr n cd dir m x)"
    using x(2) by (simp add: entry_ops_def node_ops_def)
  then show ?thesis
    unfolding seen expected_ops_append expected_ops_Cons by (simp add: m_def del: expected_ops.simps(2))
qed

lemma safe_path_tree:
  assumes once: "once_inv (seen, de # q)" and inv: "walk_inv view oci (seen, de # q)" and tree: "dirs_once view" "shallow view"
    and numbered: "\<forall>ino i. view ino = Some i \<longrightarrow> i_ino i = ino" and host: "starts_empty xh dir"
    and log: "log = CreateDirAll dir # expected_ops pr n cd dir Map.empty seen"
  shows "safe_path (x_symlink_metadata xh log) dir (wd_path de) = Ok (target dir de)"
proof -
  let ?sm = "x_symlink_metadata xh log"
  obtain names where names: "wd_path de = abs_path names" "path_to view names (wd_inode de)"
    using walk_invE [OF inv, of de] by auto
  show ?thesis
  proof (cases names rule: rev_cases)
    case Nil
    with names(1) show ?thesis by (simp add: safe_path_def abs_path_def target_def)
  next
    case (snoc ns nm)
    have "walked ?sm dir ns"
      unfolding walked_def
    proof (intro allI impI)
      fix k
      assume k: "k < length ns"
      let ?a = "take (Suc k) ns"
      obtain b c where bc: "names = ?a @ c # b"
        using snoc by (cases "drop (Suc k) ns @ [nm]") (auto, metis append_take_drop_id append_assoc)
      from path_to_prefix_dir [of view ?a c b "wd_inode de"] names(2) bc obtain d dl where
        d: "path_to view ?a d" "i_mode d = Dir dl" by auto
      from prefix_seen [OF once, of de ?a "c # b"] names(1) bc obtain x where x: "x \<in> set seen" "wd_path x = abs_path ?a"
        by auto
      from walk_invE [OF inv, of x] x(1) obtain e where "wd_path x = abs_path e" "path_to view e (wd_inode x)" by auto
      with x(2) have "wd_inode x = d" using path_to_fun [OF d(1)] by simp
      with dir_created [OF once inv tree(1) numbered x(1)] d(2)
      have "CreateDirAll (target dir x) \<in> set log" by (simp add: log)
      then show "no_symlink ?sm (dir @ map Normal ?a)"
        using host target_abs_path [OF x(2)] by (simp add: starts_empty_def)
    qed
    moreover have "not_found ?sm (dir @ map Normal (ns @ [nm]))"
    proof -
      have "creates x \<noteq> Some (dir @ map Normal (ns @ [nm]))" if "x \<in> set log" for x
      proof
        assume c: "creates x = Some (dir @ map Normal (ns @ [nm]))"
        with that have "x \<in> set (expected_ops pr n cd dir Map.empty seen)" by (auto simp: log)
        from expected_creates [OF this c] obtain y where y: "y \<in> set seen" "dir @ map Normal (ns @ [nm]) = target dir y" by blast
        obtain b where b: "wd_path y = abs_path b" using walk_invE [OF inv, of y] y(1) by auto
        with y(2) have "map Normal (ns @ [nm]) = map Normal b" by (simp add: target_abs_path)
        then have "b = ns @ [nm]" by (metis inj_map_eq_map component.inject injI)
        with b names(1) snoc imageI [OF y(1), of wd_path] have "wd_path de \<in> wd_path ` set seen" by simp
        with once show False by (simp add: once_inv_def)
      qed
      moreover have "below dir (dir @ map Normal (ns @ [nm]))" unfolding below_def by blast
      moreover have "dir @ map Normal (ns @ [nm]) \<noteq> dir" by simp
      ultimately show ?thesis using host unfolding starts_empty_def by blast
    qed
    moreover have "length ns + 2 < 2 ^ 31" using tree(2) names(2) snoc by (force simp: shallow_def)
    ultimately show ?thesis using safe_path_walk [of ?sm dir ns nm] names(1) snoc by (simp add: target_abs_path)
  qed
qed

context inode_store
begin

lemma extract_loop_tree:
  assumes "valid s" and tree: "tree_view (view s) rank" "dirs_once (view s)" "shallow (view s)"
    and files: "\<forall>names i. path_to (view s) names i \<longrightarrow> extractable (image_chunk_data (env, oci, None)) i"
    and host: "willing xh" "starts_empty xh dir" "0 < n" and "walk_reachable (view s) oci (seen, q)"
  defines "ops \<equiv> expected_ops (runs_privileged xh) n (image_chunk_data (env, oci, None)) dir Map.empty"
  shows "\<exists>res. walk_all (find s) seen q = Some (Ok res) \<and>
    extract_loop xh env n dir (find s) q (foldl (entry_map dir) Map.empty seen) (CreateDirAll dir # ops seen) =
      Some (CreateDirAll dir # ops res, Ok ())"
  using assms(9)
proof (induction "q_ranks rank q" arbitrary: seen q rule: wf_induct_rule [OF wf_mult [OF wf_less_than]])
  case less: 1
  show ?case
  proof (cases q)
    case Nil
    have "walk_all (find s) seen [] = Some (Ok seen)" by (subst walk_all.simps) simp
    then show ?thesis unfolding Nil by (subst extract_loop.simps) simp
  next
    case (Cons de q')
    let ?m = "foldl (entry_map dir) Map.empty seen" and ?log = "CreateDirAll dir # ops seen"
    from walk_reachable_inv [OF tree(1) less.prems] Cons have inv: "walk_inv (view s) oci (seen, de # q')" by simp
    have once: "once_inv (seen, de # q')" using walk_reachable_once [OF tree(1) less.prems] Cons by simp
    from walk_invE [OF inv, of de] obtain names where de: "wd_oci de = oci" "path_to (view s) names (wd_inode de)" by auto
    have res: "\<forall>e\<in>set (dir_ents (wd_inode de)). view s (de_ino e) \<noteq> None"
      using tree_viewD(3) [OF tree(1) de(2)] by blast
    have safe: "safe_path (x_symlink_metadata xh ?log) dir (wd_path de) = Ok (target dir de)"
      by (rule safe_path_tree [OF once inv tree(2,3) _ host(2)]) (use view_ino [OF assms(1)] in \<open>auto simp: ops_def\<close>)
    have ex: "extractable (image_chunk_data (env, wd_oci de, None)) (wd_inode de)" using files de by blast
    let ?q = "q' @ children (view s) de"
    have reach: "walk_reachable (view s) oci (seen @ [de], ?q)"
      using less.prems walk_step.visit [OF res] unfolding Cons by (rule walk_reachable.step)
    have "ops (seen @ [de]) = ops seen @ entry_ops (runs_privileged xh) n (image_chunk_data (env, oci, None)) dir ?m de"
      by (simp only: ops_def expected_ops_append entry_ops_def)
    with extract_entry_willing [OF host(1,3) ex safe, of ?m] de(1)
    have "extract_entry xh env n dir de ?m ?log =
        Some (CreateDirAll dir # ops (seen @ [de]), Ok (foldl (entry_map dir) Map.empty (seen @ [de])))" by simp
    then have "extract_loop xh env n dir (find s) (de # q') ?m ?log =
        extract_loop xh env n dir (find s) ?q (foldl (entry_map dir) Map.empty (seen @ [de])) (CreateDirAll dir # ops (seen @ [de]))"
      using walk_next_Ok [OF assms(1) res, of q'] by (subst extract_loop.simps) simp
    with q_ranks_decrease [OF assms(1) tree(1) de(2), of q'] less.hyps [of ?q "seen @ [de]"] reach
    show ?thesis unfolding Cons walk_all_step [OF assms(1) res] by auto
  qed
qed

end

text \<open>The operation itself, for the reader of an opened image.\<close>

lemma extract_rootfs_tree:
  assumes "PuzzleFS_open env im tag None = Ok pfs" and "wf_pfs pfs" and "tree_view (pfs_view pfs) rank"
    and "dirs_once (pfs_view pfs)" and "shallow (pfs_view pfs)"
    and "\<forall>names i. path_to (pfs_view pfs) names i \<longrightarrow> extractable (image_chunk_data (env, pfs_oci pfs, None)) i"
    and "willing xh" and "starts_empty xh dir" and "0 < n"
  shows "\<exists>res. walk pfs = Some (Ok res) \<and>
    extract_rootfs xh env n (Ok im) tag dir =
      Some (CreateDirAll dir # expected_ops (runs_privileged xh) n (image_chunk_data (env, pfs_oci pfs, None)) dir
        Map.empty res, Ok ())"
proof -
  from assms(3) obtain i where i: "pfs_view pfs 1 = Some i" by (auto simp: tree_view_def)
  then have start: "walk_reachable (pfs_view pfs) (pfs_oci pfs) ([], [root_entry (pfs_oci pfs) i])"
    by (rule walk_reachable.start)
  have ws: "walk_start (pfs_oci pfs) (PuzzleFS_find_inode pfs) = Ok [root_entry (pfs_oci pfs) i]"
    using i assms(2) by (simp add: walk_start_def pfs.find_view)
  from pfs.extract_loop_tree [OF assms(2-9) start] assms(1) ws show ?thesis
    by (simp add: walk_def extract_rootfs_def perform_willing [OF assms(7)] act_then_def)
qed

end
