(* ===== verification/Extractor_Properties.thy ===== *)
theory Extractor_Properties
  imports Extract_Tree Reader_Properties
begin

text \<open>
  Properties of the extractor: no image makes it write outside the target directory, and a
  well-formed image is extracted completely.
\<close>

section \<open>Confinement\<close>

definition dir_md :: host_metadata where
  "dir_md = \<lparr>md_ino = 1, md_file_type = FtDir, md_len = 0, md_mode = 0, md_uid = 0, md_gid = 0, md_rdev = 0\<rparr>"

definition link_md :: host_metadata where
  "link_md = dir_md\<lparr>md_file_type := FtSymlink\<rparr>"

text \<open>A host whose target directory is empty at the start and on which every operation succeeds.\<close>

definition sample_xhost :: xhost where
  "sample_xhost =
     \<lparr>x_symlink_metadata = (\<lambda>log p.
        if CreateDirAll p \<in> set log then Ok dir_md
        else if \<exists>x\<in>set log. creates x = Some p then Ok link_md
        else Err (OsError (errno_code ENOENT))),
      x_result = (\<lambda>log x. Ok ()), x_euid_root = True\<rparr>"

definition out_dir :: path where
  "out_dir = [RootDir, Normal [111]]"

text \<open>
  \<open>safe_path\<close> never leaves the target directory: whatever components the image path has, \<open>..\<close>
  included, a returned path consists of the target directory followed by plain names; each directory
  on the way exists and is not a symbolic link, and the last component is not a symbolic link either,
  or does not exist.
\<close>

lemma safe_path_stays_inside:
  assumes "safe_path sm dir image_path = Ok p"
  shows "\<exists>ms. p = dir @ map Normal ms \<and>
    (\<forall>k<length ms. no_symlink sm (dir @ map Normal (take (Suc k) ms)) \<or> Suc k = length ms \<and> not_found sm p)"
proof -
  from safe_path_safe [OF assms] obtain ms where p: "p = dir @ map Normal ms"
    and ms: "walked sm dir ms \<or> ms \<noteq> [] \<and> walked sm dir (butlast ms) \<and> not_found sm p"
    by (auto simp: safe_at_def)
  have "no_symlink sm (dir @ map Normal (take (Suc k) ms)) \<or> Suc k = length ms \<and> not_found sm p" if "k < length ms" for k
  proof (cases "walked sm dir ms")
    case True
    with that show ?thesis by (simp add: walked_def)
  next
    case False
    with ms have w: "walked sm dir (butlast ms)" "not_found sm p" by simp_all
    show ?thesis
    proof (cases "Suc k = length ms")
      case False
      with that have "k < length (butlast ms)" "take (Suc k) (butlast ms) = take (Suc k) ms" by (auto simp: take_butlast)
      with w(1) show ?thesis unfolding walked_def by metis
    qed (simp add: w(2))
  qed
  with p show ?thesis by blast
qed

lemma safe_path_stays_inside_sample:
  "\<exists>ms. out_dir @ [Normal [98]] = out_dir @ map Normal ms \<and>
    (\<forall>k<length ms. no_symlink (x_symlink_metadata sample_xhost [CreateDirAll (out_dir @ [Normal [97]])])
        (out_dir @ map Normal (take (Suc k) ms)) \<or>
      Suc k = length ms \<and> not_found (x_symlink_metadata sample_xhost [CreateDirAll (out_dir @ [Normal [97]])])
        (out_dir @ [Normal [98]]))"
  by (rule safe_path_stays_inside [of _ _ "[RootDir, Normal [97], ParentDir, Normal [98]]"])
    (simp add: safe_path_def sample_xhost_def dir_md_def out_dir_def Let_def pop_def)

text \<open>
  C9: Confinement of a whole extraction, for every image, malicious ones included, and every behaviour of
  the host: each operation the extractor performs, also before an error or a panic, names paths below
  the target directory only, and whenever it creates something, the path was at that moment free of
  symbolic links. (What a call does with a path that has become a symbolic link is the host's
  affair: \<open>chown\<close> follows it.)
\<close>

theorem extract_confined:
  assumes "extract_rootfs xh env n opened tag dir = Some (log, r)"
  shows "(\<forall>x\<in>set log. \<forall>p\<in>set (op_paths x). below dir p) \<and>
    (\<forall>k p. k < length log \<and> creates (log ! k) = Some p \<longrightarrow> safe_at (x_symlink_metadata xh (take k log)) dir p)"
  using extract_rootfs_ok [OF assms] by (simp add: log_ok_def)

section \<open>A complete extraction\<close>

text \<open>
  C10: A well-formed image is extracted completely: on a host where nothing fails and the target is empty,
  the extraction terminates successfully and performs, for each path of the image in the order of the
  walk, exactly the operations that make the file, write its bytes, and set its extended attributes,
  permissions (except on symbolic links) and, as root, owner; the second and later paths of an inode
  become hard links to the first.
\<close>

theorem extract_writes_tree:
  assumes "PuzzleFS_open env im tag None = Ok pfs" and "wf_pfs pfs" and "tree_view (pfs_view pfs) rank"
    and "dirs_once (pfs_view pfs)" and "shallow (pfs_view pfs)"
    and "\<forall>names i. path_to (pfs_view pfs) names i \<longrightarrow> extractable (image_chunk_data (env, pfs_oci pfs, None)) i"
    and "willing xh" and "starts_empty xh dir" and "0 < n"
  shows "\<exists>res. walk pfs = Some (Ok res) \<and>
    extract_rootfs xh env n (Ok im) tag dir =
      Some (CreateDirAll dir # expected_ops (runs_privileged xh) n (image_chunk_data (env, pfs_oci pfs, None)) dir
        Map.empty res, Ok ())"
  using extract_rootfs_tree [OF assms] .

definition extract_store :: "unit Image" where
  "extract_store =
     \<lparr>im_blobs = [base16_encode (pad32 [5]) \<mapsto> \<lparr>bf_data = [5], bf_verity = False\<rparr>,
        base16_encode (pad32 sample_blob) \<mapsto> \<lparr>bf_data = sample_blob, bf_verity = False\<rparr>], im_oci = ()\<rparr>"

definition extract_pfs :: "unit PuzzleFS" where
  "extract_pfs = sample_pfs\<lparr>pfs_oci := extract_store\<rparr>"

lemma extract_pfs_open: "PuzzleFS_open verity_env extract_store ''t'' None = Ok extract_pfs"
proof -
  have "hd (pad32 [5]) = 5" "hd (pad32 sample_blob) = 10" by (simp_all add: pad32_def sample_blob_def)
  then have "pad32 [5] \<noteq> pad32 sample_blob" by force
  then have ne: "base16_encode (pad32 [5]) \<noteq> base16_encode (pad32 sample_blob)"
    using base16_pad32 by (metis Digest.inject outcome.inject(1))
  have "cp_manifest_version sample_message = PUZZLEFS_IMAGE_MANIFEST_VERSION"
    using Rootfs_roundtrip [OF sample_wf_Rootfs sample_fill] by (auto simp: Rootfs_from_capnp_def sample_rootfs_def)
  with ne show ?thesis
    by (simp add: PuzzleFS_open_def open_rootfs_blob_def get_pfs_rootfs_def find_manifest_def find_rootfs_desc_def
        verity_env_def sample_env_def open_raw_blob_def extract_store_def rootfs_desc_def RootfsReader_open_def
        RootfsReader_get_manifest_version_def extract_pfs_def sample_pfs_def)
qed

lemma extract_pfs_view: "pfs_view extract_pfs = pfs_view sample_pfs" "wf_pfs extract_pfs"
  using sample_wf_pfs by (simp_all add: fun_eq_iff pfs_view_def wf_pfs_def extract_pfs_def)

lemma sample_paths:
  "path_to (pfs_view sample_pfs) names i \<Longrightarrow>
   (names, i_ino i) \<in> {([], 1), ([[97]], 2), ([[100]], 3), ([[100], [108]], 4)} \<and>
   pfs_view sample_pfs (i_ino i) = Some i"
proof (induction rule: path_to.induct)
  case (root i)
  then have "i_ino i = 1" unfolding sample_view by (rule layers_view_ino)
  with root show ?case by simp
next
  case (step names d name e i)
  have d: "(i_ino d, d) \<in> {(1, sample_layers ! 0 ! 0), (2, sample_layers ! 1 ! 1), (3, sample_layers ! 1 ! 2),
    (4, sample_layers ! 1 ! 3)}"
    using step.IH unfolding sample_view by (intro sample_view_cases) simp
  have "i_ino i = de_ino e" using step.hyps(3) unfolding sample_view by (rule layers_view_ino)
  with d step show ?case
    by (auto simp: entry_named_def sample_defs split: if_splits)
qed

lemma sample_dirs_once: "dirs_once (pfs_view sample_pfs)" "shallow (pfs_view sample_pfs)"
  by (auto simp: dirs_once_def shallow_def dest!: sample_paths)

lemmas sample_trees =
  sample_tree_view [folded extract_pfs_view(1)] sample_dirs_once [folded extract_pfs_view(1)]

lemma sample_extractable:
  assumes "path_to (pfs_view extract_pfs) names i"
  shows "extractable (image_chunk_data (verity_env, pfs_oci extract_pfs, None)) i"
proof -
  let ?cd = "image_chunk_data (verity_env, pfs_oci extract_pfs, None)"
  have "?cd (fc_blob (sample_chunk off len)) = Some (drop (unat off) sample_blob)" if "unat off + unat len \<le> 6" for off len
    using that
    by (simp add: image_chunk_data_def blob_contents_def sample_chunk_def file_verity_of_def open_raw_blob_def
        file_contents_def sample_blob_def extract_pfs_def extract_store_def verity_env_def sample_env_def base16_def)
  from this [of 1 3] this [of 0 2] have "chunks_readable ?cd sample_chunks"
    by (simp add: sample_chunks_def chunks_readable_def) (simp add: sample_chunk_def sample_blob_def)
  moreover from path_to_view [OF assms] obtain ino where "pfs_view extract_pfs ino = Some i" ..
  then have "(ino, i) \<in> {(1, sample_layers ! 0 ! 0), (2, sample_layers ! 1 ! 1), (3, sample_layers ! 1 ! 2),
    (4, sample_layers ! 1 ! 3)}"
    unfolding extract_pfs_view sample_view by (rule sample_view_cases)
  ultimately show ?thesis
    using sample_file_mode sample_chunks_total
    by (auto simp: extractable_def sample_file_def) (simp_all add: sample_defs symlink_target_def)
qed

lemma sample_xhost_laws: "willing sample_xhost" "starts_empty sample_xhost dir"
proof -
  have "\<exists>x\<in>set log. creates x = Some p" if "CreateDirAll p \<in> set log" for log p using that by force
  then show "willing sample_xhost" "starts_empty sample_xhost dir"
    by (auto simp: willing_def starts_empty_def sample_xhost_def not_found_def no_symlink_def dir_md_def)
qed

theorem extract_writes_tree_witness:
  "\<exists>res. walk extract_pfs = Some (Ok res) \<and>
    extract_rootfs sample_xhost verity_env 4 (Ok extract_store) ''t'' out_dir =
      Some (CreateDirAll out_dir # expected_ops True 4 (image_chunk_data (verity_env, extract_store, None)) out_dir
        Map.empty res, Ok ())"
  using extract_writes_tree [OF extract_pfs_open extract_pfs_view(2) sample_trees _ sample_xhost_laws(1)
      sample_xhost_laws(2) [of out_dir], of 4] sample_extractable
  by (simp add: runs_privileged_def sample_xhost_def) (simp add: extract_pfs_def)

theorem extract_confined_witness:
  "\<exists>log. extract_rootfs sample_xhost verity_env 4 (Ok extract_store) ''t'' out_dir = Some (log, Ok ()) \<and>
    (\<forall>x\<in>set log. \<forall>p\<in>set (op_paths x). below out_dir p)"
proof -
  from extract_rootfs_tree [OF extract_pfs_open extract_pfs_view(2) sample_trees _ sample_xhost_laws(1)
      sample_xhost_laws(2) [of out_dir], of 4] sample_extractable
  obtain log where "extract_rootfs sample_xhost verity_env 4 (Ok extract_store) ''t'' out_dir = Some (log, Ok ())" by auto
  with extract_confined [OF this] show ?thesis by blast
qed

end
