(* ===== verification/Mounting.thy ===== *)
theory Mounting
  imports Fuse
begin

text \<open>
  \<open>puzzlefs-lib/src/reader.rs\<close>: the mount options and the two ways to mount. The functions \<open>mount2\<close> and
  \<open>spawn_mount2\<close> of the \<open>fuser\<close> crate are parameters that act on a state of the caller's choice.
\<close>

text \<open>\<open>fuser::MountOption\<close>.\<close>

datatype MountOption =
    AutoUnmount | AllowOther | AllowRoot | DefaultPermissions | Dev | NoDev | Suid | NoSuid
  | RO | RW | Exec | NoExec | Atime | NoAtime | DirSync | Sync | Async
  | FSName string | Subtype string | CUSTOM string

definition starts_with :: "string \<Rightarrow> string \<Rightarrow> bool" where
  "starts_with s prefix \<longleftrightarrow> take (length prefix) s = prefix"

definition mount_option_from_str :: "string \<Rightarrow> MountOption" where
  "mount_option_from_str s =
     (if s = ''auto_unmount'' then AutoUnmount
      else if s = ''allow_other'' then AllowOther
      else if s = ''allow_root'' then AllowRoot
      else if s = ''default_permissions'' then DefaultPermissions
      else if s = ''dev'' then Dev
      else if s = ''nodev'' then NoDev
      else if s = ''suid'' then Suid
      else if s = ''nosuid'' then NoSuid
      else if s = ''ro'' then RO
      else if s = ''rw'' then RW
      else if s = ''exec'' then Exec
      else if s = ''noexec'' then NoExec
      else if s = ''atime'' then Atime
      else if s = ''noatime'' then NoAtime
      else if s = ''dirsync'' then DirSync
      else if s = ''sync'' then Sync
      else if s = ''async'' then Async
      else if starts_with s ''fsname='' then FSName (drop 7 s)
      else if starts_with s ''subtype='' then Subtype (drop 8 s)
      else CUSTOM s)"

definition mount ::
    "'o env \<Rightarrow> ('o Fuse \<Rightarrow> path \<Rightarrow> MountOption list \<Rightarrow> 's \<Rightarrow> 's \<times> unit io_result) \<Rightarrow> 'o Image \<Rightarrow> string \<Rightarrow> path \<Rightarrow>
     string list \<Rightarrow> PipeDescriptor option \<Rightarrow> bytes option \<Rightarrow> 's \<Rightarrow> 's \<times> unit wire_result" where
  "mount env mount2 oci tag mountpoint options init_notify manifest_verity s =
     (case PuzzleFS_open env oci tag manifest_verity of
        Ok pfs \<Rightarrow>
          (let (s', r) = mount2 (Fuse_new pfs False init_notify) mountpoint (map mount_option_from_str options) s
           in (s', map_err IOError r))
      | Err e \<Rightarrow> (s, Err e)
      | Panic p \<Rightarrow> (s, Panic p))"

definition spawn_mount ::
    "'o env \<Rightarrow> ('o Fuse \<Rightarrow> path \<Rightarrow> MountOption list \<Rightarrow> 's \<Rightarrow> 's \<times> 'session io_result) \<Rightarrow> 'o Image \<Rightarrow> string \<Rightarrow> path \<Rightarrow>
     string list \<Rightarrow> PipeDescriptor option \<Rightarrow> bool \<Rightarrow> bytes option \<Rightarrow> 's \<Rightarrow> 's \<times> 'session wire_result" where
  "spawn_mount env spawn_mount2 oci tag mountpoint options init_notify sender manifest_verity s =
     (case PuzzleFS_open env oci tag manifest_verity of
        Ok pfs \<Rightarrow>
          (let (s', r) = spawn_mount2 (Fuse_new pfs sender init_notify) mountpoint (map mount_option_from_str options) s
           in (s', map_err IOError r))
      | Err e \<Rightarrow> (s, Err e)
      | Panic p \<Rightarrow> (s, Panic p))"

section \<open>Lemmas\<close>

text \<open>Every option string is recovered from the parsed option.\<close>

fun option_str :: "MountOption \<Rightarrow> string" where
  "option_str AutoUnmount = ''auto_unmount''"
| "option_str AllowOther = ''allow_other''"
| "option_str AllowRoot = ''allow_root''"
| "option_str DefaultPermissions = ''default_permissions''"
| "option_str Dev = ''dev''"
| "option_str NoDev = ''nodev''"
| "option_str Suid = ''suid''"
| "option_str NoSuid = ''nosuid''"
| "option_str RO = ''ro''"
| "option_str RW = ''rw''"
| "option_str Exec = ''exec''"
| "option_str NoExec = ''noexec''"
| "option_str Atime = ''atime''"
| "option_str NoAtime = ''noatime''"
| "option_str DirSync = ''dirsync''"
| "option_str Sync = ''sync''"
| "option_str Async = ''async''"
| "option_str (FSName v) = ''fsname='' @ v"
| "option_str (Subtype v) = ''subtype='' @ v"
| "option_str (CUSTOM s) = s"

lemma starts_with_drop: "starts_with s pre \<Longrightarrow> pre @ drop (length pre) s = s"
  unfolding starts_with_def by (metis append_take_drop_id)

lemma prefixed_options:
  "starts_with s ''fsname='' \<Longrightarrow> ''fsname='' @ drop 7 s = s" "starts_with s ''subtype='' \<Longrightarrow> ''subtype='' @ drop 8 s = s"
  using starts_with_drop [of s "''fsname=''"] starts_with_drop [of s "''subtype=''"] by (simp_all add: numeral_eq_Suc)

lemma if_eqI: "(P \<Longrightarrow> a = s) \<Longrightarrow> (\<not> P \<Longrightarrow> b = s) \<Longrightarrow> (if P then a else b) = s"
  by simp

lemma option_str_from_str: "option_str (mount_option_from_str s) = s"
  unfolding mount_option_from_str_def if_distrib [of option_str] option_str.simps
  by (intro if_eqI) (erule sym prefixed_options | rule refl)+

lemma mount_option_inj: "mount_option_from_str s = mount_option_from_str t \<longleftrightarrow> s = t"
  by (metis option_str_from_str)

text \<open>Nothing is mounted unless the image opens with the demanded verity.\<close>

lemma mount_opened:
  assumes "mount env mount2 oci tag mp opts notify mv s = (s', r)" and "s' \<noteq> s"
  shows "\<exists>pfs. PuzzleFS_open env oci tag mv = Ok pfs \<and>
    s' = fst (mount2 (Fuse_new pfs False notify) mp (map mount_option_from_str opts) s)"
  using assms by (cases "PuzzleFS_open env oci tag mv") (auto simp: mount_def split: prod.splits)

end
