(* ===== verification/Image_Dir.thy ===== *)
theory Image_Dir
  imports Host_Path Image_Store
begin

text \<open>
  The constructors of \<open>Image\<close> in \<open>puzzlefs-lib/src/oci.rs\<close>. Opening a directory (\<open>cap_std\<close>) and the
  \<open>ocidir\<close> crate are parameters; a directory handle is the path it was opened at.
\<close>

record 'o oci_dirs =
  od_open_ambient_dir :: "path \<Rightarrow> path io_result"
  od_ensure :: "path \<Rightarrow> 'o Image wire_result"  \<comment> \<open>\<open>OciDir::ensure\<close>\<close>
  od_open_with_external_blobs :: "path \<Rightarrow> path \<Rightarrow> 'o Image wire_result"

definition blob_path :: bytes where
  "blob_path = map of_char ''blobs/sha256''"

text \<open>\<open>created\<close> is the result of \<open>fs::create_dir_all(oci_dir)\<close>.\<close>

definition Image_new :: "'o oci_dirs \<Rightarrow> unit io_result \<Rightarrow> path \<Rightarrow> 'o Image wire_result" where
  "Image_new od created oci_dir =
     and_then (map_err IOError created) (\<lambda>_.
     and_then (map_err IOError (od_open_ambient_dir od oci_dir)) (\<lambda>d.
       od_ensure od d))"

definition Image_open :: "'o oci_dirs \<Rightarrow> path \<Rightarrow> 'o Image wire_result" where
  "Image_open od oci_dir =
     and_then (map_err IOError (od_open_ambient_dir od oci_dir)) (\<lambda>d.
     and_then (map_err IOError (od_open_ambient_dir od (join oci_dir blob_path))) (\<lambda>blobs_dir.
       od_open_with_external_blobs od d blobs_dir))"

lemma Image_open_Ok_iff:
  "Image_open od p = Ok im \<longleftrightarrow> (\<exists>d b. od_open_ambient_dir od p = Ok d \<and>
     od_open_ambient_dir od (join p blob_path) = Ok b \<and> od_open_with_external_blobs od d b = Ok im)"
  by (cases "od_open_ambient_dir od p"; cases "od_open_ambient_dir od (join p blob_path)") (simp_all add: Image_open_def)

end
