(* ===== verification/Cli.thy ===== *)
theory Cli
  imports Mounting Builder Extractor Image_Dir
begin

text \<open>
  \<open>exe/src/main.rs\<close>: the \<open>puzzlefs\<close> command. The arguments are as \<open>clap\<close> delivers them. Like the
  extractor, a command returns the operations it has performed together with its result; the host is
  a function of the operations performed so far. \<open>daemonize.start()\<close> forks: \<open>main_mount\<close> is the process
  that goes on to mount, \<open>mount_parent\<close> the one that waits for it.
\<close>

section \<open>Arguments\<close>

record Build =
  bu_rootfs :: string
  bu_oci_dir :: string
  bu_base_layer :: "string option"
  bu_compression :: bool

record Mount =
  mt_oci_dir :: string
  mt_mountpoint :: string
  mt_foreground :: bool
  mt_init_pipe :: "string option"
  mt_options :: "string list option"
  mt_digest :: "string option"
  mt_writable :: bool
  mt_persist :: "string option"

record Umount =
  um_mountpoint :: string

record Extract =
  ex_oci_dir :: string
  ex_extract_dir :: string

record FsVerity =
  fv_oci_dir :: string
  fv_root_hash :: string

datatype SubCommand =
    Build Build
  | Mount Mount
  | Umount Umount
  | Extract Extract
  | EnableFsVerity FsVerity

datatype LevelFilter = Off | Error | Warn | Info | Debug | Trace

section \<open>The host\<close>

datatype 'o cli_op =
    InitLogging string
  | SyslogConnect
  | SetBoxedLogger
  | SetMaxLevel LevelFilter
  | CreateDirs path
  | CreatePipe
  | ClonePipe
  | WritePipe bytes
  | StartDaemon
  | Mount2 "'o Fuse" path "MountOption list"
  | SpawnMount2 "'o Fuse" path "MountOption list"
  | SetCtrlcHandler
  | RecvFinished
  | OpenNamedPipe path
  | WriteNamedPipe path bytes
  | OverlayMount path path path path  \<comment> \<open>lower, upper, work directory and target\<close>
  | UmountCall path
  | Fusermount string
  | Println string
  | ExtractOp host_op

type_synonym 'o cli_log = "'o cli_op list"

text \<open>A line of \<open>/proc/self/mountinfo\<close>.\<close>

record mount_point =
  mp_mount_point :: bytes
  mp_fstype :: bytes

record 'o cli_host =
  ch_result :: "'o cli_log \<Rightarrow> 'o cli_op \<Rightarrow> unit io_result"
  ch_euid_root :: bool
  ch_canonicalize :: "path \<Rightarrow> path io_result"
  ch_oci :: "'o oci_dirs"
  ch_mountinfo :: "(unit, mount_point) outcome list io_result"  \<comment> \<open>the parsed lines; \<open>Err\<close>: not parsable\<close>
  ch_exit_status :: "string \<Rightarrow> int option"  \<comment> \<open>of \<open>fusermount -u\<close>; \<open>None\<close>: terminated by a signal\<close>

datatype cli_error =
    OciDirFormat
  | NeedsRoot
  | CliIo io_error
  | CliWire WireFormatError
  | CliHex
  | CliExtract extract_error
  | NoSuchMountpoint
  | UmountStatus "int option"
  | UnknownMountType bytes

type_synonym 'a cli_result = "(cli_error, 'a) outcome"
type_synonym ('o, 'a) cli_act = "'o cli_log \<times> 'a cli_result"

text \<open>A call on the host followed by \<open>?\<close>, and one whose failure is only logged.\<close>

definition act :: "'o cli_host \<Rightarrow> 'o cli_op \<Rightarrow> 'o cli_log \<Rightarrow> ('o, unit) cli_act" where
  "act ch x log = (log @ [x], map_err CliIo (ch_result ch log x))"

definition str_bytes :: "string \<Rightarrow> bytes" where
  "str_bytes s = map of_char s"

definition str_path :: "string \<Rightarrow> path" where
  "str_path s = components (str_bytes s)"

section \<open>Logging\<close>

definition init_logging :: "string \<Rightarrow> 'o cli_log \<Rightarrow> 'o cli_log" where
  "init_logging log_level log = log @ [InitLogging log_level]"

definition level_filter :: "string \<Rightarrow> ('e, LevelFilter) outcome" where
  "level_filter log_level =
     (if log_level = ''off'' then Ok Off
      else if log_level = ''error'' then Ok Error
      else if log_level = ''warn'' then Ok Warn
      else if log_level = ''info'' then Ok Info
      else if log_level = ''debug'' then Ok Debug
      else if log_level = ''trace'' then Ok Trace
      else Panic ExplicitPanic)"

definition init_syslog :: "'o cli_host \<Rightarrow> string \<Rightarrow> 'o cli_log \<Rightarrow> ('o, unit) cli_act" where
  "init_syslog ch log_level log =
     act_then (act ch SyslogConnect log) (\<lambda>log _.
       case act ch SetBoxedLogger log of
         (log, Ok _) \<Rightarrow> act_then (log, level_filter log_level) (\<lambda>log l. (log @ [SetMaxLevel l], Ok ()))
       | (log, _) \<Rightarrow> (log, Panic UnwrapFailed))"

section \<open>Names\<close>

text \<open>\<open>str::split_terminator\<close>: as \<open>split\<close>, without the last piece if that is empty.\<close>

definition split_terminator :: "'a \<Rightarrow> 'a list \<Rightarrow> 'a list list" where
  "split_terminator sep xs =
     (let parts = split_on sep xs in if last parts = [] then butlast parts else parts)"

definition parse_oci_dir :: "string \<Rightarrow> (string \<times> string) cli_result" where
  "parse_oci_dir oci_dir =
     (let comps = split_terminator (CHR '':'') oci_dir in
      if length comps \<noteq> 2 then Err OciDirFormat else Ok (comps ! 0, comps ! 1))"

definition get_mount_type :: "'o cli_host \<Rightarrow> string \<Rightarrow> bytes cli_result" where
  "get_mount_type ch mountpoint =
     and_then (map_err CliIo (ch_mountinfo ch)) (\<lambda>infos.
     and_then (ok_or (List.find (\<lambda>mi. case mi of Ok m \<Rightarrow> mp_mount_point m = str_bytes mountpoint | _ \<Rightarrow> False) infos)
         NoSuchMountpoint) (\<lambda>mi.
     and_then (map_err (\<lambda>_. NoSuchMountpoint) mi) (\<lambda>m. Ok (mp_fstype m))))"

section \<open>Build\<close>

definition main_build ::
    "'o cli_host \<Rightarrow> host \<Rightarrow> 'o env \<Rightarrow> 'o registry \<Rightarrow> (bytes \<Rightarrow> bytes io_result) \<Rightarrow> Build \<Rightarrow>
     ('o, 'o Image) cli_act option" where
  "main_build ch h env rg zstd_compress_all b =
     (let rootfs = str_path (bu_rootfs b); C = (if bu_compression b then Zstd zstd_compress_all else Noop) in
      case parse_oci_dir (bu_oci_dir b) of
        Err e \<Rightarrow> Some ([], Err e)
      | Panic p \<Rightarrow> Some ([], Panic p)
      | Ok (oci_dir, tag) \<Rightarrow>
          (let x = CreateDirs (str_path oci_dir); log = [x] in
           case Image_new (ch_oci ch) (ch_result ch [] x) (str_path oci_dir) of
             Err e \<Rightarrow> Some (log, Err (CliWire e))
           | Panic p \<Rightarrow> Some (log, Panic p)
           | Ok im \<Rightarrow>
               map_option (\<lambda>built.
                   act_then (log, map_err CliWire built) (\<lambda>log (_, new_image).
                   act_then (log, map_err CliWire (get_image_manifest_fd env new_image tag)) (\<lambda>log manifest_fd.
                   act_then (log, map_err CliWire (get_fs_verity_digest env (bf_data manifest_fd))) (\<lambda>log manifest_digest.
                     (log @ [Println (''puzzlefs image manifest digest: '' @ hex_encode (env_hex env) manifest_digest)],
                      Ok new_image)))))
                 (case bu_base_layer b of
                    Some base_layer \<Rightarrow> add_rootfs_delta h env rg C rootfs im tag base_layer
                  | None \<Rightarrow> build_initial_rootfs h env rg C rootfs im tag)))"

section \<open>Mount\<close>

text \<open>\<open>Mount2\<close> and \<open>SpawnMount2\<close> as the two functions of \<open>fuser\<close>, acting on the log.\<close>

definition host_mount2 ::
    "'o cli_host \<Rightarrow> 'o Fuse \<Rightarrow> path \<Rightarrow> MountOption list \<Rightarrow> 'o cli_log \<Rightarrow> 'o cli_log \<times> unit io_result" where
  "host_mount2 ch fs mp opts log = (log @ [Mount2 fs mp opts], ch_result ch log (Mount2 fs mp opts))"

definition host_spawn_mount2 ::
    "'o cli_host \<Rightarrow> 'o Fuse \<Rightarrow> path \<Rightarrow> MountOption list \<Rightarrow> 'o cli_log \<Rightarrow> 'o cli_log \<times> unit io_result" where
  "host_spawn_mount2 ch fs mp opts log = (log @ [SpawnMount2 fs mp opts], ch_result ch log (SpawnMount2 fs mp opts))"

definition unwrap_or_default :: "'a list option \<Rightarrow> 'a list" where
  "unwrap_or_default x = (case x of None \<Rightarrow> [] | Some y \<Rightarrow> y)"

text \<open>The bytes \<open>b"f"\<close>.\<close>

definition failure_byte :: u8 where
  "failure_byte = of_char (CHR ''f'')"

definition mount_background ::
    "'o cli_host \<Rightarrow> 'o env \<Rightarrow> 'o Image \<Rightarrow> string \<Rightarrow> path \<Rightarrow> string list option \<Rightarrow> bytes option \<Rightarrow> 'o cli_log \<Rightarrow>
     ('o, unit) cli_act" where
  "mount_background ch env im tag mountpoint options manifest_verity log =
     act_then (act ch StartDaemon log) (\<lambda>log _.
     act_then (act ch ClonePipe log) (\<lambda>log _.
       let (log, r) = mount env (host_mount2 ch) im tag mountpoint (unwrap_or_default options) (Some UnnamedPipe)
                        manifest_verity log
       in (log, map_err CliWire r)))"

text \<open>The exit action of the waiting process: it returns the process's exit code.\<close>

definition exit_action ::
    "u8 io_result \<Rightarrow> ('o cli_log \<Rightarrow> ('o, unit) cli_act) \<Rightarrow> 'o cli_log \<Rightarrow> 'o cli_log \<times> nat" where
  "exit_action received parent_action log =
     (if received = Ok failure_byte then (log, 1) else (fst (parent_action log), 0))"

definition overlay_action ::
    "'o cli_host \<Rightarrow> path \<Rightarrow> string option \<Rightarrow> 'o cli_log \<Rightarrow> ('o, unit) cli_act" where
  "overlay_action ch mountpoint persist log =
     (let ovl_workdir = join mountpoint (str_bytes ''work'') in
      act_then (act ch (CreateDirs ovl_workdir) log) (\<lambda>log _.
      let ovl_upperdir = (case persist of None \<Rightarrow> join mountpoint (str_bytes ''upper'') | Some upperdir \<Rightarrow> str_path upperdir) in
      act_then (act ch (CreateDirs ovl_upperdir) log) (\<lambda>log _.
        act ch (OverlayMount (join mountpoint (str_bytes ''ro'')) ovl_upperdir ovl_workdir mountpoint) log)))"

text \<open>On an error of the background mount the waiting process is told through the pipe.\<close>

definition report_failure :: "'o cli_host \<Rightarrow> ('o, unit) cli_act \<Rightarrow> ('o, unit) cli_act" where
  "report_failure ch a =
     (case a of (log, Err e) \<Rightarrow> (fst (act ch (WritePipe [failure_byte]) log), Err e) | _ \<Rightarrow> a)"

definition mount_foreground ::
    "'o cli_host \<Rightarrow> 'o env \<Rightarrow> Mount \<Rightarrow> 'o Image \<Rightarrow> string \<Rightarrow> path \<Rightarrow> bytes option \<Rightarrow> 'o cli_log \<Rightarrow> ('o, unit) cli_act" where
  "mount_foreground ch env m im tag mountpoint manifest_verity log =
     (case act ch SetCtrlcHandler log of
        (log, Ok _) \<Rightarrow>
          (let named_pipe = map_option str_path (mt_init_pipe m);
               (log, r) = spawn_mount env (host_spawn_mount2 ch) im tag mountpoint (unwrap_or_default (mt_options m))
                            (map_option NamedPipe named_pipe) True manifest_verity log
           in case r of
                Err e \<Rightarrow>
                  (case named_pipe of
                     None \<Rightarrow> log
                   | Some pipe \<Rightarrow>
                       (case act ch (OpenNamedPipe pipe) log of
                          (log, Ok _) \<Rightarrow> fst (act ch (WriteNamedPipe pipe [failure_byte]) log)
                        | (log, _) \<Rightarrow> log), Err (CliWire e))
              | Panic p \<Rightarrow> (log, Panic p)
              | Ok _ \<Rightarrow>
                  (case act ch RecvFinished log of
                     (log, Ok _) \<Rightarrow> (log, Ok ())
                   | (log, _) \<Rightarrow> (log, Panic UnwrapFailed)))
      | (log, _) \<Rightarrow> (log, Panic UnwrapFailed))"

text \<open>What \<open>main\<close> does before it chooses a way to mount.\<close>

definition wants_overlay :: "Mount \<Rightarrow> bool" where
  "wants_overlay m \<longleftrightarrow> mt_writable m \<or> mt_persist m \<noteq> None"

definition mount_prologue ::
    "'o cli_host \<Rightarrow> 'o env \<Rightarrow> Mount \<Rightarrow> ('o, 'o Image \<times> string \<times> path \<times> bytes option) cli_act" where
  "mount_prologue ch env m =
     act_then (if mt_foreground m then (init_logging ''info'' [], Ok ()) else init_syslog ch ''info'' []) (\<lambda>log _.
     if wants_overlay m \<and> \<not> ch_euid_root ch then (log, Err NeedsRoot)
     else
       (log,
        and_then (parse_oci_dir (mt_oci_dir m)) (\<lambda>(oci_dir, tag).
        and_then (map_err CliIo (ch_canonicalize ch (str_path oci_dir))) (\<lambda>oci_dir.
        and_then (map_err CliWire (Image_open (ch_oci ch) oci_dir)) (\<lambda>im.
        and_then (map_err CliIo (ch_canonicalize ch (str_path (mt_mountpoint m)))) (\<lambda>mountpoint.
        and_then (case mt_digest m of
            None \<Rightarrow> Ok None
          | Some d \<Rightarrow> map_ok Some (ok_or (hex_decode (env_hex env) d) CliHex)) (\<lambda>manifest_verity.
          Ok (im, tag, mountpoint, manifest_verity))))))))"

definition overlay_prologue :: "'o cli_host \<Rightarrow> path \<Rightarrow> 'o cli_log \<Rightarrow> ('o, path) cli_act" where
  "overlay_prologue ch mountpoint log =
     act_then (act ch CreatePipe log) (\<lambda>log _.
     let pfs_mountpoint = join mountpoint (str_bytes ''ro'') in
     act_then (act ch (CreateDirs pfs_mountpoint) log) (\<lambda>log _. (log, Ok pfs_mountpoint)))"

definition main_mount :: "'o cli_host \<Rightarrow> 'o env \<Rightarrow> Mount \<Rightarrow> ('o, unit) cli_act" where
  "main_mount ch env m =
     act_then (mount_prologue ch env m) (\<lambda>log (im, tag, mountpoint, manifest_verity).
     if wants_overlay m then
       act_then (overlay_prologue ch mountpoint log) (\<lambda>log pfs_mountpoint.
         report_failure ch (mount_background ch env im tag pfs_mountpoint (mt_options m) manifest_verity log))
     else if mt_foreground m then mount_foreground ch env m im tag mountpoint manifest_verity log
     else
       act_then (act ch CreatePipe log) (\<lambda>log _.
         report_failure ch (mount_background ch env im tag mountpoint (mt_options m) manifest_verity log)))"

text \<open>
  The process that waits: the same up to the fork, then the exit action with the byte it receives from
  the pipe. It returns its exit code; there is no such process if the fork is not reached.
\<close>

definition mount_parent :: "'o cli_host \<Rightarrow> 'o env \<Rightarrow> Mount \<Rightarrow> u8 io_result \<Rightarrow> ('o, nat) cli_act" where
  "mount_parent ch env m received =
     act_then (mount_prologue ch env m) (\<lambda>log (im, tag, mountpoint, manifest_verity).
     act_then (if wants_overlay m then map_prod id (map_ok (\<lambda>_. ())) (overlay_prologue ch mountpoint log)
               else act ch CreatePipe log) (\<lambda>log _.
     act_then (act ch StartDaemon log) (\<lambda>log _.
       map_prod id Ok (exit_action received
         (if wants_overlay m then overlay_action ch mountpoint (mt_persist m) else (\<lambda>log. (log, Ok ()))) log))))"

section \<open>Unmount, extract and enable fs-verity\<close>

definition main_umount :: "'o cli_host \<Rightarrow> Umount \<Rightarrow> ('o, unit) cli_act" where
  "main_umount ch e =
     act_then ([], get_mount_type ch (um_mountpoint e)) (\<lambda>log mount_type.
     if mount_type = str_bytes ''overlay'' then
       if \<not> ch_euid_root ch then (log, Err NeedsRoot)
       else
         (let mountpoint = str_path (um_mountpoint e) in
          act_then (act ch (UmountCall mountpoint) log) (\<lambda>log _.
            act ch (UmountCall (join mountpoint (str_bytes ''ro''))) log))
     else if mount_type = str_bytes ''fuse'' then
       act_then (act ch (Fusermount (um_mountpoint e)) log) (\<lambda>log _.
         let status = ch_exit_status ch (um_mountpoint e) in
         if status \<noteq> Some 0 then (log, Err (UmountStatus status)) else (log, Ok ()))
     else (log, Err (UnknownMountType mount_type)))"

definition main_extract ::
    "'o cli_host \<Rightarrow> xhost \<Rightarrow> 'o env \<Rightarrow> nat \<Rightarrow> Extract \<Rightarrow> ('o, unit) cli_act option" where
  "main_extract ch xh env buffer_size e =
     (case parse_oci_dir (ex_oci_dir e) of
        Err err \<Rightarrow> Some ([], Err err)
      | Panic p \<Rightarrow> Some ([], Panic p)
      | Ok (oci_dir, tag) \<Rightarrow>
          map_option (\<lambda>(xlog, r). (init_logging ''info'' [] @ map ExtractOp xlog, map_err CliExtract r))
            (extract_rootfs xh env buffer_size (Image_open (ch_oci ch) (str_path oci_dir)) tag (str_path (ex_extract_dir e))))"

definition main_enable_fs_verity ::
    "'o cli_host \<Rightarrow> 'o env \<Rightarrow> (blob_file \<Rightarrow> blob_file io_result) \<Rightarrow> FsVerity \<Rightarrow> 'o Image cli_result" where
  "main_enable_fs_verity ch env enable v =
     and_then (parse_oci_dir (fv_oci_dir v)) (\<lambda>(oci_dir, tag).
     and_then (map_err CliIo (ch_canonicalize ch (str_path oci_dir))) (\<lambda>oci_dir.
     and_then (map_err CliWire (Image_open (ch_oci ch) oci_dir)) (\<lambda>im.
       map_err CliWire (enable_fs_verity env enable im tag (fv_root_hash v)))))"

section \<open>The command\<close>

text \<open>The result holds the new contents of the image directory where the command changes it.\<close>

definition main ::
    "'o cli_host \<Rightarrow> host \<Rightarrow> xhost \<Rightarrow> 'o env \<Rightarrow> 'o registry \<Rightarrow> (bytes \<Rightarrow> bytes io_result) \<Rightarrow>
     (blob_file \<Rightarrow> blob_file io_result) \<Rightarrow> nat \<Rightarrow> SubCommand \<Rightarrow> ('o, 'o Image option) cli_act option" where
  "main ch h xh env rg zstd_compress_all enable buffer_size subcmd =
     (case subcmd of
        Build b \<Rightarrow> map_option (map_prod id (map_ok Some)) (main_build ch h env rg zstd_compress_all b)
      | Mount m \<Rightarrow> Some (map_prod id (map_ok (\<lambda>_. None)) (main_mount ch env m))
      | Umount e \<Rightarrow> Some (map_prod id (map_ok (\<lambda>_. None)) (main_umount ch e))
      | Extract e \<Rightarrow> map_option (map_prod id (map_ok (\<lambda>_. None))) (main_extract ch xh env buffer_size e)
      | EnableFsVerity v \<Rightarrow> Some ([], map_ok Some (main_enable_fs_verity ch env enable v)))"

section \<open>Lemmas on splitting\<close>

text \<open>The inverse of \<open>split_on\<close>.\<close>

fun join_on :: "'a \<Rightarrow> 'a list list \<Rightarrow> 'a list" where
  "join_on sep [] = []"
| "join_on sep [p] = p"
| "join_on sep (p # ps) = p @ sep # join_on sep ps"

lemma join_split_on: "join_on sep (split_on sep xs) = xs \<and> (\<forall>p\<in>set (split_on sep xs). sep \<notin> set p)"
proof (induction xs)
  case (Cons x xs)
  then show ?case
    using split_on_nonempty [of sep xs] by (cases "split_on sep xs"; cases "tl (split_on sep xs)") auto
qed simp

lemma split_join_on: "ps \<noteq> [] \<Longrightarrow> \<forall>p\<in>set ps. sep \<notin> set p \<Longrightarrow> split_on sep (join_on sep ps) = ps"
  by (induction sep ps rule: join_on.induct) (auto simp: split_on_no_sep split_on_one)

lemma split_on_iff: "split_on sep xs = ps \<longleftrightarrow> ps \<noteq> [] \<and> (\<forall>p\<in>set ps. sep \<notin> set p) \<and> xs = join_on sep ps"
  using join_split_on [of sep xs] split_join_on [of ps sep] split_on_nonempty [of sep xs] by auto

lemma split_terminator_pair:
  "split_terminator sep xs = [d, t] \<longleftrightarrow> t \<noteq> [] \<and> split_on sep xs = [d, t] \<or> split_on sep xs = [d, t, []]"
  using append_butlast_last_id [OF split_on_nonempty, of sep xs]
  by (auto simp: split_terminator_def Let_def)

lemma parse_oci_dir_Ok:
  "parse_oci_dir s = Ok (d, t) \<longleftrightarrow> split_terminator (CHR '':'') s = [d, t]"
  by (auto simp: parse_oci_dir_def Let_def length_Suc_conv numeral_2_eq_2)

section \<open>Lemmas on the operations\<close>

text \<open>The file system that an operation mounts.\<close>

fun mounts :: "'o cli_op \<Rightarrow> 'o Fuse option" where
  "mounts (Mount2 fs mp opts) = Some fs"
| "mounts (SpawnMount2 fs mp opts) = Some fs"
| "mounts x = None"

lemma act_then_fst: "act_then (log, r) f = (log', r') \<Longrightarrow>
    (\<exists>x. r = Ok x \<and> f log x = (log', r')) \<or> log' = log \<and> (\<forall>x. r \<noteq> Ok x) \<and> (\<forall>x. r' \<noteq> Ok x)"
  by (cases r) auto

lemma act_then_split: "act_then a f = (log', r') \<Longrightarrow>
    (\<exists>log x. a = (log, Ok x) \<and> f log x = (log', r')) \<or> (\<exists>r. a = (log', r) \<and> (\<forall>x. r' \<noteq> Ok x))"
  by (cases a; cases "snd a") auto

lemma init_syslog_log:
  "init_syslog ch level log = (log', r) \<Longrightarrow> \<exists>xs. log' = log @ xs \<and> set xs \<subseteq> {SyslogConnect, SetBoxedLogger} \<union> range SetMaxLevel"
  by (auto simp: init_syslog_def act_def dest!: act_then_fst split: outcome.splits)

definition opens_as :: "'o env \<Rightarrow> 'o Image \<Rightarrow> string \<Rightarrow> bytes option \<Rightarrow> 'o cli_op \<Rightarrow> bool" where
  "opens_as env im tag mv x \<longleftrightarrow> (\<forall>fs. mounts x = Some fs \<longrightarrow> PuzzleFS_open env im tag mv = Ok (fu_pfs fs))"

lemma mount_log:
  "mount env (host_mount2 ch) im tag mp opts notify mv log = (log', r) \<Longrightarrow>
   log' = log \<or> (\<exists>fs os. log' = log @ [Mount2 fs mp os] \<and> PuzzleFS_open env im tag mv = Ok (fu_pfs fs))"
  by (auto simp: mount_def host_mount2_def Fuse_new_def split: outcome.splits)

lemma spawn_mount_log:
  "spawn_mount env (host_spawn_mount2 ch) im tag mp opts notify sender mv log = (log', r) \<Longrightarrow>
   log' = log \<or> (\<exists>fs os. log' = log @ [SpawnMount2 fs mp os] \<and> PuzzleFS_open env im tag mv = Ok (fu_pfs fs))"
  by (auto simp: spawn_mount_def host_spawn_mount2_def Fuse_new_def split: outcome.splits)

text \<open>The fork comes first; whatever is mounted after it was opened with the demanded digest.\<close>

lemma mount_background_log:
  assumes "mount_background ch env im tag mp opts mv log = (log', r)"
  shows "\<exists>xs. log' = log @ StartDaemon # xs \<and>
    (\<forall>x\<in>set xs. opens_as env im tag mv x \<and> x \<noteq> WritePipe [failure_byte] \<and> x \<noteq> StartDaemon) \<and>
    (xs \<noteq> [] \<or> (\<exists>y. r = Ok y) \<longrightarrow> ch_result ch log StartDaemon = Ok ())"
  using assms unfolding mount_background_def
  by (auto simp: act_def opens_as_def dest!: act_then_fst mount_log split: prod.splits)

lemma mount_foreground_log:
  assumes "mount_foreground ch env m im tag mp mv log = (log', r)"
  shows "\<exists>xs. log' = log @ xs \<and> (\<forall>x\<in>set xs. opens_as env im tag mv x \<and> x \<noteq> StartDaemon)"
  using assms unfolding mount_foreground_def
  by (auto simp: act_def opens_as_def Let_def dest!: spawn_mount_log split: prod.splits outcome.splits option.splits)

lemma report_failure_log:
  "report_failure ch (log, r) = (log @ (if \<exists>e. r = Err e then [WritePipe [failure_byte]] else []), r)"
  by (cases r) (simp_all add: report_failure_def act_def)

text \<open>The operations before a fork or a mount.\<close>

definition preparing :: "'o cli_op \<Rightarrow> bool" where
  "preparing x \<longleftrightarrow> mounts x = None \<and> x \<noteq> StartDaemon \<and> (\<forall>bs. x \<noteq> WritePipe bs)"

lemma mount_prologue_log: "mount_prologue ch env m = (log, r) \<Longrightarrow> \<forall>x\<in>set log. preparing x"
  unfolding mount_prologue_def preparing_def
  by (auto simp: init_logging_def dest!: act_then_split init_syslog_log split: if_splits)

lemma overlay_prologue_log: "overlay_prologue ch mp log = (log', r) \<Longrightarrow> \<forall>x\<in>set log. preparing x \<Longrightarrow> \<forall>x\<in>set log'. preparing x"
  by (auto simp: overlay_prologue_def act_def Let_def preparing_def dest!: act_then_fst)

lemma mount_prologueD:
  assumes "mount_prologue ch env m = (log, Ok (im, tag, mp, mv))"
  shows "(wants_overlay m \<longrightarrow> ch_euid_root ch) \<and>
    (\<exists>oci_dir dir. parse_oci_dir (mt_oci_dir m) = Ok (oci_dir, tag) \<and> ch_canonicalize ch (str_path oci_dir) = Ok dir \<and>
      Image_open (ch_oci ch) dir = Ok im) \<and>
    ch_canonicalize ch (str_path (mt_mountpoint m)) = Ok mp \<and>
    (case mt_digest m of None \<Rightarrow> mv = None
     | Some d \<Rightarrow> \<exists>bs. hex_decode (env_hex env) d = Some bs \<and> mv = Some bs)"
  using assms unfolding mount_prologue_def
  by (auto dest!: act_then_split split: if_splits option.splits)

text \<open>The ways a mount command can go once its arguments are accepted.\<close>

lemma main_mount_cases:
  assumes "main_mount ch env m = (log, r)"
  obtains (stopped) "\<forall>x\<in>set log. preparing x"
    | (foreground) log0 im tag mp mv where "mount_prologue ch env m = (log0, Ok (im, tag, mp, mv))"
        "mount_foreground ch env m im tag mp mv log0 = (log, r)"
    | (forked) log0 im tag mp mv pre p where "mount_prologue ch env m = (log0, Ok (im, tag, mp, mv))"
        "\<forall>x\<in>set pre. preparing x"
        "(if wants_overlay m then map_prod id (map_ok (\<lambda>_. ())) (overlay_prologue ch mp log0)
          else act ch CreatePipe log0) = (pre, Ok ())"
        "report_failure ch (mount_background ch env im tag p (mt_options m) mv pre) = (log, r)"
proof -
  from assms consider r0 where "mount_prologue ch env m = (log, r0)"
    | log0 im tag mp mv where "mount_prologue ch env m = (log0, Ok (im, tag, mp, mv))"
      "(if wants_overlay m then
         act_then (overlay_prologue ch mp log0) (\<lambda>log pfs_mountpoint.
           report_failure ch (mount_background ch env im tag pfs_mountpoint (mt_options m) mv log))
       else if mt_foreground m then mount_foreground ch env m im tag mp mv log0
       else act_then (act ch CreatePipe log0) (\<lambda>log _.
           report_failure ch (mount_background ch env im tag mp (mt_options m) mv log))) = (log, r)"
    unfolding main_mount_def by (fastforce dest!: act_then_split)
  then show thesis
  proof cases
    case 1
    then show thesis using mount_prologue_log stopped by blast
  next
    case 2
    note log0 = mount_prologue_log [OF 2(1)]
    show thesis
    proof (cases "wants_overlay m")
      case True
      with 2(2) consider log1 p where "overlay_prologue ch mp log0 = (log1, Ok p)"
          "report_failure ch (mount_background ch env im tag p (mt_options m) mv log1) = (log, r)"
        | r1 where "overlay_prologue ch mp log0 = (log, r1)"
        by (auto dest!: act_then_split)
      then show thesis
      proof cases
        case 1
        with True show thesis using forked [OF 2(1) overlay_prologue_log [OF _ log0]] by simp
      qed (use overlay_prologue_log [OF _ log0] stopped in blast)
    next
      case False
      have pre: "\<forall>x\<in>set (log0 @ [CreatePipe]). preparing x" using log0 by (simp add: preparing_def)
      show thesis
        using False 2 foreground forked [OF 2(1) pre] stopped pre
        by (auto simp: act_def dest!: act_then_fst split: if_splits)
    qed
  qed
qed

text \<open>A mount that happens was prepared by the prologue.\<close>

lemma main_mountE:
  assumes "main_mount ch env m = (log, r)" and "x \<in> set log" and "mounts x = Some fs"
  obtains log0 im tag mp mv where "mount_prologue ch env m = (log0, Ok (im, tag, mp, mv))"
    "PuzzleFS_open env im tag mv = Ok (fu_pfs fs)"
  using assms(1)
proof (cases rule: main_mount_cases)
  case (foreground log0 im tag mp mv)
  with assms that show thesis by (auto simp: opens_as_def preparing_def dest!: mount_foreground_log mount_prologue_log)
next
  case (forked log0 im tag mp mv pre p)
  obtain log2 r2 where bg: "mount_background ch env im tag p (mt_options m) mv pre = (log2, r2)" by fastforce
  from mount_background_log [OF bg] forked(2,4) assms(2,3) that [OF forked(1)]
  show thesis by (auto simp: bg report_failure_log opens_as_def preparing_def split: if_splits)
qed (use assms in \<open>auto simp: preparing_def\<close>)

text \<open>An image that opens with a digest has a manifest file that measures to it.\<close>

lemma PuzzleFS_open_measures:
  assumes "PuzzleFS_open env im tag (Some v) = Ok pfs"
  shows "\<exists>desc f. env_find_manifest_descriptor_with_tag env im tag = Ok (Some desc) \<and>
    im_blobs im (d_digest desc) = Some f \<and> env_fsverity_measure env f = Ok v"
  using assms
  by (auto simp: PuzzleFS_open_def open_rootfs_blob_def get_image_manifest_fd_def open_raw_blob_def check_fs_verity_def
      split: option.splits if_splits)

end
