(* ===== verification/Cli_Properties.thy ===== *)
theory Cli_Properties
  imports Cli Builder_Properties Reader_Properties
begin

text \<open>
  Properties of the \<open>puzzlefs\<close> command: the names it accepts, what it mounts, how the waiting process
  learns of a failure, and the digest that \<open>build\<close> prints.
\<close>

section \<open>Lemmas\<close>

lemma overlay_action_log: "\<exists>xs. fst (overlay_action ch mp persist log) = log @ xs \<and> xs \<noteq> []"
  by (cases "ch_result ch log (CreateDirs (join mp (str_bytes ''work'')))")
    (auto simp: overlay_action_def act_def Let_def act_then_def split: outcome.splits)

lemma main_buildE:
  assumes "main_build ch h env rg zstd_compress_all b = Some (log, Ok im)"
  obtains oci_dir tag f where "parse_oci_dir (bu_oci_dir b) = Ok (oci_dir, tag)" "get_image_manifest_fd env im tag = Ok f"
    "last log = Println (''puzzlefs image manifest digest: '' @
      hex_encode (env_hex env) (env_fs_verity_sha256 env (bf_data f)))"
  using assms
  by (auto simp: main_build_def Let_def get_fs_verity_digest_def split: outcome.splits prod.splits dest!: act_then_fst)

text \<open>Enabling fs-verity fixes the digest of the manifest.\<close>

lemma enabled_manifest:
  assumes "enable_fs_verity env enable im tag root_hash = Ok im'"
    and "enable_lawful enable" "verity_lawful env" "index_stable env" and "get_image_manifest_fd env im tag = Ok f"
  shows "hex_decode (env_hex env) root_hash = Some (env_fs_verity_sha256 env (bf_data f)) \<and>
    (\<exists>pfs. PuzzleFS_open env im' tag (Some (env_fs_verity_sha256 env (bf_data f))) = Ok pfs)"
proof -
  from assms(1-4) obtain hash manifest_desc manifest rdesc rootfs_verity rootfs vd where
    hash: "hex_decode (env_hex env) root_hash = Some hash"
    and found: "env_find_manifest_descriptor_with_tag env im' tag = Ok (Some manifest_desc)"
      "find_manifest env im' tag = Ok manifest" "find_rootfs_desc manifest = Ok rdesc"
      "get_pfs_rootfs_verity env im' tag = Ok rootfs_verity"
    and prot: "protected env im' (d_digest manifest_desc) hash" "protected env im' (d_digest rdesc) rootfs_verity"
    and vd: "RootfsReader_get_verity_data rootfs = Ok vd"
    and rootfs: "open_rootfs_blob env im' tag None = Ok rootfs" and le: "verity_le im im'"
    and version: "RootfsReader_get_manifest_version rootfs = Ok PUZZLEFS_IMAGE_MANIFEST_VERSION"
    by (rule enable_fs_verityE)
  from found(1) assms(4) le have "env_find_manifest_descriptor_with_tag env im tag = Ok (Some manifest_desc)"
    by (simp add: index_stable_def)
  with assms(5) have f: "im_blobs im (d_digest manifest_desc) = Some f"
    by (auto simp: get_image_manifest_fd_def open_raw_blob_def split: option.splits)
  from le f obtain f' where "im_blobs im' (d_digest manifest_desc) = Some f'" "bf_data f' = bf_data f" by (rule verity_leD)
  with prot(1) have "hash = env_fs_verity_sha256 env (bf_data f)" by (auto simp: protected_def)
  with protected_image_opens [OF found rootfs version vd assms(3) prot] hash show ?thesis by blast
qed

section \<open>Names of images\<close>

text \<open>
  C32: The accepted image names: a directory and a tag, both without colons, separated by a colon, where
  a trailing colon is accepted too and is required if the tag is empty.
\<close>

theorem parse_oci_dir_iff:
  "parse_oci_dir s = Ok (d, t) \<longleftrightarrow> CHR '':'' \<notin> set d \<and> CHR '':'' \<notin> set t \<and>
     (s = d @ '':'' @ t \<and> t \<noteq> [] \<or> s = d @ '':'' @ t @ '':'')"
  unfolding parse_oci_dir_Ok split_terminator_pair split_on_iff by auto

section \<open>Mounting\<close>

text \<open>
  C11: Whatever \<open>puzzlefs mount\<close> mounts, in the foreground or as a daemon, is the file system of the image
  and tag named on the command line, opened with the digest given there: the digest decodes, and the
  manifest file measures to it. A writable mount is made by root only.
\<close>

theorem main_mount_verified:
  assumes "main_mount ch env m = (log, r)" and "x \<in> set log" and "mounts x = Some fs"
  shows "(wants_overlay m \<longrightarrow> ch_euid_root ch) \<and>
    (\<exists>oci_dir tag dir im. parse_oci_dir (mt_oci_dir m) = Ok (oci_dir, tag) \<and>
      ch_canonicalize ch (str_path oci_dir) = Ok dir \<and> Image_open (ch_oci ch) dir = Ok im \<and>
      (case mt_digest m of
         None \<Rightarrow> PuzzleFS_open env im tag None = Ok (fu_pfs fs)
       | Some d \<Rightarrow> \<exists>root_hash desc f. hex_decode (env_hex env) d = Some root_hash \<and>
           PuzzleFS_open env im tag (Some root_hash) = Ok (fu_pfs fs) \<and>
           env_find_manifest_descriptor_with_tag env im tag = Ok (Some desc) \<and>
           im_blobs im (d_digest desc) = Some f \<and> env_fsverity_measure env f = Ok root_hash))"
proof -
  from main_mountE [OF assms] obtain log0 im tag mp mv where
    pro: "mount_prologue ch env m = (log0, Ok (im, tag, mp, mv))" and pfs: "PuzzleFS_open env im tag mv = Ok (fu_pfs fs)" .
  from mount_prologueD [OF pro] pfs PuzzleFS_open_measures [of env im tag] show ?thesis
    by (cases "mt_digest m") fastforce+
qed

text \<open>
  C22: How the process that waits for a background mount learns its fate: once the fork is reached, the
  daemon writes \<open>f\<close> into the pipe exactly if the mount returns an error; a parent that receives it exits
  with 1 and does nothing more, and with anything else it exits with 0, having set up the overlay if
  one was asked for.
\<close>

theorem mount_failure_reported:
  assumes "main_mount ch env m = (log, r)" and "StartDaemon \<in> set log"
  shows "((\<exists>e. r = Err e) \<longleftrightarrow> WritePipe [failure_byte] \<in> set log) \<and>
    (\<exists>pre post. log = pre @ StartDaemon # post \<and> (ch_result ch pre StartDaemon = Ok () \<longrightarrow>
       mount_parent ch env m (Ok failure_byte) = (pre @ [StartDaemon], Ok 1) \<and>
       (\<forall>received. received \<noteq> Ok failure_byte \<longrightarrow>
          (\<exists>plog. mount_parent ch env m received = (pre @ StartDaemon # plog, Ok 0) \<and> (wants_overlay m \<longleftrightarrow> plog \<noteq> [])))))"
  using assms(1)
proof (cases rule: main_mount_cases)
  case (forked log0 im tag mp mv pre p)
  obtain log2 r2 where bg: "mount_background ch env im tag p (mt_options m) mv pre = (log2, r2)" by fastforce
  from mount_background_log [OF bg] obtain xs where log2: "log2 = pre @ StartDaemon # xs"
    "\<forall>x\<in>set xs. x \<noteq> WritePipe [failure_byte]" by auto
  from forked(4) have log: "log = log2 @ (if \<exists>e. r = Err e then [WritePipe [failure_byte]] else [])" "r = r2"
    by (auto simp: bg report_failure_log)
  have "(\<exists>e. r = Err e) \<longleftrightarrow> WritePipe [failure_byte] \<in> set log" using log log2 forked(2) by (auto simp: preparing_def)
  moreover have parent: "mount_parent ch env m received =
      map_prod id Ok (exit_action received
        (if wants_overlay m then overlay_action ch mp (mt_persist m) else (\<lambda>log. (log, Ok ()))) (pre @ [StartDaemon]))"
    if "ch_result ch pre StartDaemon = Ok ()" for received
    using that forked(1,3) by (simp add: mount_parent_def act_def)
  moreover have "\<exists>plog. mount_parent ch env m received = (pre @ StartDaemon # plog, Ok 0) \<and> (wants_overlay m \<longleftrightarrow> plog \<noteq> [])"
    if "ch_result ch pre StartDaemon = Ok ()" "received \<noteq> Ok failure_byte" for received
    using parent [OF that(1)] that(2) overlay_action_log [of ch mp "mt_persist m" "pre @ [StartDaemon]"]
    by (auto simp: exit_action_def)
  ultimately show ?thesis using log log2 by (auto simp: exit_action_def)
next
  case (foreground log0 im tag mp mv)
  with assms(2) show ?thesis by (auto simp: preparing_def dest!: mount_foreground_log mount_prologue_log)
qed (use assms in \<open>auto simp: preparing_def\<close>)

section \<open>The printed digest\<close>

text \<open>
  C21: The digest that \<open>puzzlefs build\<close> prints is the one to protect the image with: enabling fs-verity on
  the built image succeeds with no other digest, and an image on which it has succeeded opens when
  the printed digest is demanded.
\<close>

theorem main_build_digest:
  assumes "main_build ch h env rg zstd_compress_all b = Some (log, Ok im)" and "hex_lawful (env_hex env)"
    and "enable_lawful enable" and "verity_lawful env" and "index_stable env"
  shows "\<exists>oci_dir tag hex digest. parse_oci_dir (bu_oci_dir b) = Ok (oci_dir, tag) \<and>
    last log = Println (''puzzlefs image manifest digest: '' @ hex) \<and> hex_decode (env_hex env) hex = Some digest \<and>
    (\<forall>root_hash im'. enable_fs_verity env enable im tag root_hash = Ok im' \<longrightarrow>
       hex_decode (env_hex env) root_hash = Some digest \<and> (\<exists>pfs. PuzzleFS_open env im' tag (Some digest) = Ok pfs))"
proof -
  from main_buildE [OF assms(1)] obtain oci_dir tag f where
    parse: "parse_oci_dir (bu_oci_dir b) = Ok (oci_dir, tag)" and f: "get_image_manifest_fd env im tag = Ok f"
    and last: "last log = Println (''puzzlefs image manifest digest: '' @
      hex_encode (env_hex env) (env_fs_verity_sha256 env (bf_data f)))" .
  moreover have "hex_decode (env_hex env) (hex_encode (env_hex env) d) = Some d" for d
    using assms(2) by (simp add: hex_lawful_def)
  moreover have "hex_decode (env_hex env) root_hash = Some (env_fs_verity_sha256 env (bf_data f)) \<and>
      (\<exists>pfs. PuzzleFS_open env im' tag (Some (env_fs_verity_sha256 env (bf_data f))) = Ok pfs)"
    if "enable_fs_verity env enable im tag root_hash = Ok im'" for root_hash im'
    using enabled_manifest [OF that assms(3-5) f] by blast
  ultimately show ?thesis by blast
qed

section \<open>Sample commands\<close>

text \<open>A host on which every operation succeeds; its only image directory holds \<open>im\<close>.\<close>

definition willing_cli :: "'o Image \<Rightarrow> 'o cli_host" where
  "willing_cli im =
     \<lparr>ch_result = (\<lambda>log x. Ok ()), ch_euid_root = True, ch_canonicalize = Ok,
      ch_oci = \<lparr>od_open_ambient_dir = Ok, od_ensure = (\<lambda>_. Ok im), od_open_with_external_blobs = (\<lambda>_ _. Ok im)\<rparr>,
      ch_mountinfo = Ok [], ch_exit_status = (\<lambda>_. Some 0)\<rparr>"

definition sample_mount :: Mount where
  "sample_mount = \<lparr>mt_oci_dir = ''/i:t'', mt_mountpoint = ''/m'', mt_foreground = False, mt_init_pipe = None,
     mt_options = Some [''ro''], mt_digest = Some (base16_encode (pad32 [5])), mt_writable = True, mt_persist = None\<rparr>"

lemma parse_sample: "parse_oci_dir ''/i:t'' = Ok (''/i'', ''t'')"
  by (simp add: parse_oci_dir_def split_terminator_def)

lemma sample_prologue:
  "\<exists>log mp. mount_prologue (willing_cli im) verity_env sample_mount = (log, Ok (im, ''t'', mp, Some (pad32 [5])))"
proof -
  have "hex_decode base16 (base16_encode (pad32 [5])) = Some (pad32 [5])"
    using base16_lawful by (simp add: hex_lawful_def base16_def)
  then show ?thesis
    by (simp add: mount_prologue_def sample_mount_def wants_overlay_def init_syslog_def act_def willing_cli_def
        level_filter_def parse_sample Image_open_def verity_env_def sample_env_def)
qed

lemma sample_mounts:
  assumes "mount_prologue (willing_cli im) verity_env sample_mount = (log, Ok (im, ''t'', mp, Some (pad32 [5])))"
  shows "main_mount (willing_cli im) verity_env sample_mount =
    (let log' = log @ [CreatePipe, CreateDirs (join mp (str_bytes ''ro'')), StartDaemon, ClonePipe] in
     case PuzzleFS_open verity_env im ''t'' (Some (pad32 [5])) of
       Ok pfs \<Rightarrow> (log' @ [Mount2 (Fuse_new pfs False (Some UnnamedPipe)) (join mp (str_bytes ''ro'')) [RO]], Ok ())
     | Err e \<Rightarrow> (log' @ [WritePipe [failure_byte]], Err (CliWire e))
     | Panic p \<Rightarrow> (log', Panic p))"
proof -
  have "mount_option_from_str ''ro'' = RO" by (simp add: mount_option_from_str_def)
  with assms show ?thesis
    by (cases "PuzzleFS_open verity_env im ''t'' (Some (pad32 [5]))")
      (simp_all add: main_mount_def Let_def wants_overlay_def sample_mount_def overlay_prologue_def act_def willing_cli_def
        mount_background_def mount_def host_mount2_def report_failure_def unwrap_or_default_def)
qed

theorem main_mount_verified_witness:
  "\<exists>log fs mp. main_mount (willing_cli verity_image) verity_env sample_mount = (log, Ok ()) \<and>
    Mount2 fs mp [RO] \<in> set log \<and> PuzzleFS_open verity_env verity_image ''t'' (Some (pad32 [5])) = Ok (fu_pfs fs) \<and>
    env_fsverity_measure verity_env \<lparr>bf_data = [5], bf_verity = True\<rparr> = Ok (pad32 [5])"
proof -
  from verity_pfs_opens obtain pfs where pfs: "PuzzleFS_open verity_env verity_image ''t'' (Some (pad32 [5])) = Ok pfs" ..
  from sample_prologue [of verity_image] obtain log mp where
    "mount_prologue (willing_cli verity_image) verity_env sample_mount = (log, Ok (verity_image, ''t'', mp, Some (pad32 [5])))"
    by blast
  from sample_mounts [OF this] pfs have "\<exists>log fs mp. main_mount (willing_cli verity_image) verity_env sample_mount = (log, Ok ()) \<and>
      Mount2 fs mp [RO] \<in> set log" by (force simp: Let_def)
  then obtain log fs mp where
    m: "main_mount (willing_cli verity_image) verity_env sample_mount = (log, Ok ())" "Mount2 fs mp [RO] \<in> set log" by blast
  have "hex_decode base16 (base16_encode (pad32 [5])) = Some (pad32 [5])"
    using base16_lawful by (simp add: hex_lawful_def base16_def)
  then show ?thesis
    using main_mount_verified [OF m, of fs] m
    by (auto simp: sample_mount_def parse_sample willing_cli_def Image_open_def verity_env_def sample_env_def
        verity_image_def rootfs_desc_def)
qed

text \<open>An image without blobs does not open; the parent is told.\<close>

theorem mount_failure_reported_witness:
  "\<exists>log e pre. main_mount (willing_cli \<lparr>im_blobs = Map.empty, im_oci = ()\<rparr>) verity_env sample_mount = (log, Err e) \<and>
    WritePipe [failure_byte] \<in> set log \<and>
    mount_parent (willing_cli \<lparr>im_blobs = Map.empty, im_oci = ()\<rparr>) verity_env sample_mount (Ok failure_byte) = (pre, Ok 1)"
proof -
  let ?im = "\<lparr>im_blobs = Map.empty, im_oci = ()\<rparr> :: unit Image"
  have no: "PuzzleFS_open verity_env ?im ''t'' (Some (pad32 [5])) = Err (from_errno ENOENT)"
    by (simp add: PuzzleFS_open_def open_rootfs_blob_def get_image_manifest_fd_def open_raw_blob_def verity_env_def
        from_errno_def)
  from sample_prologue [of ?im] obtain log mp where
    "mount_prologue (willing_cli ?im) verity_env sample_mount = (log, Ok (?im, ''t'', mp, Some (pad32 [5])))"
    by blast
  from sample_mounts [OF this] no obtain log e where
    m: "main_mount (willing_cli ?im) verity_env sample_mount = (log, Err e)" "StartDaemon \<in> set log"
    by (auto simp: Let_def)
  have "ch_result (willing_cli ?im) pre StartDaemon = Ok ()" for pre by (simp add: willing_cli_def)
  with mount_failure_reported [OF m] m(1) show ?thesis by auto
qed

definition sample_build_cmd :: Build where
  "sample_build_cmd = \<lparr>bu_rootfs = ''/r'', bu_oci_dir = ''/i:t'', bu_base_layer = None, bu_compression = False\<rparr>"

lemma tag_env_verity_laws: "hex_lawful (env_hex (tag_env c))" "verity_lawful (tag_env c)" "index_stable (tag_env c)"
  by (simp_all add: base16_lawful) (simp_all add: verity_lawful_def index_stable_def verity_le_def tag_env_def SHA256_BLOCK_SIZE_def)

theorem main_build_digest_witness:
  "\<exists>log im hex. main_build (willing_cli tag_image) sample_host (tag_env built_message) tag_registry Ok sample_build_cmd =
      Some (log, Ok im) \<and> last log = Println (''puzzlefs image manifest digest: '' @ hex)"
proof -
  have path: "str_path ''/r'' = host_root"
    by (simp add: str_path_def str_bytes_def components_def host_root_def slash_def dot_def map_filter_simps component_of_def)
  from sample_build obtain log im where "main_build (willing_cli tag_image) sample_host (tag_env built_message) tag_registry Ok
      sample_build_cmd = Some (log, Ok im)"
    by (simp add: main_build_def sample_build_cmd_def Let_def parse_sample path willing_cli_def Image_new_def
        get_image_manifest_fd_def open_raw_blob_def get_fs_verity_digest_def tag_env_def tagged_desc_def built_store_def)
  with main_build_digest [OF this tag_env_verity_laws(1) sample_enable_lawful tag_env_verity_laws(2,3)] show ?thesis by blast
qed

end
