(* ===== verification/Delta_Image.thy ===== *)
theory Delta_Image
  imports Build_Image
begin

text \<open>
  A second layer: what \<open>add_rootfs_delta\<close> writes on top of an existing image, and what the image then
  shows. The new layer has an inode for every path of the host tree and a whiteout for every entry that
  is gone; the layers below keep the rest of their inodes, which no path of the new image leads to.
\<close>

section \<open>The existing image\<close>

lemma PuzzleFS_open_rootfs:
  assumes "PuzzleFS_open env im tag None = Ok pfs"
  shows "open_rootfs_blob env im tag None = Ok (pfs_rootfs pfs)"
    "cp_manifest_version (pfs_rootfs pfs) = PUZZLEFS_IMAGE_MANIFEST_VERSION"
  using assms by (auto simp: PuzzleFS_open_def RootfsReader_get_manifest_version_def split: if_splits)

lemma wf_pfs_max_inode:
  assumes "wf_pfs pfs" and "reader_layers (pfs_rootfs pfs) = Ok layers"
  shows "PuzzleFS_max_inode pfs = Ok (Max (insert 1 (i_ino ` set (concat layers))))"
  using max_inode_Max [OF assms(1) [unfolded wf_pfs_def] assms(2)] by (simp add: PuzzleFS_max_inode_def)

section \<open>Along a scan\<close>

text \<open>
  A property of the opened directories, the visited entries and the state that holds at the start and is kept
  when a directory is opened and when an entry is visited holds after a scan that succeeds.
\<close>

lemma visit_dir_opens:
  assumes host: "host_shows h open_file rootfs T" and d: "d \<in> set (t_dirs T)"
    and "visit_dir h existing rootfs st d = Ok st'"
  shows "\<exists>r. lookup_existing existing (RootDir # drop (length rootfs) d) = Ok r \<and>
    visit_entries h existing rootfs (add_whiteouts (t_names T d) (t_ino T d) st (old_entries r)) (dir_paths T d) = Ok st'"
proof -
  from host have walk: "walk_order rootfs T" and ne: "rootfs \<noteq> []" by (simp_all add: host_shows_def)
  from host d obtain ns where ns: "h_read_dir h d = Ok (map Ok ns)" "sort ns = t_names T d"
    by (auto simp: host_shows_def)
  have coll: "collect (\<lambda>r. r) (map Ok ns) = (Ok ns :: bytes list io_result)" by (induction ns) auto
  obtain ms where ms: "d = rootfs @ map Normal ms" using t_paths_prefix [OF walk walk_orderD(6) [OF walk d]] .
  have paths: "map (join d) (sort ns) = dir_paths T d"
    using walk_orderD(8) [OF walk d] ne by (simp add: ns(2) join_plain ms dir_paths_def)
  have names: "map file_name (dir_paths T d) = t_names T d" by (simp add: dir_paths_def comp_def)
  from assms(3) show ?thesis
    using host_showsD(1) [OF host walk_orderD(6) [OF walk d]]
    by (auto simp: visit_dir_def Let_def ns(1) coll paths names rootfs_relative_def old_entries_def simp del: sort_key_simps
        split: if_splits)
qed

lemma scan_along:
  assumes host: "host_shows h open_file rootfs T" and scan: "scan_rootfs h existing rootfs = Ok st"
    and start: "\<And>st. start_state h existing rootfs = Ok st \<Longrightarrow> I [] [] st"
    and opened: "\<And>opened vis st d r. I opened vis st \<Longrightarrow> d \<in> set (t_dirs T) \<Longrightarrow>
      lookup_existing existing (RootDir # drop (length rootfs) d) = Ok r \<Longrightarrow>
      I (opened @ [d]) vis (add_whiteouts (t_names T d) (t_ino T d) st (old_entries r))"
    and entry: "\<And>opened vis st p st'. I opened vis st \<Longrightarrow> p \<in> set (t_entries T (t_dirs T)) \<Longrightarrow> p \<notin> set vis \<Longrightarrow>
      set vis \<subseteq> set (t_entries T (t_dirs T)) \<Longrightarrow> visit_entry h existing rootfs st p = Ok st' \<Longrightarrow> I opened (vis @ [p]) st'"
  shows "I (t_dirs T) (t_entries T (t_dirs T)) st"
proof -
  from host have walk: "walk_order rootfs T" by (simp add: host_shows_def)
  have entries: "I opened (vis @ ps) st'"
    if "visit_entries h existing rootfs st ps = Ok st'" "I opened vis st" "t_entries T (t_dirs T) = vis @ ps @ qs"
    for opened vis ps qs st st'
    using that
  proof (induction ps arbitrary: vis st)
    case (Cons p ps)
    from Cons.prems(1) obtain st1 where st1: "visit_entry h existing rootfs st p = Ok st1"
      "visit_entries h existing rootfs st1 ps = Ok st'" by auto
    have "p \<notin> set vis" using walk_orderD(4) [OF walk] Cons.prems(3) by auto
    from entry [OF Cons.prems(2) _ this _ st1(1)] Cons.IH [OF st1(2), of "vis @ [p]"] Cons.prems(3) show ?case by auto
  qed simp
  have dirs: "I (ds @ later) (t_entries T (ds @ later)) st'"
    if "visit_dirs h existing rootfs st (map Ok later) = Ok st'" "I ds (t_entries T ds) st" "t_dirs T = ds @ later" for ds later st st'
    using that
  proof (induction later arbitrary: ds st)
    case (Cons d later)
    from Cons.prems(1) obtain st1 where st1: "visit_dir h existing rootfs st d = Ok st1"
      "visit_dirs h existing rootfs st1 (map Ok later) = Ok st'" by auto
    have d: "d \<in> set (t_dirs T)" using Cons.prems(3) by simp
    from visit_dir_opens [OF host d st1(1)] obtain r where
      r: "lookup_existing existing (RootDir # drop (length rootfs) d) = Ok r"
      "visit_entries h existing rootfs (add_whiteouts (t_names T d) (t_ino T d) st (old_entries r)) (dir_paths T d) = Ok st1" by blast
    have "t_entries T (t_dirs T) = t_entries T ds @ dir_paths T d @ t_entries T later"
      by (simp add: Cons.prems(3) t_entries_def)
    from entries [OF r(2) opened [OF Cons.prems(2) d r(1)] this] have "I (ds @ [d]) (t_entries T (ds @ [d])) st1"
      by (simp add: t_entries_snoc)
    from Cons.IH [OF st1(2) this] Cons.prems(3) show ?case by simp
  qed simp
  from host have walked: "h_walk_dirs h rootfs = map Ok (t_dirs T)" by (simp add: host_shows_def)
  from scan obtain st0 where st0: "start_state h existing rootfs = Ok st0"
    "visit_dirs h existing rootfs st0 (map Ok (t_dirs T)) = Ok st" by (auto simp: scan_rootfs_def walked)
  from dirs [OF st0(2), of "[]"] start [OF st0(1)] show ?thesis by (simp add: t_entries_def)
qed

text \<open>A scan that succeeds has looked up every path of the tree.\<close>

lemma scan_lookup:
  assumes "host_shows h open_file rootfs T" and "scan_rootfs h (Some pfs) rootfs = Ok st"
    and "p \<in> set (t_entries T (t_dirs T))"
  shows "\<exists>r. PuzzleFS_lookup pfs (RootDir # drop (length rootfs) p) = Ok r"
proof -
  have "\<forall>p\<in>set (t_entries T (t_dirs T)). \<exists>r. PuzzleFS_lookup pfs (RootDir # drop (length rootfs) p) = Ok r"
    by (rule scan_along [OF assms(1,2), where I = "\<lambda>opened vis st. \<forall>p\<in>set vis. \<exists>r.
          PuzzleFS_lookup pfs (RootDir # drop (length rootfs) p) = Ok r"])
      (auto simp: visit_entry_def rootfs_relative_def split: if_splits)
  with assms(3) show ?thesis by blast
qed

section \<open>Writing the delta\<close>

text \<open>The layer is left out when the image already has it, at any depth.\<close>

definition stacked :: "Inode list \<Rightarrow> Inode list list \<Rightarrow> Inode list list" where
  "stacked inodes layers = (if inodes \<in> set layers then layers else inodes # layers)"

text \<open>The serialized rootfs of a delta, as for a first build.\<close>

definition delta_collision_free :: "host \<Rightarrow> 'o env \<Rightarrow> 'o registry \<Rightarrow> compression \<Rightarrow> path \<Rightarrow> 'o Image \<Rightarrow> string \<Rightarrow> bool" where
  "delta_collision_free h env rg C rootfs im base_layer \<longleftrightarrow>
     (\<forall>m pfs r inodes im' vd m'. rg_empty_manifest rg im = Ok m \<longrightarrow> PuzzleFS_open env im base_layer None = Ok pfs \<longrightarrow>
        Rootfs_from_capnp (pfs_rootfs pfs) = Ok r \<longrightarrow>
        build_delta h env C rootfs im (Some pfs) [] m = Some (Ok (inodes, im', vd, m')) \<longrightarrow>
        rootfs_collision_free env im' (r\<lparr>rf_metadatas := stacked inodes (rf_metadatas r),
          rf_fs_verity_data := insert_all btree_insert (rf_fs_verity_data r) vd\<rparr>))"

lemma add_rootfs_deltaE:
  assumes "add_rootfs_delta h env rg C rootfs im tag base_layer = Some (Ok (desc, im''))"
    and "PuzzleFS_open env im base_layer None = Ok pfs"
  obtains m0 r inodes im' vd m' where "Rootfs_from_capnp (pfs_rootfs pfs) = Ok r"
    "build_delta h env C rootfs im (Some pfs) [] m0 = Some (Ok (inodes, im', vd, m'))"
    "write_rootfs env rg (r\<lparr>rf_metadatas := stacked inodes (rf_metadatas r),
       rf_fs_verity_data := insert_all btree_insert (rf_fs_verity_data r) vd\<rparr>) im' m' tag = Ok (desc, im'')"
    "delta_collision_free h env rg C rootfs im base_layer \<longrightarrow> rootfs_collision_free env im' (r\<lparr>rf_metadatas := stacked inodes (rf_metadatas r),
       rf_fs_verity_data := insert_all btree_insert (rf_fs_verity_data r) vd\<rparr>)"
  using assms
  by (auto simp: add_rootfs_delta_def PuzzleFS_open_rootfs(1) [OF assms(2)] Rootfs_try_from_def stacked_def
      delta_collision_free_def split: outcome.splits)

lemma stacked_wf:
  assumes "Rootfs_from_capnp c = Ok r" and "build_delta h env C rootfs im (Some pfs) [] m0 = Some (Ok (inodes, im', vd, m'))"
    and "\<forall>data. length (env_fs_verity_sha256 env data) = SHA256_BLOCK_SIZE"
  shows "wf_Rootfs (r\<lparr>rf_metadatas := stacked inodes (rf_metadatas r),
       rf_fs_verity_data := insert_all btree_insert (rf_fs_verity_data r) vd\<rparr>)"
proof -
  have "wf_VerityData []" by (simp add: wf_VerityData_def btree_invar_def)
  from build_delta_wf [OF assms(2,3) this] show ?thesis
    using Rootfs_from_capnp_wf [OF assms(1)] wf_VerityData_insert_all [of "rf_fs_verity_data r" vd]
    by (auto simp: wf_Rootfs_def stacked_def wf_VerityData_def)
qed

lemma add_rootfs_delta_opens:
  assumes build: "add_rootfs_delta h env rg C rootfs im tag base_layer = Some (Ok (desc, im''))"
    and base: "PuzzleFS_open env im base_layer None = Ok pfs" "reader_layers (pfs_rootfs pfs) = Ok layers"
    and laws: "\<forall>data. length (env_fs_verity_sha256 env data) = SHA256_BLOCK_SIZE" "messages_ok env" "registry_ok env rg"
      "env_lawful env" and cf: "delta_collision_free h env rg C rootfs im base_layer"
  obtains m0 inodes im' vd m' pfs' where
    "build_delta h env C rootfs im (Some pfs) [] m0 = Some (Ok (inodes, im', vd, m'))" "image_le im' im''"
    "PuzzleFS_open env im'' tag None = Ok pfs'" "pfs_oci pfs' = im''"
    "reader_layers (pfs_rootfs pfs') = Ok (stacked inodes layers)" "\<forall>l\<in>set (stacked inodes layers). length l < 2 ^ 32"
proof -
  from build base(1) obtain m0 r inodes im' vd m' where r: "Rootfs_from_capnp (pfs_rootfs pfs) = Ok r"
    and bd: "build_delta h env C rootfs im (Some pfs) [] m0 = Some (Ok (inodes, im', vd, m'))"
    and wr: "write_rootfs env rg (r\<lparr>rf_metadatas := stacked inodes (rf_metadatas r),
       rf_fs_verity_data := insert_all btree_insert (rf_fs_verity_data r) vd\<rparr>) im' m' tag = Ok (desc, im'')"
    and cf': "delta_collision_free h env rg C rootfs im base_layer \<longrightarrow> rootfs_collision_free env im' (r\<lparr>rf_metadatas := stacked inodes (rf_metadatas r),
       rf_fs_verity_data := insert_all btree_insert (rf_fs_verity_data r) vd\<rparr>)"
    by (rule add_rootfs_deltaE)
  from r base(2) have layers: "rf_metadatas r = layers" and version: "rf_manifest_version r = PUZZLEFS_IMAGE_MANIFEST_VERSION"
    using PuzzleFS_open_rootfs(2) [OF base(1)] by (auto simp: Rootfs_from_capnp_def reader_layers_def)
  let ?r = "r\<lparr>rf_metadatas := stacked inodes (rf_metadatas r),
       rf_fs_verity_data := insert_all btree_insert (rf_fs_verity_data r) vd\<rparr>"
  have "wf_Rootfs ?r" by (rule stacked_wf [OF r bd laws(1)])
  with write_rootfs_opens [OF wr laws(4,2,3) mp [OF cf' cf]] version obtain c where
    "PuzzleFS_open env im'' tag None =
      Ok \<lparr>pfs_oci = im'', pfs_rootfs = c, pfs_verity_data = None, pfs_manifest_verity = None\<rparr>"
    "reader_layers c = Ok (stacked inodes layers)" "image_le im' im''" "fits_Rootfs ?r" using layers by auto
  with bd layers show thesis by (intro that) (auto simp: fits_Rootfs_def)
qed

section \<open>What the image shows\<close>

lemma gone_names: "e \<in> set (b_gone (base_of existing rootfs T) d) \<Longrightarrow> de_name e \<notin> set (t_names T d)"
  by (cases existing) auto

lemma view_over_delta:
  assumes "sorted_wrt (<) (map i_ino inodes)" and "B = base_of existing rootfs T"
    and "\<forall>e\<in>set (gone_entries B (t_dirs T)). new_whiteout (de_ino e) \<in> set inodes"
  shows "view_over (b_gone B) T inodes (layers_view (inodes # layers))"
  unfolding view_over_def
proof (intro conjI ballI impI)
  show "layers_view (inodes # layers) (i_ino i) = Some i" if "i \<in> set inodes" "i_mode i \<noteq> Wht" for i
    using layers_view_top [OF assms(1) that(1), of layers] that(2) by simp
  fix d e
  assume d: "d \<in> set (t_dirs T)" and e: "e \<in> set (b_gone B d)"
  then have "new_whiteout (de_ino e) \<in> set inodes" using assms(3) by (auto simp: gone_entries_def)
  from layers_view_top [OF assms(1) this, of layers] show "layers_view (inodes # layers) (de_ino e) = None"
    by (simp add: new_whiteout_def)
  from e show "de_name e \<notin> set (t_names T d)" unfolding assms(2) by (rule gone_names)
qed

text \<open>
  What a delta writes: a layer that represents the host tree, over the layers of the image unless they
  include it.
\<close>

lemma delta_layer:
  assumes host: "host_shows h open_file rootfs T"
    and base: "B = base_of (Some pfs) rootfs T" "lookups_ok (Some pfs) rootfs T" "links_kept T B" "t_small_over B T"
    and vals: "values_ok h" and cuts: "chunker_cuts h open_file (stream_of (regular_files T)) ds" and store: "store_ok env C im ds"
    and laws: "\<forall>data. length (env_fs_verity_sha256 env data) = SHA256_BLOCK_SIZE" "messages_ok env" "registry_ok env rg"
    and opened: "PuzzleFS_open env im base_layer None = Ok pfs" "wf_pfs pfs" "reader_layers (pfs_rootfs pfs) = Ok layers"
    and build: "add_rootfs_delta h env rg C rootfs im tag base_layer = Some (Ok (desc, im''))"
    and cf: "delta_collision_free h env rg C rootfs im base_layer"
  obtains pfs' nm inodes where "PuzzleFS_open env im'' tag None = Ok pfs'" "wf_pfs pfs'" "pfs_oci pfs' = im''" "image_le im im''"
    "numbering rootfs T nm" "numbers_above rootfs T nm" "\<And>rest. view_over (b_gone B) T inodes (layers_view (inodes # rest))"
    "reader_layers (pfs_rootfs pfs') = Ok (stacked inodes layers)"
    "\<forall>e\<in>set (gone_entries B (t_dirs T)). new_whiteout (de_ino e) \<in> set inodes"
    "\<forall>p\<in>t_paths rootfs T. \<exists>i\<in>set inodes. represents_over (b_gone B) h T nm (image_chunk_data (env, im'', None)) p i"
proof -
  have "env_lawful env" using store by (simp add: store_ok_def)
  with add_rootfs_delta_opens [OF build opened(1,3) laws _ cf] obtain m0 inodes im' vd m' pfs' where
    bd: "build_delta h env C rootfs im (Some pfs) [] m0 = Some (Ok (inodes, im', vd, m'))" and le: "image_le im' im''"
    and pfs': "PuzzleFS_open env im'' tag None = Ok pfs'" "pfs_oci pfs' = im''"
      "reader_layers (pfs_rootfs pfs') = Ok (stacked inodes layers)" "\<forall>l\<in>set (stacked inodes layers). length l < 2 ^ 32"
    by blast
  from build_delta_over [OF host base vals cuts store, of "[]" m0] bd obtain nm where
    nm: "numbering rootfs T nm" "numbers_above rootfs T nm" and le0: "image_le im im'"
    and repr: "\<forall>p\<in>t_paths rootfs T. \<exists>i\<in>set inodes. represents_over (b_gone B) h T nm (image_chunk_data (env, im', None)) p i"
    and wht: "\<forall>e\<in>set (gone_entries B (t_dirs T)). new_whiteout (de_ino e) \<in> set inodes"
    and sorted: "inodes \<noteq> []" "sorted_wrt (<) (map i_ino inodes)"
    by auto
  have "list_all wf_layer layers" using opened(2,3) by (simp add: wf_pfs_def wf_reader_def)
  then have "list_all wf_layer (stacked inodes layers)"
    using sorted pfs'(4) by (auto simp: stacked_def list_all_iff wf_layer_def)
  with pfs'(3) have "wf_pfs pfs'" by (simp add: wf_pfs_def wf_reader_def)
  moreover have "\<forall>p\<in>t_paths rootfs T. \<exists>i\<in>set inodes.
      represents_over (b_gone B) h T nm (image_chunk_data (env, im'', None)) p i"
    using repr represents_mono [OF _ le] by blast
  ultimately show thesis
    using pfs' nm wht image_le_trans [OF le0 le] view_over_delta [OF sorted(2) base(1) wht] by (intro that [of pfs' nm inodes])
qed

end
