(* ===== verification/Snapshot.thy ===== *)
theory Snapshot
  imports Delta_Image
begin

text \<open>
  What can be seen of a host tree and of the names that deltas have removed from it, path by path, without the
  numbers and the chunks that an image uses for it. Two snapshots that one layer shows are the same; this is
  how a layer of an image is told from the layer of another tree.
\<close>

section \<open>Nodes\<close>

text \<open>
  The node at a path: type, owner, permissions, extended attributes and link target; the bytes of a file, the
  numbers of a device, the removed and the present names of a directory.
\<close>

record node =
  n_type :: file_type
  n_uid :: u32
  n_gid :: u32
  n_permissions :: u16
  n_additional :: "InodeAdditional option"
  n_data :: bytes
  n_device :: "u64 \<times> u64"
  n_removed :: "bytes list"
  n_names :: "bytes list"

definition node_at :: "host \<Rightarrow> tree \<Rightarrow> bytes list \<Rightarrow> path \<Rightarrow> node" where
  "node_at h T rn p =
     \<lparr>n_type = t_type T p, n_uid = md_uid (t_md T p), n_gid = md_gid (t_md T p),
      n_permissions = ucast (md_mode (t_md T p) AND 0xFFF), n_additional = t_additional T p,
      n_data = (if t_type T p = FtFile then t_data T p else []),
      n_device = (if t_type T p \<in> {FtChar, FtBlock} then (h_major h (md_rdev (t_md T p)), h_minor h (md_rdev (t_md T p)))
        else (0, 0)),
      n_removed = (if t_type T p = FtDir then rn else []), n_names = (if t_type T p = FtDir then t_names T p else [])\<rparr>"

text \<open>The inode shows the node: all attributes, and the bytes that reads return, with or without fs-verity.\<close>

definition shows_node :: "'o env \<Rightarrow> 'o Image \<Rightarrow> VerityData option \<Rightarrow> Inode \<Rightarrow> node \<Rightarrow> bool" where
  "shows_node env im vd i n \<longleftrightarrow>
     i_uid i = n_uid n \<and> i_gid i = n_gid n \<and> i_permissions i = n_permissions n \<and> i_additional i = n_additional n \<and>
     (case n_type n of
        FtDir \<Rightarrow> map_ok (map de_name) (dir_entries i) = Ok (n_removed n @ n_names n)
      | FtFile \<Rightarrow> file_len i = Ok (of_nat (length (n_data n))) \<and> reads_with env im vd i (n_data n)
      | FtFifo \<Rightarrow> i_mode i = Fifo
      | FtChar \<Rightarrow> i_mode i = Chr (fst (n_device n)) (snd (n_device n))
      | FtBlock \<Rightarrow> i_mode i = Blk (fst (n_device n)) (snd (n_device n))
      | FtSymlink \<Rightarrow> i_mode i = Lnk
      | FtSocket \<Rightarrow> i_mode i = Sock
      | FtOther \<Rightarrow> i_mode i = Unknown)"

lemma represents_file_len:
  assumes "represents_over gone h T nm cd p i" and "t_type T p = FtFile" and "length (t_data T p) < 2 ^ 64"
  shows "file_len i = Ok (of_nat (length (t_data T p)))"
proof -
  from assms(1,2) obtain cs where cs: "i_mode i = InodeMode.File cs" "chunks_readable cd cs" "file_bytes cd cs = t_data T p"
    by (auto simp: represents_over_def)
  have "chunks_total cs = length (t_data T p)" using length_file_bytes [OF cs(2)] cs(3) by simp
  with cs(1) assms(3) sum_u64_Ok [of 0 "map fc_len cs"] show ?thesis by (simp add: file_len_def comp_def chunks_total_def)
qed

lemma represents_shows:
  assumes "represents_over gone h T nm cd p i" and "t_type T p = FtDir \<longrightarrow> map de_name (gone p) = rn"
    and "t_type T p = FtFile \<longrightarrow> length (t_data T p) < 2 ^ 64 \<and> reads_with env im vd i (t_data T p)"
  shows "shows_node env im vd i (node_at h T rn p)"
  using assms represents_file_len [OF assms(1)]
  by (cases "t_type T p") (auto simp: represents_over_def shows_node_def node_at_def dir_entries_def comp_def)

section \<open>Snapshots\<close>

record snapshot =
  sn_host :: host
  sn_root :: path
  sn_tree :: tree
  sn_removed :: "bytes list \<Rightarrow> bytes list"

definition sn_at :: "snapshot \<Rightarrow> bytes list \<Rightarrow> path" where
  "sn_at s ns = sn_root s @ map Normal ns"

definition sn_has :: "snapshot \<Rightarrow> bytes list \<Rightarrow> bool" where
  "sn_has s ns \<longleftrightarrow> sn_at s ns \<in> t_paths (sn_root s) (sn_tree s)"

definition sn_node :: "snapshot \<Rightarrow> bytes list \<Rightarrow> node" where
  "sn_node s ns = node_at (sn_host s) (sn_tree s) (sn_removed s ns) (sn_at s ns)"

text \<open>The same paths, with the same nodes and the same hard links.\<close>

definition same_snapshot :: "snapshot \<Rightarrow> snapshot \<Rightarrow> bool" where
  "same_snapshot s s' \<longleftrightarrow>
     (\<forall>ns. sn_has s ns \<longleftrightarrow> sn_has s' ns) \<and> (\<forall>ns. sn_has s ns \<longrightarrow> sn_node s ns = sn_node s' ns) \<and>
     (\<forall>ns ns'. sn_has s ns \<longrightarrow> sn_has s ns' \<longrightarrow>
        (t_ino (sn_tree s) (sn_at s ns) = t_ino (sn_tree s) (sn_at s ns') \<longleftrightarrow>
         t_ino (sn_tree s') (sn_at s' ns) = t_ino (sn_tree s') (sn_at s' ns')))"

lemma same_snapshot_sym: "same_snapshot s s' \<Longrightarrow> same_snapshot s' s"
  by (auto simp: same_snapshot_def)

section \<open>The layer of a snapshot\<close>

definition layer_shows :: "(BlobRef \<Rightarrow> bytes option) \<Rightarrow> Inode list \<Rightarrow> snapshot \<Rightarrow> bool" where
  "layer_shows cd layer s \<longleftrightarrow>
     (\<exists>nm gone. walk_order (sn_root s) (sn_tree s) \<and> numbering (sn_root s) (sn_tree s) nm \<and>
        view_over gone (sn_tree s) layer (layers_view [layer]) \<and>
        (\<forall>p\<in>t_paths (sn_root s) (sn_tree s). \<exists>i\<in>set layer. represents_over gone (sn_host s) (sn_tree s) nm cd p i) \<and>
        (\<forall>ns. sn_at s ns \<in> set (t_dirs (sn_tree s)) \<longrightarrow> map de_name (gone (sn_at s ns)) = sn_removed s ns))"

lemma layer_shows_mono:
  assumes "layer_shows (image_chunk_data (env, im, None)) layer s" and "image_le im im'"
  shows "layer_shows (image_chunk_data (env, im', None)) layer s"
proof -
  from assms(1) obtain nm gone where s: "walk_order (sn_root s) (sn_tree s)" "numbering (sn_root s) (sn_tree s) nm"
    "view_over gone (sn_tree s) layer (layers_view [layer])"
    "\<forall>ns. sn_at s ns \<in> set (t_dirs (sn_tree s)) \<longrightarrow> map de_name (gone (sn_at s ns)) = sn_removed s ns"
    and r: "\<forall>p\<in>t_paths (sn_root s) (sn_tree s). \<exists>i\<in>set layer.
      represents_over gone (sn_host s) (sn_tree s) nm (image_chunk_data (env, im, None)) p i" unfolding layer_shows_def by blast
  from r have "\<forall>p\<in>t_paths (sn_root s) (sn_tree s). \<exists>i\<in>set layer.
      represents_over gone (sn_host s) (sn_tree s) nm (image_chunk_data (env, im', None)) p i"
    using represents_mono [OF _ assms(2)] by meson
  with s show ?thesis unfolding layer_shows_def by blast
qed

lemma view_over_split:
  assumes V: "view_over gone T layer V" and d: "p \<in> set (t_dirs T)" and "t_type T p = FtDir"
    and repr: "\<forall>q\<in>t_paths rootfs T. \<exists>i\<in>set layer. represents_over gone h T nm cd q i"
    and i: "represents_over gone h T nm cd p i"
  shows "gone p = filter (\<lambda>e. V (de_ino e) = None) (old_entries (Some i))"
    "t_names T p = map de_name (filter (\<lambda>e. V (de_ino e) \<noteq> None) (old_entries (Some i)))"
proof -
  have entries: "old_entries (Some i) = gone p @ map (\<lambda>n. \<lparr>de_ino = nm (p @ [Normal n]), de_name = n\<rparr>) (t_names T p)"
    using represents_entries [OF i] assms(3) by simp
  have "V (de_ino e) = None" if "e \<in> set (gone p)" for e using V d that by (auto simp: view_over_def)
  moreover have "V (nm (p @ [Normal n])) \<noteq> None" if "n \<in> set (t_names T p)" for n
  proof -
    have "p @ [Normal n] \<in> t_paths rootfs T" using d that by (auto simp: t_entries_iff)
    with repr obtain j where j: "j \<in> set layer" "represents_over gone h T nm cd (p @ [Normal n]) j" by blast
    then have "V (i_ino j) = Some j" using V represents_not_whiteout by (auto simp: view_over_def)
    with j(2) show ?thesis by (simp add: represents_over_def)
  qed
  ultimately have "filter (\<lambda>e. V (de_ino e) = None) (gone p) = gone p" "filter (\<lambda>e. V (de_ino e) \<noteq> None) (gone p) = []"
    "filter (\<lambda>n. V (nm (p @ [Normal n])) = None) (t_names T p) = []"
    "filter (\<lambda>n. V (nm (p @ [Normal n])) \<noteq> None) (t_names T p) = t_names T p"
    by (auto simp: filter_empty_conv filter_id_conv simp del: not_None_eq)
  then show "gone p = filter (\<lambda>e. V (de_ino e) = None) (old_entries (Some i))"
    "t_names T p = map de_name (filter (\<lambda>e. V (de_ino e) \<noteq> None) (old_entries (Some i)))"
    unfolding entries by (simp_all add: filter_map comp_def del: not_None_eq)
qed

text \<open>The paths of the snapshot are those of the layer, and a node is determined by its inode.\<close>

lemma layer_paths:
  assumes "layer_shows cd layer s"
  shows "sn_has s ns \<longleftrightarrow> (\<exists>i. path_to (layers_view [layer]) ns i)"
proof -
  from assms obtain nm gone where s: "walk_order (sn_root s) (sn_tree s)" "numbering (sn_root s) (sn_tree s) nm"
    "view_over gone (sn_tree s) layer (layers_view [layer])"
    "\<forall>p\<in>t_paths (sn_root s) (sn_tree s). \<exists>i\<in>set layer. represents_over gone (sn_host s) (sn_tree s) nm cd p i"
    unfolding layer_shows_def by blast
  show ?thesis
    unfolding layer_path_to_over [OF s] sn_has_def sn_at_def using s(4) by blast
qed

definition node_of :: "(BlobRef \<Rightarrow> bytes option) \<Rightarrow> (Ino \<Rightarrow> Inode option) \<Rightarrow> Inode \<Rightarrow> node" where
  "node_of cd V i =
     \<lparr>n_type = (case i_mode i of InodeMode.Dir _ \<Rightarrow> FtDir | InodeMode.File _ \<Rightarrow> FtFile | Fifo \<Rightarrow> FtFifo | Chr _ _ \<Rightarrow> FtChar
        | Blk _ _ \<Rightarrow> FtBlock | Lnk \<Rightarrow> FtSymlink | Sock \<Rightarrow> FtSocket | _ \<Rightarrow> FtOther),
      n_uid = i_uid i, n_gid = i_gid i, n_permissions = i_permissions i, n_additional = i_additional i,
      n_data = (case i_mode i of InodeMode.File cs \<Rightarrow> file_bytes cd cs | _ \<Rightarrow> []),
      n_device = (case i_mode i of Chr a b \<Rightarrow> (a, b) | Blk a b \<Rightarrow> (a, b) | _ \<Rightarrow> (0, 0)),
      n_removed = map de_name (filter (\<lambda>e. V (de_ino e) = None) (old_entries (Some i))),
      n_names = map de_name (filter (\<lambda>e. V (de_ino e) \<noteq> None) (old_entries (Some i)))\<rparr>"

lemma layer_node:
  assumes "layer_shows cd layer s" and path: "path_to (layers_view [layer]) ns i"
  shows "sn_node s ns = node_of cd (layers_view [layer]) i"
proof -
  let ?T = "sn_tree s" and ?p = "sn_at s ns" and ?V = "layers_view [layer]"
  from assms(1) obtain nm gone where s: "walk_order (sn_root s) ?T" "numbering (sn_root s) ?T nm" "view_over gone ?T layer ?V"
    "\<forall>p\<in>t_paths (sn_root s) ?T. \<exists>i\<in>set layer. represents_over gone (sn_host s) ?T nm cd p i"
    and rn: "\<forall>ns. sn_at s ns \<in> set (t_dirs ?T) \<longrightarrow> map de_name (gone (sn_at s ns)) = sn_removed s ns"
    unfolding layer_shows_def by blast
  from path have p: "?p \<in> t_paths (sn_root s) ?T" and r: "represents_over gone (sn_host s) ?T nm cd ?p i"
    unfolding layer_path_to_over [OF s] sn_at_def by blast+
  have dir: "?p \<in> set (t_dirs ?T) \<longleftrightarrow> t_type ?T ?p = FtDir" by (rule walk_orderD(7) [OF s(1) p])
  have names: "sn_removed s ns = map de_name (filter (\<lambda>e. ?V (de_ino e) = None) (old_entries (Some i)))"
    "t_names ?T ?p = map de_name (filter (\<lambda>e. ?V (de_ino e) \<noteq> None) (old_entries (Some i)))" if "t_type ?T ?p = FtDir"
    using view_over_split [OF s(3) _ that s(4) r] dir that rn by metis+
  have none: "old_entries (Some i) = []" if "t_type ?T ?p \<noteq> FtDir" using represents_entries [OF r] that by simp
  show ?thesis
    using r names none unfolding sn_node_def node_at_def node_of_def
    by (cases "t_type ?T ?p") (auto simp: represents_over_def simp del: layers_view.simps)
qed

lemma layer_links:
  assumes "layer_shows cd layer s" and "path_to (layers_view [layer]) ns i" and "path_to (layers_view [layer]) ns' i'"
  shows "t_ino (sn_tree s) (sn_at s ns) = t_ino (sn_tree s) (sn_at s ns') \<longleftrightarrow> i_ino i = i_ino i'"
proof -
  from assms(1) obtain nm gone where s: "walk_order (sn_root s) (sn_tree s)" "numbering (sn_root s) (sn_tree s) nm"
    "view_over gone (sn_tree s) layer (layers_view [layer])"
    "\<forall>p\<in>t_paths (sn_root s) (sn_tree s). \<exists>i\<in>set layer. represents_over gone (sn_host s) (sn_tree s) nm cd p i"
    unfolding layer_shows_def by blast
  from assms(2,3) have "sn_at s ns \<in> t_paths (sn_root s) (sn_tree s)" "i_ino i = nm (sn_at s ns)"
    "sn_at s ns' \<in> t_paths (sn_root s) (sn_tree s)" "i_ino i' = nm (sn_at s ns')"
    unfolding layer_path_to_over [OF s] sn_at_def represents_over_def by blast+
  with s(2) show ?thesis unfolding numbering_def by metis
qed

lemma layer_shows_same:
  assumes "layer_shows cd layer s" and "layer_shows cd layer s'"
  shows "same_snapshot s s'"
  unfolding same_snapshot_def
proof (intro conjI allI impI)
  show "sn_has s ns \<longleftrightarrow> sn_has s' ns" for ns unfolding assms [THEN layer_paths] ..
  show "sn_node s ns = sn_node s' ns" if has: "sn_has s ns" for ns
  proof -
    from has obtain i where "path_to (layers_view [layer]) ns i" unfolding layer_paths [OF assms(1)] ..
    from layer_node [OF assms(1) this] layer_node [OF assms(2) this] show ?thesis by simp
  qed
  show "t_ino (sn_tree s) (sn_at s ns) = t_ino (sn_tree s) (sn_at s ns') \<longleftrightarrow>
      t_ino (sn_tree s') (sn_at s' ns) = t_ino (sn_tree s') (sn_at s' ns')" if "sn_has s ns" "sn_has s ns'" for ns ns'
  proof -
    from that obtain i i' where "path_to (layers_view [layer]) ns i" "path_to (layers_view [layer]) ns' i'"
      unfolding layer_paths [OF assms(1)] by blast
    from layer_links [OF assms(1) this] layer_links [OF assms(2) this] show ?thesis by simp
  qed
qed

end
