(* ===== verification/Delta_History.thy ===== *)
theory Delta_History
  imports Snapshot
begin

text \<open>
  Images with several layers. The state of an image is the host tree it shows and, for every directory,
  the names that were removed since the first layer; a delta is described on that state alone. A history
  is a first build followed by deltas, and by rule induction every image of a history shows its last tree,
  while each layer that is covered shows one of the earlier states.
\<close>

section \<open>The tree an image shows\<close>

text \<open>
  The layers of \<open>pfs\<close> show the tree \<open>T\<close> with numbers \<open>nm\<close>; \<open>gone\<close> are the entries that are whited out. Their
  numbers are used by no other entry and occur in some layer.
\<close>

definition image_tree ::
    "'o env \<Rightarrow> 'o PuzzleFS \<Rightarrow> host \<Rightarrow> path \<Rightarrow> tree \<Rightarrow> (path \<Rightarrow> Ino) \<Rightarrow> (path \<Rightarrow> DirEnt list) \<Rightarrow> Inode list \<Rightarrow> Inode list list \<Rightarrow> bool" where
  "image_tree env pfs h rootfs T nm gone inodes layers \<longleftrightarrow>
     wf_pfs pfs \<and> reader_layers (pfs_rootfs pfs) = Ok layers \<and> walk_order rootfs T \<and>
     numbering rootfs T nm \<and> numbers_above rootfs T nm \<and> view_over gone T inodes (pfs_view pfs) \<and>
     (\<forall>p\<in>t_paths rootfs T. \<exists>i\<in>set inodes.
        represents_over gone h T nm (image_chunk_data (env, pfs_oci pfs, None)) p i) \<and>
     distinct (map de_ino (concat (map gone (t_dirs T)))) \<and>
     (\<forall>e\<in>set (concat (map gone (t_dirs T))). 1 < unat (de_ino e) \<and> de_ino e \<in> i_ino ` set (concat layers))"

lemma image_treeD:
  assumes "image_tree env pfs h rootfs T nm gone inodes layers"
  shows "wf_pfs pfs" "reader_layers (pfs_rootfs pfs) = Ok layers" "walk_order rootfs T" "numbering rootfs T nm"
    "numbers_above rootfs T nm" "view_over gone T inodes (pfs_view pfs)"
    "\<forall>p\<in>t_paths rootfs T. \<exists>i\<in>set inodes. represents_over gone h T nm (image_chunk_data (env, pfs_oci pfs, None)) p i"
    "distinct (map de_ino (concat (map gone (t_dirs T))))"
    "\<And>d e. d \<in> set (t_dirs T) \<Longrightarrow> e \<in> set (gone d) \<Longrightarrow> 1 < unat (de_ino e) \<and> de_ino e \<in> i_ino ` set (concat layers)"
  using assms unfolding image_tree_def by (blast | force)+

lemma image_tree_path:
  assumes "image_tree env pfs h rootfs T nm gone inodes layers"
  shows "path_to (pfs_view pfs) ns i \<longleftrightarrow> rootfs @ map Normal ns \<in> t_paths rootfs T \<and> i \<in> set inodes \<and>
    represents_over gone h T nm (image_chunk_data (env, pfs_oci pfs, None)) (rootfs @ map Normal ns) i"
  by (rule layer_path_to_over [OF image_treeD(3,4,6,7) [OF assms]])

lemma image_tree_view:
  assumes "image_tree env pfs h rootfs T nm gone inodes layers" and "p \<in> t_paths rootfs T"
  shows "pfs_view pfs (nm p) \<noteq> None" "nm p \<in> i_ino ` set (concat layers)"
proof -
  from image_treeD(7) [OF assms(1)] assms(2) obtain i where i: "i \<in> set inodes"
    "represents_over gone h T nm (image_chunk_data (env, pfs_oci pfs, None)) p i" by blast
  then have "i_ino i = nm p" "i_mode i \<noteq> Wht" using represents_not_whiteout by (auto simp: represents_over_def)
  with i(1) image_treeD(6) [OF assms(1)] have v: "pfs_view pfs (nm p) = Some i" unfolding view_over_def by metis
  then show "pfs_view pfs (nm p) \<noteq> None" by simp
  from v image_treeD(2) [OF assms(1)] have "layers_view layers (nm p) = Some i"
    by (simp add: pfs_view_def reader_view_def)
  from layers_view_mem [OF this] \<open>i_ino i = nm p\<close> show "nm p \<in> i_ino ` set (concat layers)" by force
qed

lemma image_tree_gone:
  assumes "image_tree env pfs h rootfs T nm gone inodes layers" and "d \<in> set (t_dirs T)" and "e \<in> set (gone d)"
  shows "pfs_view pfs (de_ino e) = None" "de_name e \<notin> set (t_names T d)"
  using image_treeD(6) [OF assms(1)] assms(2,3) unfolding view_over_def by blast+

text \<open>A path runs into a removed entry.\<close>

definition hits_removed :: "path \<Rightarrow> tree \<Rightarrow> (path \<Rightarrow> DirEnt list) \<Rightarrow> bytes list \<Rightarrow> bool" where
  "hits_removed rootfs T gone ns \<longleftrightarrow>
     (\<exists>ms n rest. ns = ms @ n # rest \<and> rootfs @ map Normal ms \<in> set (t_dirs T) \<and>
        n \<in> de_name ` set (gone (rootfs @ map Normal ms)))"

lemma t_paths_parent:
  assumes "walk_order rootfs T" and "rootfs @ map Normal (ns @ [n]) \<in> t_paths rootfs T"
  shows "rootfs @ map Normal ns \<in> set (t_dirs T)" "n \<in> set (t_names T (rootfs @ map Normal ns))"
proof -
  from assms(2) obtain d m where "d \<in> set (t_dirs T)" "m \<in> set (t_names T d)" "rootfs @ map Normal (ns @ [n]) = d @ [Normal m]"
    by (auto simp: t_entries_iff)
  then show "rootfs @ map Normal ns \<in> set (t_dirs T)" "n \<in> set (t_names T (rootfs @ map Normal ns))" by auto
qed

lemma image_tree_named:
  assumes "image_tree env pfs h rootfs T nm gone inodes layers" and "rootfs @ map Normal ns \<in> t_paths rootfs T"
    and "represents_over gone h T nm cd (rootfs @ map Normal ns) d" and "\<not> hits_removed rootfs T gone (ns @ [n])"
  shows "entry_named d n = (if rootfs @ map Normal (ns @ [n]) \<in> t_paths rootfs T
    then Some \<lparr>de_ino = nm (rootfs @ map Normal (ns @ [n])), de_name = n\<rparr> else None)"
proof -
  let ?p = "rootfs @ map Normal ns"
  note walk = image_treeD(3) [OF assms(1)]
  have child: "rootfs @ map Normal (ns @ [n]) \<in> t_paths rootfs T \<longleftrightarrow> ?p \<in> set (t_dirs T) \<and> n \<in> set (t_names T ?p)"
    using t_paths_parent [OF walk, of ns n] by (auto simp: t_entries_iff)
  have dir: "?p \<in> set (t_dirs T) \<longleftrightarrow> t_type T ?p = FtDir" using walk_orderD(7) [OF walk assms(2)] .
  show ?thesis
  proof (cases "t_type T ?p = FtDir")
    case True
    with assms(4) dir have "\<forall>e\<in>set (gone ?p). de_name e \<noteq> n" unfolding hits_removed_def by blast
    then show ?thesis
      unfolding child entry_named_entries represents_entries [OF assms(3)]
      using True dir by (simp add: find_append_none find_names)
  next
    case False
    then show ?thesis unfolding child entry_named_entries represents_entries [OF assms(3)] using dir by simp
  qed
qed

lemma image_tree_lookup:
  assumes "image_tree env pfs h rootfs T nm gone inodes layers" and "\<not> hits_removed rootfs T gone ns"
  shows "\<exists>r. PuzzleFS_lookup pfs (abs_path ns) = Ok r \<and>
    (case r of Some i \<Rightarrow> rootfs @ map Normal ns \<in> t_paths rootfs T \<and>
        represents_over gone h T nm (image_chunk_data (env, pfs_oci pfs, None)) (rootfs @ map Normal ns) i
     | None \<Rightarrow> rootfs @ map Normal ns \<notin> t_paths rootfs T)"
  using assms(2)
proof (induction ns rule: rev_induct)
  case Nil
  from image_tree_path [OF assms(1), of "[]"] image_treeD(7) [OF assms(1)] obtain i where
    "path_to (pfs_view pfs) [] i" "represents_over gone h T nm (image_chunk_data (env, pfs_oci pfs, None)) rootfs i" by auto
  with pfs.lookup_path_iff [OF image_treeD(1) [OF assms(1)], of "[]" i] show ?case
    by (intro exI [of _ "Some i"]) (simp add: PuzzleFS_lookup_def)
next
  case (snoc n ns)
  have "\<not> hits_removed rootfs T gone ns" using snoc.prems unfolding hits_removed_def by (metis append.assoc append_Cons)
  from snoc.IH [OF this] obtain r where r: "PuzzleFS_lookup pfs (abs_path ns) = Ok r"
    and cases: "case r of Some i \<Rightarrow> rootfs @ map Normal ns \<in> t_paths rootfs T \<and>
        represents_over gone h T nm (image_chunk_data (env, pfs_oci pfs, None)) (rootfs @ map Normal ns) i
     | None \<Rightarrow> rootfs @ map Normal ns \<notin> t_paths rootfs T" by blast
  have next': "PuzzleFS_lookup pfs (abs_path (ns @ [n])) = (case r of None \<Rightarrow> Ok None
    | Some d \<Rightarrow> (case entry_named d n of None \<Rightarrow> Ok None
       | Some e \<Rightarrow> and_then (PuzzleFS_find_inode pfs (de_ino e)) (\<lambda>i. Ok (Some i))))"
    using r by (auto simp: PuzzleFS_lookup_def lookup_path_def abs_path_def list_get_def lookup_loop_snoc)
  show ?case
  proof (cases r)
    case None
    have "rootfs @ map Normal (ns @ [n]) \<notin> t_paths rootfs T"
      using t_paths_parent(1) [OF image_treeD(3) [OF assms(1)], of ns n] walk_orderD(6) [OF image_treeD(3) [OF assms(1)]]
        cases None by auto
    with next' None show ?thesis by (intro exI [of _ None]) simp
  next
    case (Some d)
    let ?q = "rootfs @ map Normal (ns @ [n])"
    from cases Some have d: "rootfs @ map Normal ns \<in> t_paths rootfs T"
      "represents_over gone h T nm (image_chunk_data (env, pfs_oci pfs, None)) (rootfs @ map Normal ns) d" by simp_all
    note named = image_tree_named [OF assms(1) d snoc.prems]
    show ?thesis
    proof (cases "?q \<in> t_paths rootfs T")
      case True
      with image_tree_view(1) [OF assms(1)] obtain i where i: "pfs_view pfs (nm ?q) = Some i" by blast
      have "PuzzleFS_lookup pfs (abs_path (ns @ [n])) = Ok (Some i)"
        using next' Some named True i pfs.find_view [OF image_treeD(1) [OF assms(1)], of "nm ?q"] by simp
      moreover from this have "path_to (pfs_view pfs) (ns @ [n]) i"
        using pfs.lookup_path_iff [OF image_treeD(1) [OF assms(1)]] by (simp add: PuzzleFS_lookup_def)
      then have "represents_over gone h T nm (image_chunk_data (env, pfs_oci pfs, None)) ?q i"
        unfolding image_tree_path [OF assms(1)] by blast
      ultimately show ?thesis using True by (intro exI [of _ "Some i"]) simp
    next
      case False
      with next' Some named show ?thesis by (intro exI [of _ None]) simp
    qed
  qed
qed

text \<open>What the inode of a path shows, and that a removed name is not found.\<close>

lemma tree_lookup_iff:
  assumes "image_tree env pfs h rootfs T nm gone inodes layers"
  shows "PuzzleFS_lookup pfs (abs_path ns) = Ok (Some i) \<longleftrightarrow> rootfs @ map Normal ns \<in> t_paths rootfs T \<and> i \<in> set inodes \<and>
    represents_over gone h T nm (image_chunk_data (env, pfs_oci pfs, None)) (rootfs @ map Normal ns) i"
  unfolding PuzzleFS_lookup_def pfs.lookup_path_iff [OF image_treeD(1) [OF assms]] by (rule image_tree_path [OF assms])

lemma tree_lookup_links:
  assumes "image_tree env pfs h rootfs T nm gone inodes layers"
    and "PuzzleFS_lookup pfs (abs_path ns) = Ok (Some i)" and "PuzzleFS_lookup pfs (abs_path ns') = Ok (Some i')"
  shows "i_ino i = i_ino i' \<longleftrightarrow> t_ino T (rootfs @ map Normal ns) = t_ino T (rootfs @ map Normal ns')"
proof -
  from assms(2,3) have "rootfs @ map Normal ns \<in> t_paths rootfs T" "i_ino i = nm (rootfs @ map Normal ns)"
    "rootfs @ map Normal ns' \<in> t_paths rootfs T" "i_ino i' = nm (rootfs @ map Normal ns')"
    unfolding tree_lookup_iff [OF assms(1)] represents_over_def by blast+
  with image_treeD(4) [OF assms(1)] show ?thesis unfolding numbering_def by metis
qed

lemma tree_node_shown:
  assumes host: "host_shows h open_file rootfs T" and tree: "image_tree env pfs h rootfs T nm gone inodes layers"
    and rn: "\<forall>ms. rootfs @ map Normal ms \<in> set (t_dirs T) \<longrightarrow> map de_name (gone (rootfs @ map Normal ms)) = rn ms"
    and p: "rootfs @ map Normal ns \<in> t_paths rootfs T"
    and r: "represents_over gone h T nm (image_chunk_data (env, pfs_oci pfs, None)) (rootfs @ map Normal ns) i"
  shows "shows_node env (pfs_oci pfs) None i (node_at h T (rn ns) (rootfs @ map Normal ns))"
proof (rule represents_shows [OF r])
  let ?p = "rootfs @ map Normal ns"
  show "t_type T ?p = FtDir \<longrightarrow> map de_name (gone ?p) = rn ns"
    using rn walk_orderD(7) [OF image_treeD(3) [OF tree] p] by simp
  have "length (t_data T ?p) < 2 ^ 64" if "t_type T ?p = FtFile"
    using host_showsD(4) [OF host p that] unat_u64_bound by metis
  then show "t_type T ?p = FtFile \<longrightarrow> length (t_data T ?p) < 2 ^ 64 \<and> reads_as env (pfs_oci pfs) i (t_data T ?p)"
    using represents_reads [OF r] by blast
qed

lemma find_append_hit: "\<exists>x\<in>set xs. P x \<Longrightarrow> \<exists>x\<in>set xs. List.find P (xs @ ys) = Some x"
  by (induction xs) auto

lemma removed_lookup:
  assumes tree: "image_tree env pfs h rootfs T nm gone inodes layers"
    and d: "rootfs @ map Normal ms \<in> set (t_dirs T)" and n: "n \<in> de_name ` set (gone (rootfs @ map Normal ms))"
  shows "PuzzleFS_lookup pfs (abs_path (ms @ [n])) = Err (from_errno ENOENT)"
proof -
  let ?d = "rootfs @ map Normal ms"
  note walk = image_treeD(3) [OF tree]
  from walk_orderD(6) [OF walk d] image_treeD(7) [OF tree] obtain i where i: "i \<in> set inodes"
    "represents_over gone h T nm (image_chunk_data (env, pfs_oci pfs, None)) ?d i" by blast
  with tree_lookup_iff [OF tree, of ms i] walk_orderD(6) [OF walk d]
  have l: "PuzzleFS_lookup pfs (abs_path ms) = Ok (Some i)" by blast
  have "t_type T ?d = FtDir" using walk_orderD(7) [OF walk walk_orderD(6) [OF walk d]] d by simp
  with represents_entries [OF i(2)] have "entry_named i n = List.find (\<lambda>e. de_name e = n)
      (gone ?d @ map (\<lambda>n. \<lparr>de_ino = nm (?d @ [Normal n]), de_name = n\<rparr>) (t_names T ?d))"
    by (simp add: entry_named_entries)
  with find_append_hit [of "gone ?d" "\<lambda>e. de_name e = n"] n obtain e where
    e: "entry_named i n = Some e" "e \<in> set (gone ?d)" by fastforce
  have "PuzzleFS_find_inode pfs (de_ino e) = Err (from_errno ENOENT)"
    using pfs.find_view [OF image_treeD(1) [OF tree], of "de_ino e"] image_tree_gone(1) [OF tree d e(2)] by simp
  with l e(1) show ?thesis
    by (auto simp: PuzzleFS_lookup_def lookup_path_def abs_path_def list_get_def lookup_loop_snoc)
qed

section \<open>Deltas, on trees\<close>

text \<open>
  The name \<open>n\<close> of a directory that both trees have is in the old one only; \<open>rn\<close> are the names that had been
  removed before.
\<close>

definition removed :: "path \<Rightarrow> tree \<Rightarrow> path \<Rightarrow> tree \<Rightarrow> bytes list \<Rightarrow> bool" where
  "removed rootfs T rootfs' T' ns \<longleftrightarrow>
     (\<exists>ms n. ns = ms @ [n] \<and> rootfs @ map Normal ns \<in> t_paths rootfs T \<and>
        rootfs' @ map Normal ms \<in> set (t_dirs T') \<and> n \<notin> set (t_names T' (rootfs' @ map Normal ms)))"

definition removed_names :: "path \<Rightarrow> tree \<Rightarrow> (bytes list \<Rightarrow> bytes list) \<Rightarrow> path \<Rightarrow> tree \<Rightarrow> bytes list \<Rightarrow> bytes list" where
  "removed_names rootfs T rn rootfs' T' ms =
     (if rootfs @ map Normal ms \<in> set (t_dirs T)
      then filter (\<lambda>n. n \<notin> set (t_names T' (rootfs' @ map Normal ms))) (rn ms @ t_names T (rootfs @ map Normal ms))
      else [])"

text \<open>
  Which changes of a tree a delta can express: a removed name does not come back, hard links that are kept
  stay links of one file, and a removed path has no link that is kept or removed too.
\<close>

definition delta_ok :: "path \<Rightarrow> tree \<Rightarrow> (bytes list \<Rightarrow> bytes list) \<Rightarrow> path \<Rightarrow> tree \<Rightarrow> bool" where
  "delta_ok rootfs T rn rootfs' T' \<longleftrightarrow>
     (\<forall>ms n. rootfs' @ map Normal (ms @ [n]) \<in> t_paths rootfs' T' \<longrightarrow> rootfs @ map Normal ms \<in> set (t_dirs T) \<longrightarrow>
        n \<notin> set (rn ms)) \<and>
     (\<forall>ns ns'. rootfs @ map Normal ns \<in> t_paths rootfs T \<longrightarrow> rootfs @ map Normal ns' \<in> t_paths rootfs T \<longrightarrow>
        t_ino T (rootfs @ map Normal ns) = t_ino T (rootfs @ map Normal ns') \<longrightarrow>
        (rootfs' @ map Normal ns \<in> t_paths rootfs' T' \<longrightarrow> rootfs' @ map Normal ns' \<in> t_paths rootfs' T' \<longrightarrow>
           t_ino T' (rootfs' @ map Normal ns) = t_ino T' (rootfs' @ map Normal ns')) \<and>
        (removed rootfs T rootfs' T' ns \<longrightarrow>
           rootfs' @ map Normal ns' \<in> t_paths rootfs' T' \<or> removed rootfs T rootfs' T' ns' \<longrightarrow> ns = ns'))"

lemma delta_okD:
  assumes "delta_ok rootfs T rn rootfs' T'"
  shows "\<And>ms n. rootfs' @ map Normal (ms @ [n]) \<in> t_paths rootfs' T' \<Longrightarrow> rootfs @ map Normal ms \<in> set (t_dirs T) \<Longrightarrow>
      n \<notin> set (rn ms)"
    "\<And>ns ns'. rootfs @ map Normal ns \<in> t_paths rootfs T \<Longrightarrow> rootfs @ map Normal ns' \<in> t_paths rootfs T \<Longrightarrow>
      t_ino T (rootfs @ map Normal ns) = t_ino T (rootfs @ map Normal ns') \<Longrightarrow>
      rootfs' @ map Normal ns \<in> t_paths rootfs' T' \<Longrightarrow> rootfs' @ map Normal ns' \<in> t_paths rootfs' T' \<Longrightarrow>
      t_ino T' (rootfs' @ map Normal ns) = t_ino T' (rootfs' @ map Normal ns')"
    "\<And>ns ns'. rootfs @ map Normal ns \<in> t_paths rootfs T \<Longrightarrow> rootfs @ map Normal ns' \<in> t_paths rootfs T \<Longrightarrow>
      t_ino T (rootfs @ map Normal ns) = t_ino T (rootfs @ map Normal ns') \<Longrightarrow> removed rootfs T rootfs' T' ns \<Longrightarrow>
      rootfs' @ map Normal ns' \<in> t_paths rootfs' T' \<or> removed rootfs T rootfs' T' ns' \<Longrightarrow> ns = ns'"
  using assms unfolding delta_ok_def by meson+

text \<open>Without hard links in the old tree, only names that come back are excluded.\<close>

lemma delta_ok_no_links:
  assumes "inj_on (t_ino T) (t_paths rootfs T)"
    and "\<And>ms n. rootfs' @ map Normal (ms @ [n]) \<in> t_paths rootfs' T' \<Longrightarrow> rootfs @ map Normal ms \<in> set (t_dirs T) \<Longrightarrow> n \<notin> set (rn ms)"
  shows "delta_ok rootfs T rn rootfs' T'"
proof -
  have same: "ns = ns'" if "rootfs @ map Normal ns \<in> t_paths rootfs T" "rootfs @ map Normal ns' \<in> t_paths rootfs T"
    "t_ino T (rootfs @ map Normal ns) = t_ino T (rootfs @ map Normal ns')" for ns ns'
  proof -
    from inj_onD [OF assms(1) that(3,1,2)] show ?thesis by (auto dest: map_injective intro: injI)
  qed
  show ?thesis
    unfolding delta_ok_def
  proof (intro conjI allI impI)
    show "n \<notin> set (rn ms)" if "rootfs' @ map Normal (ms @ [n]) \<in> t_paths rootfs' T'" "rootfs @ map Normal ms \<in> set (t_dirs T)" for ms n
      using that by (rule assms(2))
    fix ns ns'
    assume "rootfs @ map Normal ns \<in> t_paths rootfs T" "rootfs @ map Normal ns' \<in> t_paths rootfs T"
      "t_ino T (rootfs @ map Normal ns) = t_ino T (rootfs @ map Normal ns')"
    then have "ns = ns'" by (rule same)
    then show "ns = ns'" "t_ino T' (rootfs' @ map Normal ns) = t_ino T' (rootfs' @ map Normal ns')" by simp_all
  qed
qed

lemma t_paths_prefix_closed:
  assumes "walk_order rootfs T" and "rootfs @ map Normal (ms @ rest) \<in> t_paths rootfs T"
  shows "rootfs @ map Normal ms \<in> t_paths rootfs T"
  using assms(2)
proof (induction rest rule: rev_induct)
  case (snoc n rest)
  then have "rootfs @ map Normal (ms @ rest) \<in> set (t_dirs T)"
    using t_paths_parent(1) [OF assms(1), of "ms @ rest" n] by simp
  from walk_orderD(6) [OF assms(1) this] show ?case by (rule snoc.IH)
qed simp

lemma delta_no_hit:
  assumes "delta_ok rootfs T rn rootfs' T'" and "walk_order rootfs' T'"
    and "\<And>ms. rootfs @ map Normal ms \<in> set (t_dirs T) \<Longrightarrow> map de_name (gone (rootfs @ map Normal ms)) = rn ms"
    and "rootfs' @ map Normal ns \<in> t_paths rootfs' T'"
  shows "\<not> hits_removed rootfs T gone ns"
proof
  assume "hits_removed rootfs T gone ns"
  then obtain ms n rest where ns: "ns = (ms @ [n]) @ rest" and d: "rootfs @ map Normal ms \<in> set (t_dirs T)"
    and n: "n \<in> de_name ` set (gone (rootfs @ map Normal ms))" unfolding hits_removed_def by auto
  from delta_okD(1) [OF assms(1) t_paths_prefix_closed [OF assms(2) assms(4) [unfolded ns]] d] have "n \<notin> set (rn ms)" .
  moreover have "n \<in> set (map de_name (gone (rootfs @ map Normal ms)))" using n by simp
  ultimately show False unfolding assms(3) [OF d] by contradiction
qed

section \<open>The base of a delta\<close>

lemma existing_at_names: "PuzzleFS_lookup pfs (abs_path ns) = Ok r \<Longrightarrow> existing_at pfs rootfs (rootfs @ map Normal ns) = r"
  by (simp add: existing_at_def abs_path_def)

lemma image_tree_base:
  assumes tree: "image_tree env pfs h rootfs T nm gone inodes layers" and "\<not> hits_removed rootfs T gone ns"
    and B: "B = base_of (Some pfs) rootfs' T'"
  shows "b_num B (rootfs' @ map Normal ns) =
      (if rootfs @ map Normal ns \<in> t_paths rootfs T then Some (nm (rootfs @ map Normal ns)) else None)"
    "b_gone B (rootfs' @ map Normal ns) = filter (\<lambda>e. de_name e \<notin> set (t_names T' (rootfs' @ map Normal ns)))
      (if rootfs @ map Normal ns \<in> set (t_dirs T)
       then gone (rootfs @ map Normal ns) @
         map (\<lambda>n. \<lparr>de_ino = nm (rootfs @ map Normal (ns @ [n])), de_name = n\<rparr>) (t_names T (rootfs @ map Normal ns))
       else [])"
proof -
  let ?p = "rootfs @ map Normal ns"
  note walk = image_treeD(3) [OF tree]
  from image_tree_lookup [OF tree assms(2)] obtain r where r: "PuzzleFS_lookup pfs (abs_path ns) = Ok r"
    and cases: "case r of Some i \<Rightarrow> ?p \<in> t_paths rootfs T \<and>
        represents_over gone h T nm (image_chunk_data (env, pfs_oci pfs, None)) ?p i
     | None \<Rightarrow> ?p \<notin> t_paths rootfs T" by blast
  have dirs: "?p \<in> set (t_dirs T) \<longleftrightarrow> ?p \<in> t_paths rootfs T \<and> t_type T ?p = FtDir"
    by (rule t_dirs_iff [OF walk])
  have "map_option i_ino r = (if ?p \<in> t_paths rootfs T then Some (nm ?p) else None)"
    using cases by (cases r) (auto simp: represents_over_def)
  moreover have "old_entries r = (if ?p \<in> set (t_dirs T)
       then gone ?p @ map (\<lambda>n. \<lparr>de_ino = nm (rootfs @ map Normal (ns @ [n])), de_name = n\<rparr>) (t_names T ?p) else [])"
  proof (cases r)
    case None
    with cases dirs show ?thesis by (simp add: old_entries_def)
  next
    case (Some i)
    with cases have "?p \<in> t_paths rootfs T" "represents_over gone h T nm (image_chunk_data (env, pfs_oci pfs, None)) ?p i"
      by simp_all
    from represents_entries [OF this(2)] this(1) Some dirs show ?thesis by simp
  qed
  ultimately show "b_num B (rootfs' @ map Normal ns) = (if ?p \<in> t_paths rootfs T then Some (nm ?p) else None)"
    "b_gone B (rootfs' @ map Normal ns) = filter (\<lambda>e. de_name e \<notin> set (t_names T' (rootfs' @ map Normal ns)))
      (if ?p \<in> set (t_dirs T) then gone ?p @
         map (\<lambda>n. \<lparr>de_ino = nm (rootfs @ map Normal (ns @ [n])), de_name = n\<rparr>) (t_names T ?p) else [])"
    by (simp_all only: B base_of.simps base.select_convs existing_at_names [OF r])
qed

lemma distinct_concat_map:
  assumes "distinct ds" and "\<And>d. d \<in> set ds \<Longrightarrow> distinct (map g (f d))"
    and "\<And>d d'. d \<in> set ds \<Longrightarrow> d' \<in> set ds \<Longrightarrow> d \<noteq> d' \<Longrightarrow> g ` set (f d) \<inter> g ` set (f d') = {}"
  shows "distinct (map g (concat (map f ds)))"
  using assms
proof (induction ds)
  case (Cons d ds)
  have "g ` set (f d) \<inter> g ` set (concat (map f ds)) = {}" using Cons.prems(1,3) by fastforce
  with Cons show ?case by (simp del: set_concat)
qed simp

lemma distinct_concat_mapD:
  assumes "distinct (map g (concat (map f ds)))" and "d \<in> set ds"
  shows "distinct (map g (f d))"
    "d' \<in> set ds \<Longrightarrow> d \<noteq> d' \<Longrightarrow> g ` set (f d) \<inter> g ` set (f d') = {}"
proof -
  show "distinct (map g (f d))" using assms by (induction ds) auto
  show "g ` set (f d) \<inter> g ` set (f d') = {}" if "d' \<in> set ds" "d \<noteq> d'"
    using assms that
  proof (induction ds)
    case (Cons x ds)
    from Cons.prems(1) have "g ` set (f x) \<inter> g ` set (f y) = {}" if "y \<in> set ds" for y using that by auto
    with Cons show ?case by auto
  qed simp
qed

text \<open>The numbers that the delta keeps or whites out, in terms of the trees.\<close>

definition delta_over ::
    "'o env \<Rightarrow> 'o PuzzleFS \<Rightarrow> host \<Rightarrow> path \<Rightarrow> tree \<Rightarrow> (path \<Rightarrow> Ino) \<Rightarrow> (path \<Rightarrow> DirEnt list) \<Rightarrow> Inode list \<Rightarrow> Inode list list \<Rightarrow>
     (bytes list \<Rightarrow> bytes list) \<Rightarrow> path \<Rightarrow> tree \<Rightarrow> bool" where
  "delta_over env pfs h rootfs T nm gone inodes layers rn rootfs' T' \<longleftrightarrow>
     image_tree env pfs h rootfs T nm gone inodes layers \<and> delta_ok rootfs T rn rootfs' T' \<and> walk_order rootfs' T' \<and>
     (\<forall>ms. rootfs @ map Normal ms \<in> set (t_dirs T) \<longrightarrow> map de_name (gone (rootfs @ map Normal ms)) = rn ms)"

lemma delta_overD:
  assumes "delta_over env pfs h rootfs T nm gone inodes layers rn rootfs' T'"
  shows "image_tree env pfs h rootfs T nm gone inodes layers" "delta_ok rootfs T rn rootfs' T'" "walk_order rootfs' T'"
    "\<And>ns. rootfs' @ map Normal ns \<in> t_paths rootfs' T' \<Longrightarrow> \<not> hits_removed rootfs T gone ns"
    "\<And>ms. rootfs @ map Normal ms \<in> set (t_dirs T) \<Longrightarrow> map de_name (gone (rootfs @ map Normal ms)) = rn ms"
proof -
  show *: "image_tree env pfs h rootfs T nm gone inodes layers" "delta_ok rootfs T rn rootfs' T'" "walk_order rootfs' T'"
    "\<And>ms. rootfs @ map Normal ms \<in> set (t_dirs T) \<Longrightarrow> map de_name (gone (rootfs @ map Normal ms)) = rn ms"
    using assms by (simp_all add: delta_over_def)
  show "\<And>ns. rootfs' @ map Normal ns \<in> t_paths rootfs' T' \<Longrightarrow> \<not> hits_removed rootfs T gone ns"
    using delta_no_hit [OF *(2,3,4)] .
qed

lemma delta_over_nm:
  assumes "delta_over env pfs h rootfs T nm gone inodes layers rn rootfs' T'"
    and "p \<in> t_paths rootfs T" and "q \<in> t_paths rootfs T" and "nm p = nm q"
  shows "t_ino T p = t_ino T q"
  using image_treeD(4) [OF delta_overD(1) [OF assms(1)], unfolded numbering_def, THEN conjunct2, rule_format, OF assms(2,3)]
    assms(4) by simp

lemma delta_gone_cases:
  assumes D: "delta_over env pfs h rootfs T nm gone inodes layers rn rootfs' T'" and B: "B = base_of (Some pfs) rootfs' T'"
    and d: "rootfs' @ map Normal ms \<in> set (t_dirs T')" and e: "e \<in> set (b_gone B (rootfs' @ map Normal ms))"
  obtains (old) "rootfs @ map Normal ms \<in> set (t_dirs T)" "e \<in> set (gone (rootfs @ map Normal ms))"
    | (new) n where "removed rootfs T rootfs' T' (ms @ [n])" "rootfs @ map Normal (ms @ [n]) \<in> t_paths rootfs T"
        "e = \<lparr>de_ino = nm (rootfs @ map Normal (ms @ [n])), de_name = n\<rparr>"
proof -
  let ?d = "rootfs @ map Normal ms"
  have hit: "\<not> hits_removed rootfs T gone ms" using delta_overD(4) [OF D walk_orderD(6) [OF delta_overD(3) [OF D] d]] .
  from e have dT: "?d \<in> set (t_dirs T)" and n: "de_name e \<notin> set (t_names T' (rootfs' @ map Normal ms))"
    and e': "e \<in> set (gone ?d) \<or> (\<exists>n\<in>set (t_names T ?d). e = \<lparr>de_ino = nm (rootfs @ map Normal (ms @ [n])), de_name = n\<rparr>)"
    unfolding image_tree_base(2) [OF delta_overD(1) [OF D] hit B] by (auto split: if_splits)
  from e' show thesis
  proof
    assume "e \<in> set (gone ?d)"
    with dT show thesis by (rule old)
  next
    assume "\<exists>n\<in>set (t_names T ?d). e = \<lparr>de_ino = nm (rootfs @ map Normal (ms @ [n])), de_name = n\<rparr>"
    then obtain m where m: "m \<in> set (t_names T ?d)" "e = \<lparr>de_ino = nm (rootfs @ map Normal (ms @ [m])), de_name = m\<rparr>" ..
    from dT m(1) have "rootfs @ map Normal (ms @ [m]) \<in> t_paths rootfs T" by (auto simp: t_entries_iff)
    moreover from this n m(2) d have "removed rootfs T rootfs' T' (ms @ [m])" unfolding removed_def by auto
    ultimately show thesis using m(2) by (intro new)
  qed
qed

text \<open>Every number that is whited out belongs to an entry of the image, which is used by no kept path.\<close>

lemma delta_gone_ino:
  assumes D: "delta_over env pfs h rootfs T nm gone inodes layers rn rootfs' T'" and B: "B = base_of (Some pfs) rootfs' T'"
    and d: "rootfs' @ map Normal ms \<in> set (t_dirs T')" and e: "e \<in> set (b_gone B (rootfs' @ map Normal ms))"
  shows "1 < unat (de_ino e)" "de_ino e \<in> i_ino ` set (concat layers)"
    "rootfs @ map Normal ns \<in> t_paths rootfs T \<Longrightarrow> rootfs' @ map Normal ns \<in> t_paths rootfs' T' \<Longrightarrow>
      nm (rootfs @ map Normal ns) \<noteq> de_ino e"
proof -
  note tree = delta_overD(1) [OF D]
  from D B d e have "1 < unat (de_ino e) \<and> de_ino e \<in> i_ino ` set (concat layers) \<and>
    (rootfs @ map Normal ns \<in> t_paths rootfs T \<longrightarrow> rootfs' @ map Normal ns \<in> t_paths rootfs' T' \<longrightarrow>
      nm (rootfs @ map Normal ns) \<noteq> de_ino e)"
  proof (cases rule: delta_gone_cases)
    case old
    have "nm (rootfs @ map Normal ns) \<noteq> de_ino e" if "rootfs @ map Normal ns \<in> t_paths rootfs T"
      using image_tree_view(1) [OF tree that] image_tree_gone(1) [OF tree old] by (intro notI) simp
    with image_treeD(9) [OF tree old] show ?thesis by simp
  next
    case (new n)
    have "rootfs @ map Normal (ms @ [n]) \<noteq> rootfs" by simp
    then have "1 < unat (nm (rootfs @ map Normal (ms @ [n])))" by (rule numbers_aboveD [OF image_treeD(5) [OF tree] new(2)])
    moreover have "False" if "rootfs @ map Normal ns \<in> t_paths rootfs T" "rootfs' @ map Normal ns \<in> t_paths rootfs' T'"
      "nm (rootfs @ map Normal ns) = de_ino e"
    proof -
      have "t_ino T (rootfs @ map Normal (ms @ [n])) = t_ino T (rootfs @ map Normal ns)"
        using delta_over_nm [OF D new(2) that(1)] that(3) new(3) by simp
      from delta_okD(3) [OF delta_overD(2) [OF D] new(2) that(1) this new(1)] that(2) have "ms @ [n] = ns" by blast
      with t_paths_parent(2) [OF delta_overD(3) [OF D], of ms n] that(2) new(1) show False by (auto simp: removed_def)
    qed
    ultimately show ?thesis using image_tree_view(2) [OF tree new(2)] new(3) by auto
  qed
  then show "1 < unat (de_ino e)" "de_ino e \<in> i_ino ` set (concat layers)"
    "rootfs @ map Normal ns \<in> t_paths rootfs T \<Longrightarrow> rootfs' @ map Normal ns \<in> t_paths rootfs' T' \<Longrightarrow>
      nm (rootfs @ map Normal ns) \<noteq> de_ino e" by blast+
qed

text \<open>No number is whited out twice.\<close>

lemma delta_removed_nm:
  assumes D: "delta_over env pfs h rootfs T nm gone inodes layers rn rootfs' T'"
    and "removed rootfs T rootfs' T' ns" and "removed rootfs T rootfs' T' ns'"
    and "nm (rootfs @ map Normal ns) = nm (rootfs @ map Normal ns')"
  shows "ns = ns'"
proof -
  have "rootfs @ map Normal ns \<in> t_paths rootfs T" "rootfs @ map Normal ns' \<in> t_paths rootfs T"
    using assms(2,3) unfolding removed_def by auto
  from delta_okD(3) [OF delta_overD(2) [OF D] this delta_over_nm [OF D this assms(4)] assms(2)] assms(3) show ?thesis by blast
qed

lemma delta_gone_disjoint:
  assumes D: "delta_over env pfs h rootfs T nm gone inodes layers rn rootfs' T'" and B: "B = base_of (Some pfs) rootfs' T'"
    and d: "rootfs' @ map Normal ms \<in> set (t_dirs T')" and d': "rootfs' @ map Normal ms' \<in> set (t_dirs T')" and "ms \<noteq> ms'"
    and e: "e \<in> set (b_gone B (rootfs' @ map Normal ms))" and e': "e' \<in> set (b_gone B (rootfs' @ map Normal ms'))"
  shows "de_ino e \<noteq> de_ino e'"
proof
  assume eq: "de_ino e = de_ino e'"
  note tree = delta_overD(1) [OF D]
  have ne: "rootfs @ map Normal ms \<noteq> rootfs @ map Normal ms'" using assms(5) by (auto dest: map_injective intro: injI)
  from D B d e show False
  proof (cases rule: delta_gone_cases)
    case o: old
    from D B d' e' show False
    proof (cases rule: delta_gone_cases)
      case old
      from distinct_concat_mapD(2) [OF image_treeD(8) [OF tree] o(1) old(1) ne] o(2) old(2) eq show False by blast
    next
      case (new n)
      from image_tree_gone(1) [OF tree o] image_tree_view(1) [OF tree new(2)] new(3) eq show False by simp
    qed
  next
    case o: (new n)
    from D B d' e' show False
    proof (cases rule: delta_gone_cases)
      case old
      from image_tree_gone(1) [OF tree old] image_tree_view(1) [OF tree o(2)] o(3) eq show False by simp
    next
      case (new n')
      from delta_removed_nm [OF D o(1) new(1)] o(3) new(3) eq assms(5) show False by simp
    qed
  qed
qed

lemma delta_gone_distinct:
  assumes D: "delta_over env pfs h rootfs T nm gone inodes layers rn rootfs' T'" and B: "B = base_of (Some pfs) rootfs' T'"
    and d: "rootfs' @ map Normal ms \<in> set (t_dirs T')"
  shows "distinct (map de_ino (b_gone B (rootfs' @ map Normal ms)))"
proof (cases "rootfs @ map Normal ms \<in> set (t_dirs T)")
  case True
  note tree = delta_overD(1) [OF D]
  let ?d = "rootfs @ map Normal ms" and ?f = "\<lambda>n. \<lparr>de_ino = nm (rootfs @ map Normal (ms @ [n])), de_name = n\<rparr>"
  let ?P = "\<lambda>n. n \<notin> set (t_names T' (rootfs' @ map Normal ms))"
  have hit: "\<not> hits_removed rootfs T gone ms" using delta_overD(4) [OF D walk_orderD(6) [OF delta_overD(3) [OF D] d]] .
  have gone: "b_gone B (rootfs' @ map Normal ms) =
      filter (\<lambda>e. ?P (de_name e)) (gone ?d) @ map ?f (filter ?P (t_names T ?d))"
    unfolding image_tree_base(2) [OF tree hit B] using True by (simp add: filter_map comp_def)
  have path: "rootfs @ map Normal (ms @ [n]) \<in> t_paths rootfs T" if "n \<in> set (t_names T ?d)" for n
    using True that by (auto simp: t_entries_iff)
  have rem: "removed rootfs T rootfs' T' (ms @ [n])" if "n \<in> set (filter ?P (t_names T ?d))" for n
    using path that d unfolding removed_def by auto
  have "distinct (map de_ino (filter (\<lambda>e. ?P (de_name e)) (gone ?d)))"
    using distinct_concat_mapD(1) [OF image_treeD(8) [OF tree] True] by (rule distinct_map_filter)
  moreover have "distinct (map de_ino (map ?f (filter ?P (t_names T ?d))))"
    using walk_orderD(5) [OF image_treeD(3) [OF tree] True] delta_removed_nm [OF D rem rem]
    by (auto simp: distinct_map inj_on_def comp_def)
  moreover have "de_ino e \<noteq> de_ino e'" if "e \<in> set (gone ?d)" "e' \<in> set (map ?f (filter ?P (t_names T ?d)))" for e e'
  proof -
    from that(2) obtain n where n: "n \<in> set (t_names T ?d)" "e' = ?f n" by auto
    from image_tree_gone(1) [OF tree True that(1)] image_tree_view(1) [OF tree path [OF n(1)]] n(2) show ?thesis by auto
  qed
  ultimately show ?thesis unfolding gone map_append distinct_append by fastforce
next
  case False
  have hit: "\<not> hits_removed rootfs T gone ms" using delta_overD(4) [OF D walk_orderD(6) [OF delta_overD(3) [OF D] d]] .
  show ?thesis unfolding image_tree_base(2) [OF delta_overD(1) [OF D] hit B] using False by simp
qed

lemma delta_base_start:
  assumes "image_tree env pfs h rootfs T nm gone inodes layers" and "B = base_of (Some pfs) rootfs' T'"
  shows "2 \<le> b_start B" "\<And>i. i \<in> i_ino ` set (concat layers) \<Longrightarrow> unat i < b_start B"
proof -
  let ?M = "Max (insert 1 (i_ino ` set (concat layers)))"
  have start: "b_start B = unat ?M + 1"
    using wf_pfs_max_inode [OF image_treeD(1,2) [OF assms(1)]] by (simp add: assms(2))
  have le: "unat i \<le> unat ?M" if "i \<in> insert 1 (i_ino ` set (concat layers))" for i
    using that by (intro word_le_nat_alt [THEN iffD1] Max_ge) auto
  from le [of 1] start show "2 \<le> b_start B" by simp
  show "unat i < b_start B" if "i \<in> i_ino ` set (concat layers)" for i using le [of i] that start by simp
qed

lemma delta_names:
  assumes "delta_over env pfs h rootfs T nm gone inodes layers rn rootfs' T'" and "p \<in> t_paths rootfs' T'"
  obtains ns where "p = rootfs' @ map Normal ns" "\<not> hits_removed rootfs T gone ns"
proof -
  obtain ns where "p = rootfs' @ map Normal ns" using t_paths_prefix [OF delta_overD(3) [OF assms(1)] assms(2)] .
  with delta_overD(4) [OF assms(1), of ns] assms(2) show thesis by (intro that) simp_all
qed

lemma delta_lookups_ok:
  assumes D: "delta_over env pfs h rootfs T nm gone inodes layers rn rootfs' T'"
  shows "lookups_ok (Some pfs) rootfs' T'"
  unfolding lookups_ok_def
proof (intro conjI ballI allI impI)
  note tree = delta_overD(1) [OF D]
  show "\<exists>r. lookup_existing (Some pfs) (RootDir # drop (length rootfs') p) = Ok r" if "p \<in> t_paths rootfs' T'" for p
  proof -
    from D that obtain ns where ns: "p = rootfs' @ map Normal ns" "\<not> hits_removed rootfs T gone ns" by (rule delta_names)
    from image_tree_lookup [OF tree ns(2)] show ?thesis by (auto simp: lookup_existing_def ns abs_path_def)
  qed
  show "\<exists>m. PuzzleFS_max_inode pfs' = Ok m" if "Some pfs = Some pfs'" for pfs'
    using wf_pfs_max_inode [OF image_treeD(1,2) [OF tree]] that by simp
qed

lemma delta_gone_entry:
  assumes D: "delta_over env pfs h rootfs T nm gone inodes layers rn rootfs' T'"
    and "e \<in> set (gone_entries B (t_dirs T'))"
  obtains ms where "rootfs' @ map Normal ms \<in> set (t_dirs T')" "e \<in> set (b_gone B (rootfs' @ map Normal ms))"
proof -
  from assms(2) obtain d where d: "d \<in> set (t_dirs T')" "e \<in> set (b_gone B d)" by (auto simp: gone_entries_def)
  obtain ms where "d = rootfs' @ map Normal ms" using delta_names [OF D walk_orderD(6) [OF delta_overD(3) [OF D] d(1)]] .
  with d show thesis by (intro that) simp_all
qed

lemma delta_gone_all_distinct:
  assumes D: "delta_over env pfs h rootfs T nm gone inodes layers rn rootfs' T'" and B: "B = base_of (Some pfs) rootfs' T'"
  shows "distinct (map de_ino (gone_entries B (t_dirs T')))"
  unfolding gone_entries_def
proof (rule distinct_concat_map)
  note walk' = delta_overD(3) [OF D]
  show "distinct (t_dirs T')" by (rule walk_orderD(3) [OF walk'])
  show "distinct (map de_ino (b_gone B d))" if d: "d \<in> set (t_dirs T')" for d
  proof -
    obtain ms where ms: "d = rootfs' @ map Normal ms" using delta_names [OF D walk_orderD(6) [OF walk' d]] .
    from delta_gone_distinct [OF D B] d show ?thesis unfolding ms .
  qed
  show "de_ino ` set (b_gone B d) \<inter> de_ino ` set (b_gone B d') = {}"
    if d: "d \<in> set (t_dirs T')" "d' \<in> set (t_dirs T')" "d \<noteq> d'" for d d'
  proof -
    obtain ms where ms: "d = rootfs' @ map Normal ms" using delta_names [OF D walk_orderD(6) [OF walk' d(1)]] .
    obtain ms' where ms': "d' = rootfs' @ map Normal ms'" using delta_names [OF D walk_orderD(6) [OF walk' d(2)]] .
    have "ms \<noteq> ms'" using d(3) by (auto simp: ms ms')
    from delta_gone_disjoint [OF D B d(1) [unfolded ms] d(2) [unfolded ms'] this] show ?thesis unfolding ms ms' by blast
  qed
qed

lemma delta_num:
  assumes D: "delta_over env pfs h rootfs T nm gone inodes layers rn rootfs' T'" and B: "B = base_of (Some pfs) rootfs' T'"
    and p: "p \<in> set (t_entries T' (t_dirs T'))" and i: "b_num B p = Some i"
  obtains ns where "p = rootfs' @ map Normal ns" "rootfs' @ map Normal ns \<in> t_paths rootfs' T'"
    "rootfs @ map Normal ns \<in> t_paths rootfs T" "nm (rootfs @ map Normal ns) = i" "ns \<noteq> []"
proof -
  have pt: "p \<in> t_paths rootfs' T'" using p by simp
  from D pt obtain ns where ns: "p = rootfs' @ map Normal ns" "\<not> hits_removed rootfs T gone ns" by (rule delta_names)
  from p obtain d n where d: "d \<in> set (t_dirs T')" "p = d @ [Normal n]" by (auto simp: t_entries_iff)
  obtain ms where "d = rootfs' @ map Normal ms" using delta_names [OF D walk_orderD(6) [OF delta_overD(3) [OF D] d(1)]] .
  with d(2) ns(1) have "ns \<noteq> []" by auto
  moreover from image_tree_base(1) [OF delta_overD(1) [OF D] ns(2) B] i ns(1)
  have "rootfs @ map Normal ns \<in> t_paths rootfs T \<and> nm (rootfs @ map Normal ns) = i" by (simp split: if_splits)
  ultimately show thesis using ns(1) pt by (intro that) simp_all
qed

lemma delta_links_kept:
  assumes D: "delta_over env pfs h rootfs T nm gone inodes layers rn rootfs' T'" and B: "B = base_of (Some pfs) rootfs' T'"
  shows "links_kept T' B"
  unfolding links_kept_def
proof (intro conjI ballI allI impI)
  note tree = delta_overD(1) [OF D]
  note start = delta_base_start [OF tree B]
  show "2 \<le> b_start B" by (rule start(1))
  show "distinct (map de_ino (gone_entries B (t_dirs T')))" by (rule delta_gone_all_distinct [OF D B])
  show "1 < unat (de_ino e)" "unat (de_ino e) < b_start B" if e: "e \<in> set (gone_entries B (t_dirs T'))" for e
  proof -
    from D e obtain ms where "rootfs' @ map Normal ms \<in> set (t_dirs T')" "e \<in> set (b_gone B (rootfs' @ map Normal ms))"
      by (rule delta_gone_entry)
    from delta_gone_ino(1,2) [OF D B this] start(2) show "1 < unat (de_ino e)" "unat (de_ino e) < b_start B" by blast+
  qed
  fix p i
  assume "p \<in> set (t_entries T' (t_dirs T'))" "b_num B p = Some i"
  with D B obtain ns where ns: "p = rootfs' @ map Normal ns" "rootfs' @ map Normal ns \<in> t_paths rootfs' T'"
    "rootfs @ map Normal ns \<in> t_paths rootfs T" "nm (rootfs @ map Normal ns) = i" "ns \<noteq> []" by (rule delta_num)
  from ns(5) have "rootfs @ map Normal ns \<noteq> rootfs" by simp
  from numbers_aboveD [OF image_treeD(5) [OF tree] ns(3) this] ns(4) show "1 < unat i" by simp
  show "unat i < b_start B" using start(2) image_tree_view(2) [OF tree ns(3)] ns(4) by blast
  show "i \<notin> de_ino ` set (gone_entries B (t_dirs T'))"
  proof
    assume "i \<in> de_ino ` set (gone_entries B (t_dirs T'))"
    then obtain e where e: "e \<in> set (gone_entries B (t_dirs T'))" "i = de_ino e" by blast
    from D e(1) obtain ms where "rootfs' @ map Normal ms \<in> set (t_dirs T')" "e \<in> set (b_gone B (rootfs' @ map Normal ms))"
      by (rule delta_gone_entry)
    from delta_gone_ino(3) [OF D B this ns(3,2)] ns(4) e(2) show False by simp
  qed
  fix q
  assume "q \<in> set (t_entries T' (t_dirs T'))" "b_num B q = Some i"
  with D B obtain ns' where ns': "q = rootfs' @ map Normal ns'" "rootfs' @ map Normal ns' \<in> t_paths rootfs' T'"
    "rootfs @ map Normal ns' \<in> t_paths rootfs T" "nm (rootfs @ map Normal ns') = i" "ns' \<noteq> []" by (rule delta_num)
  have "t_ino T (rootfs @ map Normal ns') = t_ino T (rootfs @ map Normal ns)"
    using delta_over_nm [OF D ns'(3) ns(3)] ns(4) ns'(4) by simp
  from delta_okD(2) [OF delta_overD(2) [OF D] ns'(3) ns(3) this ns'(2) ns(2)] show "t_ino T' q = t_ino T' p"
    by (simp add: ns(1) ns'(1))
qed

section \<open>States that are the same\<close>

abbreviation snap :: "host \<Rightarrow> path \<Rightarrow> tree \<Rightarrow> (bytes list \<Rightarrow> bytes list) \<Rightarrow> snapshot" where
  "snap h rootfs T rn \<equiv> \<lparr>sn_host = h, sn_root = rootfs, sn_tree = T, sn_removed = rn\<rparr>"

lemma same_snapD:
  assumes "same_snapshot (snap h rootfs T rn) (snap h' rootfs' T' rn')"
  shows "rootfs' @ map Normal ns \<in> t_paths rootfs' T' \<longleftrightarrow> rootfs @ map Normal ns \<in> t_paths rootfs T"
    "rootfs @ map Normal ns \<in> t_paths rootfs T \<Longrightarrow>
      node_at h' T' (rn' ns) (rootfs' @ map Normal ns) = node_at h T (rn ns) (rootfs @ map Normal ns)"
    "rootfs @ map Normal ns \<in> t_paths rootfs T \<Longrightarrow> rootfs @ map Normal ns' \<in> t_paths rootfs T \<Longrightarrow>
      t_ino T' (rootfs' @ map Normal ns) = t_ino T' (rootfs' @ map Normal ns') \<longleftrightarrow>
      t_ino T (rootfs @ map Normal ns) = t_ino T (rootfs @ map Normal ns')"
  using assms [unfolded same_snapshot_def sn_has_def sn_node_def sn_at_def] by (simp_all del: insert_iff)

lemma represents_same:
  assumes "represents_over gone h T nm cd p i" and "node_at h' T' rn' p' = node_at h T rn p"
    and "gone' p' = gone p" and "\<And>n. nm' (p' @ [Normal n]) = nm (p @ [Normal n])" and "nm' p' = nm p"
  shows "represents_over gone' h' T' nm' cd p' i"
proof -
  from assms(2) have n: "t_type T' p' = t_type T p" "md_uid (t_md T' p') = md_uid (t_md T p)"
    "md_gid (t_md T' p') = md_gid (t_md T p)" "t_additional T' p' = t_additional T p"
    "ucast (md_mode (t_md T' p') AND 0xFFF) = (ucast (md_mode (t_md T p) AND 0xFFF) :: u16)"
    "t_type T p = FtFile \<Longrightarrow> t_data T' p' = t_data T p" "t_type T p = FtDir \<Longrightarrow> t_names T' p' = t_names T p"
    "t_type T p = FtChar \<or> t_type T p = FtBlock \<Longrightarrow> h_major h' (md_rdev (t_md T' p')) = h_major h (md_rdev (t_md T p)) \<and>
      h_minor h' (md_rdev (t_md T' p')) = h_minor h (md_rdev (t_md T p))"
    by (auto simp: node_at_def split: if_splits)
  show ?thesis using assms(1,3-5) n by (cases "t_type T p") (simp_all add: represents_over_def)
qed

text \<open>
  A state that is the same as the one an image shows is shown by the same layer: paths below the new root take
  the numbers and the removed entries of the paths below the old one.
\<close>

definition moved :: "path \<Rightarrow> path \<Rightarrow> path \<Rightarrow> path" where
  "moved rootfs rootfs' p = rootfs @ drop (length rootfs') p"

lemma moved_simps [simp]: "moved rootfs rootfs' (rootfs' @ q) = rootfs @ q" "moved rootfs rootfs' rootfs' = rootfs"
  by (simp_all add: moved_def)

lemma same_path:
  assumes "same_snapshot (snap h rootfs T rn) (snap h' rootfs' T' rn')" and "walk_order rootfs' T'" and "p \<in> t_paths rootfs' T'"
  obtains ns where "p = rootfs' @ map Normal ns" "moved rootfs rootfs' p = rootfs @ map Normal ns" "rootfs @ map Normal ns \<in> t_paths rootfs T"
proof -
  obtain ns where "p = rootfs' @ map Normal ns" using t_paths_prefix [OF assms(2,3)] .
  with same_snapD(1) [OF assms(1), of ns] assms(3) show thesis by (intro that [of ns]) simp_all
qed

lemma same_dir:
  assumes same: "same_snapshot (snap h rootfs T rn) (snap h' rootfs' T' rn')" and walk: "walk_order rootfs T" "walk_order rootfs' T'"
    and d: "d \<in> set (t_dirs T')"
  obtains ns where "d = rootfs' @ map Normal ns" "moved rootfs rootfs' d = rootfs @ map Normal ns"
    "moved rootfs rootfs' d \<in> set (t_dirs T)" "rn' ns = rn ns" "t_names T' d = t_names T (moved rootfs rootfs' d)"
proof -
  from d t_dirs_iff [OF walk(2), of d] have p: "d \<in> t_paths rootfs' T'" "t_type T' d = FtDir" by blast+
  from same walk(2) p(1) obtain ns where ns: "d = rootfs' @ map Normal ns" "moved rootfs rootfs' d = rootfs @ map Normal ns"
    "rootfs @ map Normal ns \<in> t_paths rootfs T" by (rule same_path)
  from same_snapD(2) [OF same ns(3)] p(2) have "t_type T (moved rootfs rootfs' d) = FtDir" "rn' ns = rn ns"
    "t_names T' d = t_names T (moved rootfs rootfs' d)" unfolding ns(1,2) by (auto simp: node_at_def split: if_splits)
  with ns t_dirs_iff [OF walk(1), of "moved rootfs rootfs' d"] show thesis by (intro that [of ns]) simp_all
qed

lemma same_numbering:
  assumes same: "same_snapshot (snap h rootfs T rn) (snap h' rootfs' T' rn')" and walk': "walk_order rootfs' T'"
    and nm: "numbering rootfs T nm" "numbers_above rootfs T nm"
  shows "numbering rootfs' T' (nm \<circ> moved rootfs rootfs')" "numbers_above rootfs' T' (nm \<circ> moved rootfs rootfs')"
proof -
  show "numbering rootfs' T' (nm \<circ> moved rootfs rootfs')"
    unfolding numbering_def
  proof (intro conjI ballI)
    show "(nm \<circ> moved rootfs rootfs') rootfs' = 1" using nm(1) by (simp add: numbering_def)
    fix p q assume pq: "p \<in> t_paths rootfs' T'" "q \<in> t_paths rootfs' T'"
    from same walk' pq(1) obtain ns where ns: "p = rootfs' @ map Normal ns" "moved rootfs rootfs' p = rootfs @ map Normal ns"
      "rootfs @ map Normal ns \<in> t_paths rootfs T" by (rule same_path)
    from same walk' pq(2) obtain ms where ms: "q = rootfs' @ map Normal ms" "moved rootfs rootfs' q = rootfs @ map Normal ms"
      "rootfs @ map Normal ms \<in> t_paths rootfs T" by (rule same_path)
    have "nm (rootfs @ map Normal ns) = nm (rootfs @ map Normal ms) \<longleftrightarrow>
        t_ino T (rootfs @ map Normal ns) = t_ino T (rootfs @ map Normal ms)"
      using nm(1) ns(3) ms(3) unfolding numbering_def by metis
    with same_snapD(3) [OF same ns(3) ms(3)]
    show "(nm \<circ> moved rootfs rootfs') p = (nm \<circ> moved rootfs rootfs') q \<longleftrightarrow> t_ino T' p = t_ino T' q"
      unfolding ns(1) ms(1) by simp
  qed
  show "numbers_above rootfs' T' (nm \<circ> moved rootfs rootfs')"
    unfolding numbers_above_def
  proof (intro ballI impI)
    fix p assume p: "p \<in> t_paths rootfs' T'" "p \<noteq> rootfs'"
    from same walk' p(1) obtain ns where ns: "p = rootfs' @ map Normal ns" "rootfs @ map Normal ns \<in> t_paths rootfs T"
      by (rule same_path)
    with p(2) have "rootfs @ map Normal ns \<noteq> rootfs" by auto
    from numbers_aboveD [OF nm(2) ns(2) this] show "1 < unat ((nm \<circ> moved rootfs rootfs') p)" by (simp add: ns(1))
  qed
qed

lemma same_represents:
  assumes same: "same_snapshot (snap h rootfs T rn) (snap h' rootfs' T' rn')" and walk': "walk_order rootfs' T'"
    and repr: "\<forall>p\<in>t_paths rootfs T. \<exists>i\<in>set inodes. represents_over gone h T nm cd p i" and p: "p \<in> t_paths rootfs' T'"
  shows "\<exists>i\<in>set inodes. represents_over (gone \<circ> moved rootfs rootfs') h' T' (nm \<circ> moved rootfs rootfs') cd p i"
proof -
  from same walk' p obtain ns where ns: "p = rootfs' @ map Normal ns" "rootfs @ map Normal ns \<in> t_paths rootfs T" by (rule same_path)
  with repr obtain i where i: "i \<in> set inodes" "represents_over gone h T nm cd (rootfs @ map Normal ns) i" by blast
  from i(2) same_snapD(2) [OF same ns(2)]
  have "represents_over (gone \<circ> moved rootfs rootfs') h' T' (nm \<circ> moved rootfs rootfs') cd (rootfs' @ map Normal ns) i"
    by (rule represents_same) simp_all
  with i(1) ns(1) show ?thesis by blast
qed

lemma image_tree_same:
  assumes tree: "image_tree env pfs h rootfs T nm gone inodes layers"
    and rn: "\<forall>ms. rootfs @ map Normal ms \<in> set (t_dirs T) \<longrightarrow> map de_name (gone (rootfs @ map Normal ms)) = rn ms"
    and same: "same_snapshot (snap h rootfs T rn) (snap h' rootfs' T' rn')" and walk': "walk_order rootfs' T'"
  obtains nm' gone' where "image_tree env pfs h' rootfs' T' nm' gone' inodes layers"
    "\<forall>ms. rootfs' @ map Normal ms \<in> set (t_dirs T') \<longrightarrow> map de_name (gone' (rootfs' @ map Normal ms)) = rn' ms"
proof -
  let ?tr = "moved rootfs rootfs'"
  note dirs = same_dir [OF same image_treeD(3) [OF tree] walk']
  have dir: "?tr d \<in> set (t_dirs T)" "t_names T' d = t_names T (?tr d)" if "d \<in> set (t_dirs T')" for d using that by (auto elim: dirs)
  have inj: "?tr d \<noteq> ?tr d'" if "d \<in> set (t_dirs T')" "d' \<in> set (t_dirs T')" "d \<noteq> d'" for d d'
    using that by (auto elim!: dirs)
  have "view_over (gone \<circ> ?tr) T' inodes (pfs_view pfs)"
    using image_treeD(6) [OF tree] dir unfolding view_over_def comp_def by metis
  moreover have "distinct (map de_ino (concat (map (gone \<circ> ?tr) (t_dirs T'))))"
  proof (rule distinct_concat_map [OF walk_orderD(3) [OF walk']])
    note D = distinct_concat_mapD [OF image_treeD(8) [OF tree]]
    show "distinct (map de_ino ((gone \<circ> ?tr) d))" if "d \<in> set (t_dirs T')" for d using D(1) [OF dir(1) [OF that]] by simp
    show "de_ino ` set ((gone \<circ> ?tr) d) \<inter> de_ino ` set ((gone \<circ> ?tr) d') = {}"
      if d: "d \<in> set (t_dirs T')" "d' \<in> set (t_dirs T')" "d \<noteq> d'" for d d'
      using D(2) [OF dir(1) [OF d(1)] dir(1) [OF d(2)] inj [OF d]] by simp
  qed
  moreover have "1 < unat (de_ino e) \<and> de_ino e \<in> i_ino ` set (concat layers)"
    if "e \<in> set (concat (map (gone \<circ> ?tr) (t_dirs T')))" for e
  proof -
    from that obtain d where "d \<in> set (t_dirs T')" "e \<in> set (gone (?tr d))" by auto
    with image_treeD(9) [OF tree dir(1)] show ?thesis by blast
  qed
  ultimately have "image_tree env pfs h' rootfs' T' (nm \<circ> ?tr) (gone \<circ> ?tr) inodes layers"
    unfolding image_tree_def
    using image_treeD(1,2) [OF tree] walk' same_numbering [OF same walk' image_treeD(4,5) [OF tree]]
      same_represents [OF same walk' image_treeD(7) [OF tree]] by blast
  moreover have "map de_name ((gone \<circ> ?tr) (rootfs' @ map Normal ms)) = rn' ms" if "rootfs' @ map Normal ms \<in> set (t_dirs T')" for ms
  proof -
    from that obtain ns where ns: "rootfs' @ map Normal ms = rootfs' @ map Normal ns" "rootfs @ map Normal ns \<in> set (t_dirs T)" "rn' ns = rn ns"
      by (auto elim!: dirs)
    from ns(1) have "ms = ns" by (auto dest: map_injective intro: injI)
    with ns(2,3) rn show ?thesis by simp
  qed
  ultimately show thesis by (intro that) blast+
qed

section \<open>Histories\<close>

text \<open>Free numbers are left in the image for the new paths.\<close>

definition numbers_left :: "'o env \<Rightarrow> 'o Image \<Rightarrow> string \<Rightarrow> path \<Rightarrow> tree \<Rightarrow> bool" where
  "numbers_left env im base_layer rootfs T \<longleftrightarrow>
     (\<forall>pfs. PuzzleFS_open env im base_layer None = Ok pfs \<longrightarrow> t_small_over (base_of (Some pfs) rootfs T) T)"

text \<open>
  The history of an image, as a chain of a first build and deltas, each on the tag that the one before it wrote.
  \<open>past\<close> are the earlier states. A delta must be one that the format can express (\<open>delta_ok\<close>), and its state
  must not be an earlier one, unless that is also the current one: when a change of contents or attributes
  is taken back, the layer of the delta is one that the image has, and it is dropped.
\<close>

inductive build_history ::
    "'o env \<Rightarrow> 'o registry \<Rightarrow> 'o Image \<Rightarrow> string \<Rightarrow> host \<Rightarrow> path \<Rightarrow> tree \<Rightarrow> (bytes list \<Rightarrow> bytes list) \<Rightarrow> snapshot list \<Rightarrow> bool"
  for env :: "'o env" and rg :: "'o registry" where
  first: "host_shows h open_file rootfs T \<Longrightarrow> t_small T \<Longrightarrow> values_ok h \<Longrightarrow>
    chunker_cuts h open_file (stream_of (regular_files T)) ds \<Longrightarrow> store_ok env C im ds \<Longrightarrow>
    build_initial_rootfs h env rg C rootfs im tag = Some (Ok (desc, im')) \<Longrightarrow>
    initial_collision_free h env rg C rootfs im \<Longrightarrow>
    build_history env rg im' tag h rootfs T (\<lambda>ms. []) []"
| delta: "build_history env rg im base_layer h rootfs T rn past \<Longrightarrow>
    host_shows h' open_file rootfs' T' \<Longrightarrow> values_ok h' \<Longrightarrow>
    chunker_cuts h' open_file (stream_of (regular_files T')) ds \<Longrightarrow> store_ok env C im ds \<Longrightarrow>
    add_rootfs_delta h' env rg C rootfs' im tag base_layer = Some (Ok (desc, im')) \<Longrightarrow>
    delta_collision_free h' env rg C rootfs' im base_layer \<Longrightarrow>
    delta_ok rootfs T rn rootfs' T' \<Longrightarrow> numbers_left env im base_layer rootfs' T' \<Longrightarrow>
    rn' = removed_names rootfs T rn rootfs' T' \<Longrightarrow>
    (\<forall>s\<in>set past. same_snapshot (snap h' rootfs' T' rn') s \<longrightarrow> same_snapshot (snap h' rootfs' T' rn') (snap h rootfs T rn)) \<Longrightarrow>
    build_history env rg im' tag h' rootfs' T' rn' (snap h rootfs T rn # past)"

text \<open>
  The image under a tag shows a tree, and its removed entries have these names; every layer below the top one
  shows one of the earlier states.
\<close>

definition covers_past :: "'o env \<Rightarrow> 'o Image \<Rightarrow> Inode list list \<Rightarrow> snapshot list \<Rightarrow> bool" where
  "covers_past env im layers past \<longleftrightarrow>
     (\<forall>layer\<in>set layers. \<exists>s\<in>set past. layer_shows (image_chunk_data (env, im, None)) layer s)"

definition tag_shows ::
    "'o env \<Rightarrow> 'o Image \<Rightarrow> string \<Rightarrow> host \<Rightarrow> path \<Rightarrow> tree \<Rightarrow> (bytes list \<Rightarrow> bytes list) \<Rightarrow> snapshot list \<Rightarrow> bool" where
  "tag_shows env im tag h rootfs T rn past \<longleftrightarrow>
     (\<exists>pfs nm gone inodes rest open_file. PuzzleFS_open env im tag None = Ok pfs \<and> pfs_oci pfs = im \<and>
        host_shows h open_file rootfs T \<and> image_tree env pfs h rootfs T nm gone inodes (inodes # rest) \<and>
        (\<forall>ms. rootfs @ map Normal ms \<in> set (t_dirs T) \<longrightarrow> map de_name (gone (rootfs @ map Normal ms)) = rn ms) \<and>
        covers_past env im rest past)"

lemma covers_past_mono: "covers_past env im layers past \<Longrightarrow> image_le im im' \<Longrightarrow> covers_past env im' layers past"
  unfolding covers_past_def by (blast intro: layer_shows_mono)

lemma image_tree_top:
  assumes tree: "image_tree env pfs h rootfs T nm gone inodes (inodes # rest)"
    and rn: "\<forall>ms. rootfs @ map Normal ms \<in> set (t_dirs T) \<longrightarrow> map de_name (gone (rootfs @ map Normal ms)) = rn ms"
  shows "layer_shows (image_chunk_data (env, pfs_oci pfs, None)) inodes (snap h rootfs T rn)"
proof -
  have "wf_layer inodes" using image_treeD(1,2) [OF tree] by (simp add: wf_pfs_def wf_reader_def)
  then have sorted: "sorted_wrt (<) (map i_ino inodes)" by (simp add: wf_layer_def)
  have "pfs_view pfs k = layers_view (inodes # rest) k" for k
    by (simp add: pfs_view_def reader_view_def image_treeD(2) [OF tree] del: layers_view.simps)
  then have "layers_view [inodes] k = None" if "pfs_view pfs k = None" for k using that by (auto split: option.splits if_splits)
  with image_treeD(6) [OF tree] layers_view_member [OF sorted] have "view_over gone T inodes (layers_view [inodes])"
    unfolding view_over_def by blast
  with image_treeD(3,4,7) [OF tree] rn show ?thesis unfolding layer_shows_def sn_at_def by auto
qed

lemma first_shows:
  assumes host: "host_shows h open_file rootfs T" "t_small T" "values_ok h"
    and "chunker_cuts h open_file (stream_of (regular_files T)) ds" "store_ok env C im ds"
    and "\<forall>data. length (env_fs_verity_sha256 env data) = SHA256_BLOCK_SIZE" "messages_ok env" "registry_ok env rg"
    and "build_initial_rootfs h env rg C rootfs im tag = Some (Ok (desc, im'))" "initial_collision_free h env rg C rootfs im"
  shows "tag_shows env im' tag h rootfs T (\<lambda>ms. []) []"
proof -
  from build_initial_opens [OF assms] obtain pfs nm inodes where pfs: "PuzzleFS_open env im' tag None = Ok pfs" "wf_pfs pfs"
    "pfs_oci pfs = im'" "reader_layers (pfs_rootfs pfs) = Ok [inodes]" "pfs_view pfs = layers_view [inodes]"
    and layer: "sorted_wrt (<) (map i_ino inodes)" "numbering rootfs T nm" "numbers_above rootfs T nm"
      "\<forall>p\<in>t_paths rootfs T. \<exists>i\<in>set inodes. represents h T nm (image_chunk_data (env, im', None)) p i" .
  have "view_over (\<lambda>d. []) T inodes (pfs_view pfs)"
    unfolding view_over_def pfs(5) using layers_view_member [OF layer(1)] by simp
  moreover have "walk_order rootfs T" using host(1) by (simp add: host_shows_def)
  moreover have none: "concat (map (\<lambda>d. [] :: DirEnt list) (t_dirs T)) = []" by simp
  ultimately have "image_tree env pfs h rootfs T nm (\<lambda>d. []) inodes [inodes]"
    unfolding image_tree_def pfs(3) none using pfs(2,4) layer(2-4) by simp
  with pfs(1,3) host(1) show ?thesis unfolding tag_shows_def covers_past_def by fastforce
qed

text \<open>
  The layer of a delta, by itself, with the names that it removes. It is put over the layers of the image,
  unless it is one of them.
\<close>

lemma delta_layer_shows:
  assumes base: "PuzzleFS_open env im base_layer None = Ok pfs" "image_tree env pfs h rootfs T nm gone inodes layers"
      "\<forall>ms. rootfs @ map Normal ms \<in> set (t_dirs T) \<longrightarrow> map de_name (gone (rootfs @ map Normal ms)) = rn ms"
    and host: "host_shows h' open_file rootfs' T'" and vals: "values_ok h'"
    and cuts: "chunker_cuts h' open_file (stream_of (regular_files T')) ds" and store: "store_ok env C im ds"
    and laws: "\<forall>data. length (env_fs_verity_sha256 env data) = SHA256_BLOCK_SIZE" "messages_ok env" "registry_ok env rg"
    and build: "add_rootfs_delta h' env rg C rootfs' im tag base_layer = Some (Ok (desc, im'))"
    and cf: "delta_collision_free h' env rg C rootfs' im base_layer"
    and delta: "delta_ok rootfs T rn rootfs' T'" "numbers_left env im base_layer rootfs' T'"
  obtains pfs' nm' gone' inodes' where "PuzzleFS_open env im' tag None = Ok pfs'" "pfs_oci pfs' = im'" "image_le im im'" "wf_pfs pfs'"
    "reader_layers (pfs_rootfs pfs') = Ok (stacked inodes' layers)"
    "\<And>ms. rootfs' @ map Normal ms \<in> set (t_dirs T') \<Longrightarrow>
      map de_name (gone' (rootfs' @ map Normal ms)) = removed_names rootfs T rn rootfs' T' ms"
    "layer_shows (image_chunk_data (env, im', None)) inodes' (snap h' rootfs' T' (removed_names rootfs T rn rootfs' T'))"
    "\<And>rest. stacked inodes' layers = inodes' # rest \<Longrightarrow> image_tree env pfs' h' rootfs' T' nm' gone' inodes' (inodes' # rest)"
proof -
  note tree = base(2)
  define B where "B = base_of (Some pfs) rootfs' T'"
  have walk': "walk_order rootfs' T'" using host by (simp add: host_shows_def)
  have D: "delta_over env pfs h rootfs T nm gone inodes layers rn rootfs' T'"
    using tree delta(1) walk' base(3) by (simp add: delta_over_def)
  have "t_small_over B T'" using delta(2) base(1) by (simp add: numbers_left_def B_def)
  from delta_layer [OF host B_def delta_lookups_ok [OF D] delta_links_kept [OF D B_def] this vals cuts store laws base(1)
      image_treeD(1,2) [OF tree] build cf]
  obtain pfs' nm' inodes' where pfs': "PuzzleFS_open env im' tag None = Ok pfs'" "wf_pfs pfs'" "pfs_oci pfs' = im'" "image_le im im'"
    and nm': "numbering rootfs' T' nm'" "numbers_above rootfs' T' nm'"
    and view: "\<And>rest. view_over (b_gone B) T' inodes' (layers_view (inodes' # rest))"
    and layers': "reader_layers (pfs_rootfs pfs') = Ok (stacked inodes' layers)"
    and wht: "\<forall>e\<in>set (gone_entries B (t_dirs T')). new_whiteout (de_ino e) \<in> set inodes'"
    and repr: "\<forall>p\<in>t_paths rootfs' T'. \<exists>i\<in>set inodes'.
      represents_over (b_gone B) h' T' nm' (image_chunk_data (env, im', None)) p i" by metis
  have names: "map de_name (b_gone B (rootfs' @ map Normal ms)) = removed_names rootfs T rn rootfs' T' ms"
    if d: "rootfs' @ map Normal ms \<in> set (t_dirs T')" for ms
    unfolding image_tree_base(2) [OF tree delta_overD(4) [OF D walk_orderD(6) [OF walk' d]] B_def] removed_names_def
    using delta_overD(5) [OF D, of ms, symmetric] by (simp add: filter_map comp_def)
  have "layer_shows (image_chunk_data (env, im', None)) inodes' (snap h' rootfs' T' (removed_names rootfs T rn rootfs' T'))"
    unfolding layer_shows_def sn_at_def using walk' nm'(1) view [of "[]"] repr names
    by (intro exI [of _ nm'] exI [of _ "b_gone B"]) simp
  moreover have "image_tree env pfs' h' rootfs' T' nm' (b_gone B) inodes' (inodes' # rest)" if "stacked inodes' layers = inodes' # rest" for rest
  proof -
    have "1 < unat (de_ino e) \<and> de_ino e \<in> i_ino ` set (concat (inodes' # rest))" if e: "e \<in> set (gone_entries B (t_dirs T'))" for e
    proof -
      from wht e have "i_ino (new_whiteout (de_ino e)) \<in> i_ino ` set inodes'" by blast
      with links_keptD(3) [OF delta_links_kept [OF D B_def] e] show ?thesis by (auto simp: new_whiteout_def)
    qed
    moreover have "pfs_view pfs' = layers_view (inodes' # rest)"
      by (rule ext) (simp add: pfs_view_def reader_view_def layers' that del: layers_view.simps)
    ultimately show ?thesis
      unfolding image_tree_def pfs'(3) gone_entries_def [symmetric]
      using pfs'(2) layers' walk' nm' repr view delta_gone_all_distinct [OF D B_def] that by simp
  qed
  ultimately show thesis using pfs' layers' names by (intro that [of pfs' inodes' "b_gone B" nm'])
qed

lemma image_tree_later:
  assumes tree: "image_tree env pfs h rootfs T nm gone inodes layers"
    and "reader_layers (pfs_rootfs pfs') = Ok layers" and "wf_pfs pfs'" and le: "image_le (pfs_oci pfs) (pfs_oci pfs')"
  shows "image_tree env pfs' h rootfs T nm gone inodes layers"
proof -
  have "pfs_view pfs' = pfs_view pfs"
    by (rule ext) (simp add: pfs_view_def reader_view_def assms(2) image_treeD(2) [OF tree] del: layers_view.simps)
  moreover have "\<forall>p\<in>t_paths rootfs T. \<exists>i\<in>set inodes. represents_over gone h T nm (image_chunk_data (env, pfs_oci pfs', None)) p i"
    using image_treeD(7) [OF tree] represents_mono [OF _ le] by meson
  ultimately show ?thesis using tree assms(2,3) unfolding image_tree_def by simp
qed

lemma delta_shows:
  assumes base: "tag_shows env im base_layer h rootfs T rn past" and host: "host_shows h' open_file rootfs' T'" and vals: "values_ok h'"
    and cuts: "chunker_cuts h' open_file (stream_of (regular_files T')) ds" and store: "store_ok env C im ds"
    and laws: "\<forall>data. length (env_fs_verity_sha256 env data) = SHA256_BLOCK_SIZE" "messages_ok env" "registry_ok env rg"
    and build: "add_rootfs_delta h' env rg C rootfs' im tag base_layer = Some (Ok (desc, im'))"
    and cf: "delta_collision_free h' env rg C rootfs' im base_layer"
    and delta: "delta_ok rootfs T rn rootfs' T'" "numbers_left env im base_layer rootfs' T'"
    and rn': "rn' = removed_names rootfs T rn rootfs' T'"
    and new: "\<forall>s\<in>set past. same_snapshot (snap h' rootfs' T' rn') s \<longrightarrow> same_snapshot (snap h' rootfs' T' rn') (snap h rootfs T rn)"
  shows "tag_shows env im' tag h' rootfs' T' rn' (snap h rootfs T rn # past)"
proof -
  from base obtain pfs nm gone inodes rest where pfs: "PuzzleFS_open env im base_layer None = Ok pfs" "pfs_oci pfs = im"
    and tree: "image_tree env pfs h rootfs T nm gone inodes (inodes # rest)"
    and rn: "\<forall>ms. rootfs @ map Normal ms \<in> set (t_dirs T) \<longrightarrow> map de_name (gone (rootfs @ map Normal ms)) = rn ms"
    and past: "covers_past env im rest past" unfolding tag_shows_def by blast
  from delta_layer_shows [OF pfs(1) tree rn host vals cuts store laws build cf delta] obtain pfs' nm' gone' inodes' where
    pfs': "PuzzleFS_open env im' tag None = Ok pfs'" "pfs_oci pfs' = im'" "image_le im im'" "wf_pfs pfs'"
    and layers': "reader_layers (pfs_rootfs pfs') = Ok (stacked inodes' (inodes # rest))"
    and names: "\<And>ms. rootfs' @ map Normal ms \<in> set (t_dirs T') \<Longrightarrow> map de_name (gone' (rootfs' @ map Normal ms)) = rn' ms"
    and shown: "layer_shows (image_chunk_data (env, im', None)) inodes' (snap h' rootfs' T' rn')"
    and tree': "\<And>rest'. stacked inodes' (inodes # rest) = inodes' # rest' \<Longrightarrow>
      image_tree env pfs' h' rootfs' T' nm' gone' inodes' (inodes' # rest')" unfolding rn' by metis
  have top: "layer_shows (image_chunk_data (env, im', None)) inodes (snap h rootfs T rn)"
    using layer_shows_mono [OF image_tree_top [OF tree rn] pfs'(3) [folded pfs(2)]] .
  have past': "covers_past env im' rest past" by (rule covers_past_mono [OF past pfs'(3)])
  consider (above) "inodes' \<notin> set (inodes # rest)" | (equal) "inodes' = inodes" | (covered) "inodes' \<in> set rest" by auto
  then show ?thesis
  proof cases
    case above
    then have "stacked inodes' (inodes # rest) = inodes' # inodes # rest" by (simp add: stacked_def)
    from tree' [OF this] pfs'(1,2) host names past' top show ?thesis
      unfolding tag_shows_def covers_past_def by (metis list.set_intros(1,2) set_ConsD)
  next
    case equal
    then have "stacked inodes' (inodes # rest) = inodes' # rest" by (simp add: stacked_def)
    from tree' [OF this] pfs'(1,2) host names past' show ?thesis
      unfolding tag_shows_def covers_past_def by (metis list.set_intros(2))
  next
    case covered
    with past' obtain s where "s \<in> set past" "layer_shows (image_chunk_data (env, im', None)) inodes' s"
      unfolding covers_past_def by blast
    with new layer_shows_same [OF shown] have "same_snapshot (snap h' rootfs' T' rn') (snap h rootfs T rn)" by blast
    note same = same_snapshot_sym [OF this]
    from covered layers' have "reader_layers (pfs_rootfs pfs') = Ok (inodes # rest)" by (simp add: stacked_def)
    from image_tree_later [OF tree this pfs'(4) pfs'(3) [folded pfs(2) pfs'(2)]]
    have "image_tree env pfs' h rootfs T nm gone inodes (inodes # rest)" .
    moreover have "walk_order rootfs' T'" using host by (simp add: host_shows_def)
    ultimately obtain nm2 gone2 where "image_tree env pfs' h' rootfs' T' nm2 gone2 inodes (inodes # rest)"
      "\<forall>ms. rootfs' @ map Normal ms \<in> set (t_dirs T') \<longrightarrow> map de_name (gone2 (rootfs' @ map Normal ms)) = rn' ms"
      using image_tree_same [OF _ rn same] by metis
    with pfs'(1,2) host past' show ?thesis unfolding tag_shows_def covers_past_def by (metis list.set_intros(2))
  qed
qed

lemma history_shows:
  assumes "build_history env rg im tag h rootfs T rn past"
    and laws: "\<forall>data. length (env_fs_verity_sha256 env data) = SHA256_BLOCK_SIZE" "messages_ok env" "registry_ok env rg"
  shows "tag_shows env im tag h rootfs T rn past"
  using assms(1)
proof (induction rule: build_history.induct)
  case (first h open_file rootfs T ds C im tag desc im')
  from first_shows [OF first(1-5) laws first(6-7)] show ?case .
next
  case (delta im base_layer h rootfs T rn past h' open_file rootfs' T' ds C tag desc im' rn')
  from delta_shows [OF delta.IH delta.hyps(2-5) laws delta.hyps(6-11)] show ?case .
qed

end
