(* ===== verification/Sample_Delta.thy ===== *)
theory Sample_Delta
  imports Delta_History Sample_Host
begin

text \<open>
  Hosts that are one directory of fifos, and an image with two layers: the first has one fifo, the second
  removes it.
\<close>

definition fifo_md :: "u64 \<Rightarrow> u32 \<Rightarrow> host_metadata" where
  "fifo_md ino mode = (host_md ino FtFifo 0)\<lparr>md_mode := mode\<rparr>"

definition flat_tree :: "(bytes \<times> host_metadata) list \<Rightarrow> tree" where
  "flat_tree es =
     \<lparr>t_dirs = [host_root], t_names = (\<lambda>d. map fst es),
      t_md = (\<lambda>p. if p = host_root then host_md 10 FtDir 0
        else case map_of es (file_name p) of Some md \<Rightarrow> md | None \<Rightarrow> fifo_md 0 0),
      t_additional = (\<lambda>p. None), t_data = (\<lambda>p. [])\<rparr>"

definition flat_host :: "(bytes \<times> host_metadata) list \<Rightarrow> host" where
  "flat_host es =
     \<lparr>h_walk_dirs = (\<lambda>p. [Ok host_root]),
      h_symlink_metadata = (\<lambda>p. Ok (t_md (flat_tree es) p)),
      h_read_dir = (\<lambda>d. Ok (map Ok (map fst es))),
      h_read_link = (\<lambda>p. Err (CustomError OtherKind)),
      h_xattr_list = (\<lambda>p. Ok []),
      h_xattr_get = (\<lambda>p name. Ok None),
      h_major = (\<lambda>d. d), h_minor = (\<lambda>d. d),
      h_stream_cdc = (\<lambda>_ _ _ _. []),
      h_values = (\<lambda>ds. ds)\<rparr>"

text \<open>Lists of fifos with distinct plain names in order.\<close>

definition flat_ok :: "(bytes \<times> host_metadata) list \<Rightarrow> bool" where
  "flat_ok es \<longleftrightarrow> sorted_wrt (<) (map fst es) \<and> list_all plain_name (map fst es) \<and>
     (\<forall>md\<in>snd ` set es. md_file_type md = FtFifo \<and> md_ino md \<noteq> 10 \<and> (\<forall>md'\<in>snd ` set es. md_ino md = md_ino md' \<longrightarrow> md = md'))"

lemma flat_okD:
  assumes "flat_ok es" and "md \<in> snd ` set es"
  shows "md_file_type md = FtFifo" "md_ino md \<noteq> 10" "md' \<in> snd ` set es \<Longrightarrow> md_ino md = md_ino md' \<Longrightarrow> md = md'"
  using assms unfolding flat_ok_def by blast+

lemma flat_entries: "t_entries (flat_tree es) (t_dirs (flat_tree es)) = map (\<lambda>n. host_root @ [Normal n]) (map fst es)"
  by (simp add: flat_tree_def t_entries_def dir_paths_def)

lemma flat_md:
  assumes "p \<in> set (t_entries (flat_tree es) (t_dirs (flat_tree es)))" and "flat_ok es"
  shows "t_md (flat_tree es) p \<in> snd ` set es" "p \<noteq> host_root"
proof -
  from assms(1) obtain n where n: "p = host_root @ [Normal n]" "n \<in> fst ` set es" by (auto simp: flat_entries)
  then obtain md where "map_of es n = Some md" by (auto simp: weak_map_of_SomeI dest: weak_map_of_SomeI)
  with n map_of_mem_snd [OF this] show "t_md (flat_tree es) p \<in> snd ` set es" "p \<noteq> host_root"
    by (simp_all add: flat_tree_def host_root_def file_name_def)
qed

lemma flat_root: "t_md (flat_tree es) host_root = host_md 10 FtDir 0"
  by (simp add: flat_tree_def)

lemma flat_cases:
  assumes "flat_ok es" and "p \<in> t_paths host_root (flat_tree es)"
  obtains (root) "p = host_root" "t_md (flat_tree es) p = host_md 10 FtDir 0"
    | (fifo) "p \<noteq> host_root" "t_md (flat_tree es) p \<in> snd ` set es" "t_type (flat_tree es) p = FtFifo" "t_ino (flat_tree es) p \<noteq> 10"
proof (cases "p = host_root")
  case True
  then show thesis using flat_root by (intro root) simp_all
next
  case False
  with assms(2) have "p \<in> set (t_entries (flat_tree es) (t_dirs (flat_tree es)))" by simp
  from flat_md [OF this assms(1)] flat_okD(1,2) [OF assms(1)] show thesis by (intro fifo) auto
qed

lemma flat_types:
  assumes "flat_ok es" and "p \<in> t_paths host_root (flat_tree es)"
  shows "p = host_root \<longleftrightarrow> t_type (flat_tree es) p = FtDir" "t_type (flat_tree es) p \<notin> {FtFile, FtSymlink}"
  using assms by (cases rule: flat_cases; simp add: host_md_def)+

lemma flat_host_shows:
  assumes "flat_ok es"
  shows "host_shows (flat_host es) (\<lambda>p. Ok []) host_root (flat_tree es)"
proof -
  have dirs: "t_dirs (flat_tree es) = [host_root]" "t_names (flat_tree es) d = map fst es" for d by (simp_all add: flat_tree_def)
  have names: "distinct (map fst es)" "sorted (map fst es)" "list_all plain_name (map fst es)"
    using assms by (auto simp: flat_ok_def strict_sorted_iff)
  have "walk_order host_root (flat_tree es)"
    unfolding walk_order_def
  proof (intro conjI ballI allI impI)
    show "p \<in> set (t_dirs (flat_tree es)) \<longleftrightarrow> t_type (flat_tree es) p = FtDir" if "p \<in> t_paths host_root (flat_tree es)" for p
      using flat_types(1) [OF assms that] by (simp add: dirs)
  qed (use names in \<open>simp_all add: dirs\<close>)
  moreover have "links_ok host_root (flat_tree es)"
    unfolding links_ok_def
  proof (intro ballI impI)
    fix p q
    assume pq: "p \<in> t_paths host_root (flat_tree es)" "q \<in> t_paths host_root (flat_tree es)"
      "t_ino (flat_tree es) p = t_ino (flat_tree es) q"
    from assms pq(1) have "t_md (flat_tree es) p = t_md (flat_tree es) q"
    proof (cases rule: flat_cases)
      case root
      from assms pq(2) show ?thesis by (cases rule: flat_cases) (use root pq(3) in \<open>simp_all add: host_md_def\<close>)
    next
      case fifo
      note p = fifo
      from assms pq(2) show ?thesis
      proof (cases rule: flat_cases)
        case root
        with p(4) pq(3) show ?thesis by (simp add: host_md_def)
      next
        case fifo
        from flat_okD(3) [OF assms p(2) fifo(2) pq(3)] show ?thesis .
      qed
    qed
    moreover from this have "t_type (flat_tree es) p = FtDir \<longrightarrow> p = q"
      using flat_types(1) [OF assms pq(1)] flat_types(1) [OF assms pq(2)] by auto
    ultimately show "t_md (flat_tree es) p = t_md (flat_tree es) q \<and>
        t_additional (flat_tree es) p = t_additional (flat_tree es) q \<and>
        t_data (flat_tree es) p = t_data (flat_tree es) q \<and> (t_type (flat_tree es) p = FtDir \<longrightarrow> p = q)"
      by (simp add: flat_tree_def)
  qed
  moreover have "additional_of (flat_host es) p (t_md (flat_tree es) p) = Ok None" if "p \<in> t_paths host_root (flat_tree es)" for p
  proof -
    from flat_types(2) [OF assms that] show ?thesis by (simp add: additional_of_def InodeAdditional_new_def get_xattrs_def flat_host_def)
  qed
  moreover have "sort (map fst es) = map fst es" using names(2) by (simp add: sort_key_id_if_sorted)
  ultimately show ?thesis
    unfolding host_shows_def using flat_types(2) [OF assms]
    by (auto simp: host_root_def flat_host_def dirs intro: exI [of _ "map fst es"]) (simp_all add: flat_tree_def)
qed

lemma flat_host_laws:
  assumes "flat_ok es"
  shows "values_ok (flat_host es)" "chunker_cuts (flat_host es) (\<lambda>p. Ok []) (stream_of (regular_files (flat_tree es))) []"
proof -
  show "values_ok (flat_host es)" by (simp add: values_ok_def flat_host_def)
  have "p \<notin> set (regular_files (flat_tree es))" for p
  proof
    assume "p \<in> set (regular_files (flat_tree es))"
    from typed_paths_subset [OF this] flat_types(2) [OF assms, of p] show False by simp
  qed
  then have "regular_files (flat_tree es) = []" by (meson last_in_set)
  moreover have "stream_to_end (\<lambda>p :: path. Ok []) [] n (stream_of []) [] = Some (Ok [])" if "0 < n" for n
    using stream_to_end_spec [of "\<lambda>p :: path. Ok []" "stream_of []" "[]" n "[]" "[]"] that by (simp add: stream_of_chain)
  ultimately show "chunker_cuts (flat_host es) (\<lambda>p. Ok []) (stream_of (regular_files (flat_tree es))) []"
    by (auto simp: chunker_cuts_def h_chunker_def flat_host_def)
qed

section \<open>A library with two messages\<close>

definition flat_env :: "capnp_rootfs \<Rightarrow> capnp_rootfs \<Rightarrow> tags env" where
  "flat_env c c' = (tag_env c)
     \<lparr>env_read_message := (\<lambda>bs. if bs = [9] then Ok c else if bs = [10] then Ok c' else Err CapnpError),
      env_write_message := (\<lambda>x. if x = c then Ok [9] else if x = c' then Ok [10] else Err CapnpError)\<rparr>"

lemma flat_env_simps [simp]:
  "env_hex (flat_env c c') = base16" "env_sha256 (flat_env c c') = pad32" "env_fs_verity_sha256 (flat_env c c') = pad32"
  "env_digest_from_str (flat_env c c') str = Ok (drop 7 str)" "env_write_error (flat_env c c') name data = None" "env_reopen_error (flat_env c c') name = None"
  "env_find_manifest_with_tag (flat_env c c') im tag = Ok (im_oci im tag)"
  "env_write_message (flat_env c c') x = (if x = c then Ok [9] else if x = c' then Ok [10] else Err CapnpError)"
  "env_read_message (flat_env c c') bs = (if bs = [9] then Ok c else if bs = [10] then Ok c' else Err CapnpError)"
  by (simp_all add: flat_env_def) (simp add: tag_env_def)

lemma flat_env_laws: "env_lawful (flat_env c c')" "messages_ok (flat_env c c')" "registry_ok (flat_env c c') tag_registry"
  "\<forall>data. length (env_fs_verity_sha256 (flat_env c c') data) = SHA256_BLOCK_SIZE"
  by (auto simp: env_lawful_def base16_lawful SHA256_BLOCK_SIZE_def messages_ok_def registry_ok_def tag_registry_def
      image_le_def split: if_splits)

section \<open>Two layers\<close>

text \<open>The directory of the first layer and its fifo.\<close>

definition one_fifo :: "(bytes \<times> host_metadata) list" where
  "one_fifo = [([115], fifo_md 12 0x1ED)]"

definition flat_dir :: "DirEnt list \<Rightarrow> Inode" where
  "flat_dir es = new_inode 1 (host_md 10 FtDir 0) (InodeMode.Dir \<lparr>dl_look_below = False, dl_entries = es\<rparr>) None"

definition flat_fifo :: "Ino \<Rightarrow> host_metadata \<Rightarrow> Inode" where
  "flat_fifo ino md = new_inode ino md Fifo None"

definition layer0 :: "Inode list" where
  "layer0 = [flat_dir [\<lparr>de_ino = 2, de_name = [115]\<rparr>], flat_fifo 2 (fifo_md 12 0x1ED)]"

definition layer1 :: "Inode list" where
  "layer1 = [flat_dir [\<lparr>de_ino = 2, de_name = [115]\<rparr>], new_whiteout 2]"

definition layered :: "Inode list list \<Rightarrow> Rootfs" where
  "layered ls = \<lparr>rf_metadatas = ls, rf_fs_verity_data = [], rf_manifest_version = PUZZLEFS_IMAGE_MANIFEST_VERSION\<rparr>"

definition layered_message :: "Inode list list \<Rightarrow> capnp_rootfs" where
  "layered_message ls = (case Rootfs_fill_capnp (layered ls) of Ok c \<Rightarrow> c | _ \<Rightarrow> empty_message)"

lemma one_fifo_ok: "flat_ok one_fifo" "flat_ok []"
  by (simp_all add: flat_ok_def one_fifo_def fifo_md_def host_md_def plain_name_def slash_def dot_def)

lemma layered_fill:
  assumes "length ls < 2 ^ 32" and "\<forall>l\<in>set ls. length l < 2 ^ 32 \<and> (\<forall>i\<in>set l. fits_Inode i)"
  shows "Rootfs_fill_capnp (layered ls) = Ok (layered_message ls)"
  using Rootfs_fill_cases [of "layered ls"] assms by (auto simp: layered_message_def layered_def fits_Rootfs_def)

lemmas flat_defs = flat_host_def flat_tree_def host_root_def host_md_def fifo_md_def

definition flat_state :: "DirEnt list \<Rightarrow> Other list \<Rightarrow> Inode list \<Rightarrow> (u64 \<rightharpoonup> Ino) \<Rightarrow> u64 \<Rightarrow> build_state" where
  "flat_state es others wht f n =
     \<lparr>bs_dirs = [(10, \<lparr>bd_ino = 1, bd_entries = es, bd_md = host_md 10 FtDir 0, bd_additional = None\<rparr>)],
      bs_files = [], bs_others = others, bs_inodes = wht, bs_stream = FilesystemStream_new,
      bs_host_to_pfs = f, bs_next_ino = n\<rparr>"

lemma flat_build:
  assumes "scan_rootfs (flat_host fs) existing host_root = Ok (flat_state es others wht f n)"
    and "collect (render_other (flat_host fs)) others = Ok os"
  shows "build_delta (flat_host fs) env C host_root im existing [] m =
    Some (Ok (sort_key i_ino (wht @ flat_dir es # os), im, [], m))"
  using assms
  by (simp add: build_delta_def flat_state_def process_chunks_def cursor_files_def h_chunker_def render_inodes_def
      flat_host_def render_dir_def new_dir_def flat_dir_def host_md_def)

lemma flat_scan_first:
  "scan_rootfs (flat_host one_fifo) (None :: 'o PuzzleFS option) host_root =
    Ok (flat_state [\<lparr>de_ino = 2, de_name = [115]\<rparr>] [\<lparr>bo_ino = 2, bo_md = fifo_md 12 0x1ED, bo_additional = None\<rparr>] []
      [12 \<mapsto> 2] 3)"
  by (simp add: scan_defs flat_defs Let_def one_fifo_def flat_state_def)

lemma flat_first:
  "build_delta (flat_host one_fifo) env Noop host_root im None [] m = Some (Ok (layer0, im, [], m))"
  using flat_build [OF flat_scan_first, of "[flat_fifo 2 (fifo_md 12 0x1ED)]" env Noop im m]
  by (simp add: render_other_def new_other_def layer0_def flat_dir_def flat_fifo_def new_inode_def fifo_md_def host_md_def)

lemma flat_write:
  assumes "Rootfs_fill_capnp r = Ok x" and "env_write_message (flat_env c c') x = Ok buf"
    and "im_blobs im (base16_encode (pad32 buf)) = None"
  shows "\<exists>desc m'. write_rootfs (flat_env c c') tag_registry r im m tag =
    Ok (desc, \<lparr>im_blobs = (im_blobs im)(base16_encode (pad32 buf) \<mapsto> \<lparr>bf_data = buf, bf_verity = False\<rparr>),
      im_oci = (im_oci im)(tag \<mapsto> m')\<rparr>)"
proof -
  have "serialize_metadata (flat_env c c') r = Ok buf" using assms(1,2) by (simp add: serialize_metadata_def)
  with assms(3) show ?thesis
    by (cases im) (auto simp: write_rootfs_def tag_registry_def put_blob_def Noop_def
        Noop_compress_all_def Noop_append_extension_def Let_def get_fs_verity_digest_def store_blob_def base16_def)
qed

text \<open>The first layer with the layer of a delta over it.\<close>

abbreviation layers_env :: "Inode list \<Rightarrow> tags env" where
  "layers_env l \<equiv> flat_env (layered_message [layer0]) (layered_message [l, layer0])"

abbreviation two_layers :: "tags env" where
  "two_layers \<equiv> layers_env layer1"

definition blob9 :: "string \<rightharpoonup> blob_file" where
  "blob9 = [base16_encode (pad32 [9]) \<mapsto> \<lparr>bf_data = [9], bf_verity = False\<rparr>]"

lemma layer_inodes:
  "fits_Inode (flat_dir [\<lparr>de_ino = 2, de_name = [115]\<rparr>])" "fits_Inode (flat_fifo i md)" "fits_Inode (new_whiteout i)"
  by (simp_all add: fits_Inode_def flat_dir_def flat_fifo_def new_inode_def new_whiteout_def)

lemma layered_fills:
  "Rootfs_fill_capnp (layered [layer0]) = Ok (layered_message [layer0])"
  "Rootfs_fill_capnp (layered [layer1, layer0]) = Ok (layered_message [layer1, layer0])"
  using layer_inodes by (intro layered_fill; simp add: layer0_def layer1_def)+

lemma flat_initial:
  "\<exists>desc m. build_initial_rootfs (flat_host one_fifo) (layers_env l) tag_registry Noop host_root tag_image ''t'' =
     Some (Ok (desc, \<lparr>im_blobs = blob9, im_oci = [''t'' \<mapsto> m]\<rparr>))"
proof -
  from flat_write [OF layered_fills(1), of "layered_message [layer0]" "layered_message [l, layer0]" "[9]" tag_image
      tag_manifest "''t''"]
  show ?thesis by (auto simp: build_initial_rootfs_def flat_first tag_registry_def layered_def blob9_def tag_image_def)
qed

lemma pad32_nine_ten: "pad32 [9] \<noteq> pad32 [10]"
proof -
  have "hd (pad32 [9]) = 9" "hd (pad32 [10]) = 10" by (simp_all add: pad32_def)
  then show ?thesis by force
qed

text \<open>The images of the test store only hold the blobs of the two messages.\<close>

lemma flat_collision_free:
  assumes "im_blobs im \<subseteq>\<^sub>m blob9(base16_encode (pad32 [10]) \<mapsto> \<lparr>bf_data = [10], bf_verity = False\<rparr>)"
  shows "rootfs_collision_free (flat_env c c') im r"
proof -
  have "bf_data f = [9] \<or> bf_data f = [10]" if "im_blobs im name = Some f" for name f
  proof -
    from assms that have "(blob9(base16_encode (pad32 [10]) \<mapsto> \<lparr>bf_data = [10], bf_verity = False\<rparr>)) name = Some f"
      by (metis domI map_le_def)
    then show ?thesis by (auto simp: blob9_def split: if_splits)
  qed
  moreover have "buf = [9] \<or> buf = [10]" if "serialize_metadata (flat_env c c') r = Ok buf" for buf
    using that by (auto simp: serialize_metadata_def split: if_splits)
  ultimately show ?thesis
    using pad32_nine_ten unfolding rootfs_collision_free_def collision_free_def flat_env_simps by metis
qed

lemma layered_wf: "wf_Rootfs (layered [layer0])" "wf_Rootfs (layered [layer1, layer0])"
  by (auto simp: wf_Rootfs_def layered_def layer0_def layer1_def flat_dir_def flat_fifo_def new_inode_def new_whiteout_def
      wf_VerityData_def btree_invar_def)

definition flat_pfs :: "tags Image \<Rightarrow> Inode list list \<Rightarrow> tags PuzzleFS" where
  "flat_pfs im ls = \<lparr>pfs_oci = im, pfs_rootfs = layered_message ls, pfs_verity_data = None, pfs_manifest_verity = None\<rparr>"

lemma flat_pfs_layers:
  "reader_layers (pfs_rootfs (flat_pfs im [layer0])) = Ok [layer0]"
  "reader_layers (pfs_rootfs (flat_pfs im [layer1, layer0])) = Ok [layer1, layer0]"
  "Rootfs_from_capnp (layered_message [layer0]) = Ok (layered [layer0])"
  "wf_pfs (flat_pfs im [layer0])" "wf_pfs (flat_pfs im [layer1, layer0])"
proof -
  note r = Rootfs_roundtrip [OF layered_wf(1) layered_fills(1)] Rootfs_roundtrip [OF layered_wf(2) layered_fills(2)]
  show "Rootfs_from_capnp (layered_message [layer0]) = Ok (layered [layer0])" by (rule r)
  from r show l: "reader_layers (pfs_rootfs (flat_pfs im [layer0])) = Ok [layer0]"
    "reader_layers (pfs_rootfs (flat_pfs im [layer1, layer0])) = Ok [layer1, layer0]"
    by (auto simp: Rootfs_from_capnp_def reader_layers_def flat_pfs_def layered_def)
  have "wf_layer layer0" "wf_layer layer1"
    by (simp_all add: wf_layer_def layer0_def layer1_def flat_dir_def flat_fifo_def new_inode_def new_whiteout_def)
  with l show "wf_pfs (flat_pfs im [layer0])" "wf_pfs (flat_pfs im [layer1, layer0])"
    by (simp_all add: wf_pfs_def wf_reader_def)
qed

lemma flat_opens:
  assumes "write_rootfs (flat_env c c') tag_registry (layered ls) im m tag = Ok (desc, im'')" and "wf_Rootfs (layered ls)"
    and "Rootfs_fill_capnp (layered ls) = Ok (layered_message ls)" and "rootfs_collision_free (flat_env c c') im (layered ls)"
  shows "PuzzleFS_open (flat_env c c') im'' tag None = Ok (flat_pfs im'' ls)"
  using write_rootfs_opens [OF assms(1) flat_env_laws(1-3) assms(4,2)] assms(3) by (auto simp: layered_def flat_pfs_def)

section \<open>The delta, evaluated\<close>

lemma flat_lookup:
  assumes "wf_pfs pfs" and "reader_layers (pfs_rootfs pfs) = Ok ls"
  shows "PuzzleFS_lookup pfs p = lookup_path (\<lambda>i. ok_or (layers_view ls i) (from_errno ENOENT)) p"
proof -
  have "PuzzleFS_find_inode pfs = (\<lambda>i. ok_or (layers_view ls i) (from_errno ENOENT))"
    by (rule ext) (simp add: pfs.find_view [OF assms(1)] pfs_view_def reader_view_def assms(2))
  then show ?thesis by (simp add: PuzzleFS_lookup_def)
qed

lemma flat_max:
  "PuzzleFS_max_inode (flat_pfs im [layer0]) = Ok 2" "PuzzleFS_max_inode (flat_pfs im [layer1, layer0]) = Ok 2"
  using wf_pfs_max_inode [OF flat_pfs_layers(4,1)] wf_pfs_max_inode [OF flat_pfs_layers(5,2)]
  by (simp_all add: layer0_def layer1_def flat_dir_def flat_fifo_def new_inode_def new_whiteout_def)

lemma layer_views:
  "layers_view [layer0] 1 = Some (hd layer0)" "layers_view [layer0] 2 = Some (layer0 ! 1)"
  "layers_view [layer1, layer0] 1 = Some (hd layer1)" "layers_view [layer1, layer0] 2 = None"
  by (simp_all add: layer0_def layer1_def flat_dir_def flat_fifo_def new_inode_def new_whiteout_def)

lemma flat_root_entries:
  "i_mode (hd layer0) = InodeMode.Dir \<lparr>dl_look_below = False, dl_entries = [\<lparr>de_ino = 2, de_name = [115]\<rparr>]\<rparr>"
  "i_mode (hd layer1) = InodeMode.Dir \<lparr>dl_look_below = False, dl_entries = [\<lparr>de_ino = 2, de_name = [115]\<rparr>]\<rparr>"
  by (simp_all add: layer0_def layer1_def flat_dir_def new_inode_def)

lemmas flat_delta_defs = flat_max flat_lookup [OF flat_pfs_layers(4,1)] flat_lookup [OF flat_pfs_layers(5,2)]
  lookup_path_def list_get_def layer_views flat_root_entries

lemma flat_scan_delta:
  "scan_rootfs (flat_host []) (Some (flat_pfs im [layer0])) host_root =
    Ok (flat_state [\<lparr>de_ino = 2, de_name = [115]\<rparr>] [] [new_whiteout 2] Map.empty 3)"
  by (simp add: scan_defs flat_defs Let_def flat_state_def flat_delta_defs del: layers_view.simps)

lemma flat_second:
  "build_delta (flat_host []) env C host_root im (Some (flat_pfs im' [layer0])) [] m = Some (Ok (layer1, im, [], m))"
  using flat_build [OF flat_scan_delta, of "[]" env C im im' m]
  by (simp add: layer1_def flat_dir_def new_inode_def new_whiteout_def word_le_nat_alt)

lemma layers_differ: "layer1 \<noteq> layer0"
  "wf_Rootfs (layered [l, layer0]) \<Longrightarrow> Rootfs_fill_capnp (layered [l, layer0]) = Ok (layered_message [l, layer0]) \<Longrightarrow>
    layered_message [l, layer0] \<noteq> layered_message [layer0]"
proof -
  show "layer1 \<noteq> layer0" by (simp add: layer0_def layer1_def flat_fifo_def new_inode_def new_whiteout_def)
  show "layered_message [l, layer0] \<noteq> layered_message [layer0]"
    if "wf_Rootfs (layered [l, layer0])" "Rootfs_fill_capnp (layered [l, layer0]) = Ok (layered_message [l, layer0])"
    using Rootfs_roundtrip [OF that] flat_pfs_layers(3) by (auto simp: layered_def)
qed

lemma flat_store_ok:
  assumes "im_blobs im \<subseteq>\<^sub>m blob9(base16_encode (pad32 [10]) \<mapsto> \<lparr>bf_data = [10], bf_verity = False\<rparr>)"
  shows "store_ok (flat_env c c') Noop im []"
proof -
  have "name = base16_encode (pad32 (bf_data f)) \<and> (bf_data f = [9] \<or> bf_data f = [10])" if "im_blobs im name = Some f" for name f
  proof -
    from assms that have "(blob9(base16_encode (pad32 [10]) \<mapsto> \<lparr>bf_data = [10], bf_verity = False\<rparr>)) name = Some f"
      by (metis domI map_le_def)
    then show ?thesis by (auto simp: blob9_def split: if_splits)
  qed
  moreover from this have "bf_data f = [9] \<or> bf_data f = [10]" if "f \<in> ran (im_blobs im)" for f
    using that by (auto simp: ran_def)
  then have "bf_data f = bf_data g" if "f \<in> ran (im_blobs im)" "g \<in> ran (im_blobs im)" "pad32 (bf_data f) = pad32 (bf_data g)" for f g
    using that pad32_nine_ten by metis
  ultimately show ?thesis
    using flat_env_laws(1) [of c c'] by (simp add: store_ok_def content_addressed_def no_collision_def chunk_blobs_def base16_def)
qed

lemma flat_history:
  assumes wf: "wf_Rootfs (layered [l, layer0])" and fill: "Rootfs_fill_capnp (layered [l, layer0]) = Ok (layered_message [l, layer0])"
    and "l \<noteq> layer0" and second: "\<And>env im m. build_delta (flat_host es) (env :: tags env) Noop host_root im
      (Some (flat_pfs im [layer0])) [] m = Some (Ok (l, im, [], m))"
  obtains im desc im' where
    "build_history (layers_env l) tag_registry im ''t'' (flat_host one_fifo) host_root (flat_tree one_fifo) (\<lambda>ms. []) []"
    "PuzzleFS_open (layers_env l) im ''t'' None = Ok (flat_pfs im [layer0])"
    "add_rootfs_delta (flat_host es) (layers_env l) tag_registry Noop host_root im ''u'' ''t'' = Some (Ok (desc, im'))"
    "PuzzleFS_open (layers_env l) im' ''u'' None = Ok (flat_pfs im' [l, layer0])"
    "delta_collision_free (flat_host es) (layers_env l) tag_registry Noop host_root im ''t''" "store_ok (layers_env l) Noop im []" "store_ok (layers_env l) Noop im' []"
proof -
  let ?c = "layered_message [layer0]" and ?c' = "layered_message [l, layer0]"
  from flat_initial obtain desc0 m0 where b: "build_initial_rootfs (flat_host one_fifo) (layers_env l) tag_registry Noop host_root
      tag_image ''t'' = Some (Ok (desc0, \<lparr>im_blobs = blob9, im_oci = [''t'' \<mapsto> m0]\<rparr>))" by blast
  define im where "im = \<lparr>im_blobs = blob9, im_oci = [''t'' \<mapsto> m0]\<rparr>"
  have le: "im_blobs im \<subseteq>\<^sub>m blob9(base16_encode (pad32 [10]) \<mapsto> \<lparr>bf_data = [10], bf_verity = False\<rparr>)"
    "im_blobs tag_image \<subseteq>\<^sub>m blob9(base16_encode (pad32 [10]) \<mapsto> \<lparr>bf_data = [10], bf_verity = False\<rparr>)"
    using pad32_nine_ten by (auto simp: map_le_def im_def blob9_def base16_pad32_inj tag_image_def)
  have cf: "initial_collision_free (flat_host one_fifo) (layers_env l) tag_registry Noop host_root tag_image"
    using flat_collision_free [OF le(2)] by (auto simp: initial_collision_free_def flat_first)
  have hist: "build_history (layers_env l) tag_registry im ''t'' (flat_host one_fifo) host_root (flat_tree one_fifo) (\<lambda>ms. []) []"
    by (rule build_history.first [OF flat_host_shows [OF one_fifo_ok(1)] _ flat_host_laws [OF one_fifo_ok(1)]
        flat_store_ok [OF le(2)] b [folded im_def] cf])
      (simp add: t_small_def flat_entries one_fifo_def)
  have "write_rootfs (layers_env l) tag_registry (layered [layer0]) tag_image tag_manifest ''t'' = Ok (desc0, im)"
    using b by (simp add: build_initial_rootfs_def flat_first tag_registry_def layered_def im_def)
  from flat_opens [OF this layered_wf(1) layered_fills(1) flat_collision_free [OF le(2)]]
  have pfs: "PuzzleFS_open (layers_env l) im ''t'' None = Ok (flat_pfs im [layer0])" .
  have "im_blobs im (base16_encode (pad32 [10])) = None"
    using pad32_nine_ten by (simp add: im_def blob9_def base16_pad32_inj)
  moreover have "env_write_message (layers_env l) ?c' = Ok [10]" using layers_differ(2) [OF wf fill] by simp
  ultimately obtain desc m' where wr: "write_rootfs (layers_env l) tag_registry (layered [l, layer0]) im tag_manifest ''u'' =
    Ok (desc, \<lparr>im_blobs = (im_blobs im)(base16_encode (pad32 [10]) \<mapsto> \<lparr>bf_data = [10], bf_verity = False\<rparr>),
      im_oci = (im_oci im)(''u'' \<mapsto> m')\<rparr>)"
    using flat_write [OF fill] by blast
  define im' where "im' = \<lparr>im_blobs = (im_blobs im)(base16_encode (pad32 [10]) \<mapsto> \<lparr>bf_data = [10], bf_verity = False\<rparr>),
      im_oci = (im_oci im)(''u'' \<mapsto> m')\<rparr>"
  have le': "im_blobs im' \<subseteq>\<^sub>m blob9(base16_encode (pad32 [10]) \<mapsto> \<lparr>bf_data = [10], bf_verity = False\<rparr>)"
    by (simp add: im'_def im_def)
  have "add_rootfs_delta (flat_host es) (layers_env l) tag_registry Noop host_root im ''u'' ''t'' = Some (Ok (desc, im'))"
  proof -
    have "rg_empty_manifest tag_registry im = Ok tag_manifest" by (simp add: tag_registry_def)
    moreover have "open_rootfs_blob (layers_env l) im ''t'' None = Ok ?c"
      using PuzzleFS_open_rootfs(1) [OF pfs] by (simp add: flat_pfs_def)
    moreover have "(layered [layer0])\<lparr>rf_metadatas := [l, layer0], rf_fs_verity_data := []\<rparr> = layered [l, layer0]"
      "rf_metadatas (layered [layer0]) = [layer0]" "insert_all btree_insert (rf_fs_verity_data (layered [layer0])) [] = []"
      by (simp_all add: layered_def insert_all_def)
    ultimately show ?thesis
      using wr assms(3)
      by (simp add: add_rootfs_delta_def pfs Rootfs_try_from_def flat_pfs_layers(3) second im'_def)
  qed
  moreover from flat_opens [OF wr [folded im'_def] wf fill flat_collision_free [OF le(1)]]
  have "PuzzleFS_open (layers_env l) im' ''u'' None = Ok (flat_pfs im' [l, layer0])" .
  moreover have "delta_collision_free (flat_host es) (layers_env l) tag_registry Noop host_root im ''t''"
    using flat_collision_free [OF le(1)] by (auto simp: delta_collision_free_def pfs second)
  ultimately show thesis
    using that [OF hist pfs] flat_store_ok [OF le(1)] flat_store_ok [OF le'] by blast
qed

lemma flat_delta_ok: "delta_ok host_root (flat_tree one_fifo) (\<lambda>ms. []) host_root (flat_tree es)"
proof (rule delta_ok_no_links)
  show "inj_on (t_ino (flat_tree one_fifo)) (t_paths host_root (flat_tree one_fifo))"
    unfolding flat_entries by (simp add: one_fifo_def) (simp add: inj_on_def flat_tree_def fifo_md_def host_md_def host_root_def)
qed simp

abbreviation first_snap :: snapshot where
  "first_snap \<equiv> snap (flat_host one_fifo) host_root (flat_tree one_fifo) (\<lambda>ms. [])"

lemma flat_history_two:
  assumes wf: "wf_Rootfs (layered [l, layer0])" and fill: "Rootfs_fill_capnp (layered [l, layer0]) = Ok (layered_message [l, layer0])"
    and "l \<noteq> layer0" and second: "\<And>env im m. build_delta (flat_host es) (env :: tags env) Noop host_root im
      (Some (flat_pfs im [layer0])) [] m = Some (Ok (l, im, [], m))"
    and es: "flat_ok es" "delta_ok host_root (flat_tree one_fifo) (\<lambda>ms. []) host_root (flat_tree es)" "length es < 10"
  obtains im where "build_history (layers_env l) tag_registry im ''u'' (flat_host es) host_root (flat_tree es)
      (removed_names host_root (flat_tree one_fifo) (\<lambda>ms. []) host_root (flat_tree es)) [first_snap]"
    "PuzzleFS_open (layers_env l) im ''u'' None = Ok (flat_pfs im [l, layer0])"
proof -
  from assms(1-4) obtain im desc im' where
    h: "build_history (layers_env l) tag_registry im ''t'' (flat_host one_fifo) host_root (flat_tree one_fifo) (\<lambda>ms. []) []"
    "PuzzleFS_open (layers_env l) im ''t'' None = Ok (flat_pfs im [layer0])"
    "add_rootfs_delta (flat_host es) (layers_env l) tag_registry Noop host_root im ''u'' ''t'' = Some (Ok (desc, im'))"
    "PuzzleFS_open (layers_env l) im' ''u'' None = Ok (flat_pfs im' [l, layer0])"
    "delta_collision_free (flat_host es) (layers_env l) tag_registry Noop host_root im ''t''" "store_ok (layers_env l) Noop im []" "store_ok (layers_env l) Noop im' []"
    by (rule flat_history)
  have "numbers_left (layers_env l) im ''t'' host_root (flat_tree es)"
    unfolding numbers_left_def using h(2) es(3) by (auto simp: t_small_over_def flat_entries flat_max)
  from build_history.delta [OF h(1) flat_host_shows [OF es(1)] flat_host_laws [OF es(1)] h(6,3,5) es(2) this refl] h(4)
  show thesis by (intro that) simp_all
qed

text \<open>The second layer removes the fifo.\<close>

lemma flat_removed:
  obtains im where "build_history two_layers tag_registry im ''u'' (flat_host []) host_root (flat_tree [])
      (removed_names host_root (flat_tree one_fifo) (\<lambda>ms. []) host_root (flat_tree [])) [first_snap]"
    "PuzzleFS_open two_layers im ''u'' None = Ok (flat_pfs im [layer1, layer0])"
  by (rule flat_history_two [OF layered_wf(2) layered_fills(2) layers_differ(1) flat_second one_fifo_ok(2) flat_delta_ok])
    (simp, rule that)

section \<open>A change that is taken back\<close>

text \<open>The second layer changes the permissions of the fifo; then the host has the first tree again.\<close>

definition layer_chmod :: "Inode list" where
  "layer_chmod = [flat_dir [\<lparr>de_ino = 2, de_name = [115]\<rparr>], flat_fifo 2 (fifo_md 12 0x1A4)]"

abbreviation chmod_env :: "tags env" where
  "chmod_env \<equiv> flat_env (layered_message [layer_chmod, layer0]) (layered_message [layer_chmod, layer0])"

lemma chmod_facts:
  "Rootfs_fill_capnp (layered [layer_chmod, layer0]) = Ok (layered_message [layer_chmod, layer0])"
  "wf_Rootfs (layered [layer_chmod, layer0])"
  "Rootfs_from_capnp (layered_message [layer_chmod, layer0]) = Ok (layered [layer_chmod, layer0])"
  "reader_layers (pfs_rootfs (flat_pfs im [layer_chmod, layer0])) = Ok [layer_chmod, layer0]"
  "wf_pfs (flat_pfs im [layer_chmod, layer0])" "PuzzleFS_max_inode (flat_pfs im [layer_chmod, layer0]) = Ok 2"
  "layers_view [layer_chmod, layer0] 1 = Some (hd layer_chmod)" "layers_view [layer_chmod, layer0] 2 = Some (last layer_chmod)"
  "i_mode (hd layer_chmod) = InodeMode.Dir \<lparr>dl_look_below = False, dl_entries = [\<lparr>de_ino = 2, de_name = [115]\<rparr>]\<rparr>"
  "i_ino (last layer_chmod) = 2"
proof -
  show fill: "Rootfs_fill_capnp (layered [layer_chmod, layer0]) = Ok (layered_message [layer_chmod, layer0])"
    using layer_inodes by (intro layered_fill) (simp_all add: layer0_def layer_chmod_def)
  show wf: "wf_Rootfs (layered [layer_chmod, layer0])"
    by (auto simp: wf_Rootfs_def layered_def layer0_def layer_chmod_def flat_dir_def flat_fifo_def new_inode_def
        wf_VerityData_def btree_invar_def)
  from Rootfs_roundtrip [OF wf fill]
  show r: "Rootfs_from_capnp (layered_message [layer_chmod, layer0]) = Ok (layered [layer_chmod, layer0])" .
  from r show l: "reader_layers (pfs_rootfs (flat_pfs im [layer_chmod, layer0])) = Ok [layer_chmod, layer0]"
    by (auto simp: Rootfs_from_capnp_def reader_layers_def flat_pfs_def layered_def)
  have "wf_layer layer0" "wf_layer layer_chmod"
    by (simp_all add: wf_layer_def layer0_def layer_chmod_def flat_dir_def flat_fifo_def new_inode_def)
  with l show wf': "wf_pfs (flat_pfs im [layer_chmod, layer0])" by (simp add: wf_pfs_def wf_reader_def)
  show "PuzzleFS_max_inode (flat_pfs im [layer_chmod, layer0]) = Ok 2"
    using wf_pfs_max_inode [OF wf' l] by (simp add: layer0_def layer_chmod_def flat_dir_def flat_fifo_def new_inode_def)
qed (simp_all add: layer_chmod_def flat_dir_def flat_fifo_def new_inode_def)

definition chmod_fifo :: "(bytes \<times> host_metadata) list" where
  "chmod_fifo = [([115], fifo_md 12 0x1A4)]"

lemma chmod_second:
  "build_delta (flat_host chmod_fifo) env C host_root im (Some (flat_pfs im' [layer0])) [] m = Some (Ok (layer_chmod, im, [], m))"
proof -
  have "scan_rootfs (flat_host chmod_fifo) (Some (flat_pfs im' [layer0])) host_root =
    Ok (flat_state [\<lparr>de_ino = 2, de_name = [115]\<rparr>] [\<lparr>bo_ino = 2, bo_md = fifo_md 12 0x1A4, bo_additional = None\<rparr>] []
      [12 \<mapsto> 2] 3)"
    by (simp add: scan_defs flat_defs Let_def flat_state_def flat_delta_defs chmod_fifo_def del: layers_view.simps)
      (simp add: layer0_def flat_fifo_def new_inode_def)
  from flat_build [OF this, of "[flat_fifo 2 (fifo_md 12 0x1A4)]" env C im m] show ?thesis
    by (simp add: render_other_def new_other_def layer_chmod_def flat_dir_def flat_fifo_def new_inode_def fifo_md_def host_md_def)
qed

text \<open>A history of two layers in which nothing is removed.\<close>

lemma chmod_history:
  obtains im where "build_history (layers_env layer_chmod) tag_registry im ''u'' (flat_host chmod_fifo) host_root (flat_tree chmod_fifo)
      (removed_names host_root (flat_tree one_fifo) (\<lambda>ms. []) host_root (flat_tree chmod_fifo)) [first_snap]"
    "PuzzleFS_open (layers_env layer_chmod) im ''u'' None = Ok (flat_pfs im [layer_chmod, layer0])"
proof -
  have ne: "layer_chmod \<noteq> layer0" by (simp add: layer0_def layer_chmod_def flat_fifo_def new_inode_def fifo_md_def)
  have ok: "flat_ok chmod_fifo" "length chmod_fifo < 10"
    by (simp_all add: flat_ok_def chmod_fifo_def fifo_md_def host_md_def plain_name_def slash_def dot_def)
  show thesis by (rule flat_history_two [OF chmod_facts(2,1) ne chmod_second ok(1) flat_delta_ok ok(2)]) (rule that)
qed

lemma chmod_build:
  "build_delta (flat_host one_fifo) env C host_root im (Some (flat_pfs im' [layer_chmod, layer0])) [] m =
    Some (Ok (layer0, im, [], m))"
proof -
  have "scan_rootfs (flat_host one_fifo) (Some (flat_pfs im' [layer_chmod, layer0])) host_root =
    Ok (flat_state [\<lparr>de_ino = 2, de_name = [115]\<rparr>] [\<lparr>bo_ino = 2, bo_md = fifo_md 12 0x1ED, bo_additional = None\<rparr>] []
      [12 \<mapsto> 2] 3)"
    by (simp add: scan_defs flat_defs Let_def flat_state_def chmod_facts flat_lookup [OF chmod_facts(5,4)]
        lookup_path_def list_get_def one_fifo_def del: layers_view.simps)
  from flat_build [OF this, of "[flat_fifo 2 (fifo_md 12 0x1ED)]" env C im m] show ?thesis
    by (simp add: render_other_def new_other_def layer0_def flat_dir_def flat_fifo_def new_inode_def fifo_md_def host_md_def)
qed

lemma chmod_delta:
  obtains im desc im' where "PuzzleFS_open chmod_env im ''t'' None = Ok (flat_pfs im [layer_chmod, layer0])"
    "add_rootfs_delta (flat_host one_fifo) chmod_env tag_registry Noop host_root im ''u'' ''t'' = Some (Ok (desc, im'))"
    "delta_collision_free (flat_host one_fifo) chmod_env tag_registry Noop host_root im ''t''"
proof -
  let ?c = "layered_message [layer_chmod, layer0]"
  have "im_blobs tag_image (base16_encode (pad32 [9])) = None" by (simp add: tag_image_def)
  from flat_write [OF chmod_facts(1) _ this, of ?c ?c tag_manifest "''t''"] obtain desc0 m0 where
    wr0: "write_rootfs chmod_env tag_registry (layered [layer_chmod, layer0]) tag_image tag_manifest ''t'' =
      Ok (desc0, \<lparr>im_blobs = blob9, im_oci = [''t'' \<mapsto> m0]\<rparr>)" by (auto simp: blob9_def tag_image_def)
  define im where "im = \<lparr>im_blobs = blob9, im_oci = [''t'' \<mapsto> m0]\<rparr>"
  have cf: "rootfs_collision_free chmod_env x r" if "im_blobs x \<subseteq>\<^sub>m blob9" for x r
    by (intro flat_collision_free map_le_trans [OF that]) (use pad32_nine_ten in \<open>auto simp: map_le_def blob9_def base16_pad32_inj\<close>)
  have pfs: "PuzzleFS_open chmod_env im ''t'' None = Ok (flat_pfs im [layer_chmod, layer0])"
    using flat_opens [OF wr0 chmod_facts(2,1)] cf [of tag_image] by (simp add: im_def tag_image_def)
  have "serialize_metadata chmod_env (layered [layer_chmod, layer0]) = Ok [9]" using chmod_facts(1) by (simp add: serialize_metadata_def)
  then obtain desc m' where wr: "write_rootfs chmod_env tag_registry (layered [layer_chmod, layer0]) im tag_manifest ''u'' =
      Ok (desc, \<lparr>im_blobs = blob9, im_oci = (im_oci im)(''u'' \<mapsto> m')\<rparr>)"
    by (simp add: write_rootfs_def tag_registry_def put_blob_def Noop_def Noop_compress_all_def Noop_append_extension_def
        Let_def get_fs_verity_digest_def store_blob_def base16_def im_def blob9_def)
  have "rg_empty_manifest tag_registry im = Ok tag_manifest" by (simp add: tag_registry_def)
  moreover have "open_rootfs_blob chmod_env im ''t'' None = Ok ?c"
    using PuzzleFS_open_rootfs(1) [OF pfs] by (simp add: flat_pfs_def)
  moreover have "(layered [layer_chmod, layer0])\<lparr>rf_metadatas := [layer_chmod, layer0], rf_fs_verity_data := []\<rparr> = layered [layer_chmod, layer0]"
    "rf_metadatas (layered [layer_chmod, layer0]) = [layer_chmod, layer0]"
    "insert_all btree_insert (rf_fs_verity_data (layered [layer_chmod, layer0])) [] = []"
    by (simp_all add: layered_def insert_all_def)
  ultimately have "add_rootfs_delta (flat_host one_fifo) chmod_env tag_registry Noop host_root im ''u'' ''t'' =
      Some (Ok (desc, \<lparr>im_blobs = blob9, im_oci = (im_oci im)(''u'' \<mapsto> m')\<rparr>))"
    using wr by (simp add: add_rootfs_delta_def pfs Rootfs_try_from_def chmod_facts(3) chmod_build)
  moreover have "delta_collision_free (flat_host one_fifo) chmod_env tag_registry Noop host_root im ''t''"
  proof -
    have "im_blobs im \<subseteq>\<^sub>m blob9" by (simp add: im_def)
    from cf [OF this] show ?thesis by (auto simp: delta_collision_free_def pfs chmod_build)
  qed
  ultimately show thesis using that [OF pfs] by blast
qed

section \<open>A hard-linked fifo\<close>

text \<open>One fifo with the names \<open>[97]\<close> and \<open>[98]\<close>; the host keeps the second name.\<close>

definition layer_linked :: "Inode list" where
  "layer_linked = [flat_dir [\<lparr>de_ino = 2, de_name = [97]\<rparr>, \<lparr>de_ino = 2, de_name = [98]\<rparr>], flat_fifo 2 (fifo_md 12 0x1ED)]"

definition layer_clash :: "Inode list" where
  "layer_clash = [flat_dir [\<lparr>de_ino = 2, de_name = [97]\<rparr>, \<lparr>de_ino = 2, de_name = [98]\<rparr>], new_whiteout 2, flat_fifo 2 (fifo_md 12 0x1ED)]"

definition kept_fifo :: "(bytes \<times> host_metadata) list" where
  "kept_fifo = [([98], fifo_md 12 0x1ED)]"

lemma linked_facts:
  "flat_ok kept_fifo" "reader_layers (pfs_rootfs (flat_pfs im [layer_linked])) = Ok [layer_linked]"
  "wf_pfs (flat_pfs im [layer_linked])" "PuzzleFS_max_inode (flat_pfs im [layer_linked]) = Ok 2"
  "layers_view [layer_linked] 1 = Some (hd layer_linked)" "layers_view [layer_linked] 2 = Some (last layer_linked)"
  "i_mode (hd layer_linked) = InodeMode.Dir \<lparr>dl_look_below = False,
     dl_entries = [\<lparr>de_ino = 2, de_name = [97]\<rparr>, \<lparr>de_ino = 2, de_name = [98]\<rparr>]\<rparr>" "i_ino (last layer_linked) = 2"
proof -
  show "flat_ok kept_fifo"
    by (simp add: flat_ok_def kept_fifo_def fifo_md_def host_md_def plain_name_def slash_def dot_def)
  have "Rootfs_fill_capnp (layered [layer_linked]) = Ok (layered_message [layer_linked])"
    by (intro layered_fill) (simp_all add: layer_linked_def fits_Inode_def flat_dir_def flat_fifo_def new_inode_def)
  moreover have "wf_Rootfs (layered [layer_linked])"
    by (auto simp: wf_Rootfs_def layered_def layer_linked_def flat_dir_def flat_fifo_def new_inode_def wf_VerityData_def btree_invar_def)
  ultimately have "Rootfs_from_capnp (layered_message [layer_linked]) = Ok (layered [layer_linked])" by (intro Rootfs_roundtrip)
  then show l: "reader_layers (pfs_rootfs (flat_pfs im [layer_linked])) = Ok [layer_linked]"
    by (auto simp: Rootfs_from_capnp_def reader_layers_def flat_pfs_def layered_def)
  have "wf_layer layer_linked"
    by (simp add: wf_layer_def layer_linked_def flat_dir_def flat_fifo_def new_inode_def)
  with l show wf: "wf_pfs (flat_pfs im [layer_linked])" by (simp add: wf_pfs_def wf_reader_def)
  from wf_pfs_max_inode [OF wf l] show "PuzzleFS_max_inode (flat_pfs im [layer_linked]) = Ok 2"
    by (simp add: layer_linked_def flat_dir_def flat_fifo_def new_inode_def)
qed (simp_all add: layer_linked_def flat_dir_def flat_fifo_def new_inode_def)

lemma linked_lookups:
  "PuzzleFS_lookup (flat_pfs im [layer_linked]) [RootDir] = Ok (Some (hd layer_linked))"
  "PuzzleFS_lookup (flat_pfs im [layer_linked]) [RootDir, Normal [98]] = Ok (Some (last layer_linked))"
  by (simp_all add: flat_lookup [OF linked_facts(3,2)] lookup_path_def list_get_def linked_facts del: layers_view.simps)

lemma linked_scan:
  "scan_rootfs (flat_host kept_fifo) (Some (flat_pfs im [layer_linked])) host_root =
    Ok (flat_state [\<lparr>de_ino = 2, de_name = [97]\<rparr>, \<lparr>de_ino = 2, de_name = [98]\<rparr>]
      [\<lparr>bo_ino = 2, bo_md = fifo_md 12 0x1ED, bo_additional = None\<rparr>] [new_whiteout 2] [12 \<mapsto> 2] 3)"
  by (simp add: scan_defs flat_defs Let_def flat_state_def linked_lookups linked_facts kept_fifo_def del: layers_view.simps)

lemma linked_build:
  "build_delta (flat_host kept_fifo) env C host_root im (Some (flat_pfs im' [layer_linked])) [] m =
    Some (Ok (layer_clash, im, [], m))"
  using flat_build [OF linked_scan, of "[flat_fifo 2 (fifo_md 12 0x1ED)]" env C im im' m]
  by (simp add: render_other_def new_other_def layer_clash_def flat_dir_def flat_fifo_def new_inode_def new_whiteout_def fifo_md_def
      host_md_def word_le_nat_alt)

text \<open>The binary search over the layer meets the whiteout first.\<close>

lemma clash_hides: "RootfsReader_find_inode (layered_message [layer_clash, layer_linked]) 2 = Err (from_errno ENOENT)"
  by (simp add: RootfsReader_find_inode_def layered_message_def layered_def Rootfs_fill_capnp_def InodeVector_fill_capnp_def
      Inode_fill_capnp_def layer_clash_def layer_linked_def flat_dir_def flat_fifo_def new_inode_def new_whiteout_def len_u32_def
      InodeVector_find_inode_def find_inode_loop.simps list_get_def Inode_from_capnp_def usub_def uadd_def
      try_into_u32_def InodeAdditional_from_capnp_def)

end
