(* ===== verification/Delta_Properties.thy ===== *)
theory Delta_Properties
  imports Sample_Delta
begin

text \<open>
  Properties of images with several layers: what a sequence of deltas shows, and the changes of a tree that
  a delta cannot express.
\<close>

section \<open>Histories\<close>

text \<open>
  C6: An image made by a first build and a sequence of deltas, each on the tag that the one before it wrote, shows
  the last host tree: it opens; its lookups find exactly the paths of the tree; every inode found has the
  type, owner, permissions, extended attributes, link target and device numbers of the path, reads of a file
  return its bytes, and a directory lists the names removed since the first layer and then its own; two
  paths have one inode number exactly if they are hard links on the host; and a removed name is
  \<open>ENOENT\<close>. The deltas are restricted: removed names do not come back, kept hard links stay links of one
  file, and a removed path has no other link (\<open>delta_ok\<close>); inode numbers do not run out (\<open>numbers_left\<close>); and
  no delta goes back to an earlier state, that is to the same tree with the same removed names, unless it is
  also the current one, because the layer of such a delta is dropped.
\<close>

theorem history_shows_tree:
  assumes "build_history env rg im tag h rootfs T rn past"
    and "\<forall>data. length (env_fs_verity_sha256 env data) = SHA256_BLOCK_SIZE" and "messages_ok env" and "registry_ok env rg"
  shows "\<exists>pfs. PuzzleFS_open env im tag None = Ok pfs \<and>
    (\<forall>ns. (\<exists>i. PuzzleFS_lookup pfs (abs_path ns) = Ok (Some i)) \<longleftrightarrow> rootfs @ map Normal ns \<in> t_paths rootfs T) \<and>
    (\<forall>ns i. PuzzleFS_lookup pfs (abs_path ns) = Ok (Some i) \<longrightarrow>
       shows_node env (pfs_oci pfs) None i (node_at h T (rn ns) (rootfs @ map Normal ns))) \<and>
    (\<forall>ns ns' i i'. PuzzleFS_lookup pfs (abs_path ns) = Ok (Some i) \<and> PuzzleFS_lookup pfs (abs_path ns') = Ok (Some i') \<longrightarrow>
       (i_ino i = i_ino i' \<longleftrightarrow> t_ino T (rootfs @ map Normal ns) = t_ino T (rootfs @ map Normal ns'))) \<and>
    (\<forall>ms n. rootfs @ map Normal ms \<in> set (t_dirs T) \<and> n \<in> set (rn ms) \<longrightarrow>
       PuzzleFS_lookup pfs (abs_path (ms @ [n])) = Err (from_errno ENOENT))"
proof -
  from history_shows [OF assms] obtain pfs nm gone inodes rest open_file where
    pfs: "PuzzleFS_open env im tag None = Ok pfs" "pfs_oci pfs = im" and host: "host_shows h open_file rootfs T"
    and tree: "image_tree env pfs h rootfs T nm gone inodes (inodes # rest)"
    and rn: "\<forall>ms. rootfs @ map Normal ms \<in> set (t_dirs T) \<longrightarrow> map de_name (gone (rootfs @ map Normal ms)) = rn ms"
    unfolding tag_shows_def by blast
  note lookup = tree_lookup_iff [OF tree]
  show ?thesis
  proof (intro exI [of _ pfs] conjI allI impI)
    show "PuzzleFS_open env im tag None = Ok pfs" by (rule pfs(1))
    show "(\<exists>i. PuzzleFS_lookup pfs (abs_path ns) = Ok (Some i)) \<longleftrightarrow> rootfs @ map Normal ns \<in> t_paths rootfs T" for ns
      unfolding lookup using image_treeD(7) [OF tree] by blast
    show "shows_node env (pfs_oci pfs) None i (node_at h T (rn ns) (rootfs @ map Normal ns))"
      if "PuzzleFS_lookup pfs (abs_path ns) = Ok (Some i)" for ns i
      using that unfolding lookup by (elim conjE) (rule tree_node_shown [OF host tree rn])
    show "i_ino i = i_ino i' \<longleftrightarrow> t_ino T (rootfs @ map Normal ns) = t_ino T (rootfs @ map Normal ns')"
      if "PuzzleFS_lookup pfs (abs_path ns) = Ok (Some i) \<and> PuzzleFS_lookup pfs (abs_path ns') = Ok (Some i')" for ns ns' i i'
      by (rule tree_lookup_links [OF tree conjunct1 [OF that] conjunct2 [OF that]])
    show "PuzzleFS_lookup pfs (abs_path (ms @ [n])) = Err (from_errno ENOENT)"
      if "rootfs @ map Normal ms \<in> set (t_dirs T) \<and> n \<in> set (rn ms)" for ms n
      using removed_lookup [OF tree conjunct1 [OF that]] rn that by (metis list.set_map)
  qed
qed

theorem history_shows_tree_witness:
  "\<exists>im pfs i im' pfs' j. PuzzleFS_open two_layers im ''u'' None = Ok pfs \<and> PuzzleFS_lookup pfs (abs_path []) = Ok (Some i) \<and>
    map_ok (map de_name) (dir_entries i) = Ok [[115]] \<and> PuzzleFS_lookup pfs (abs_path [[115]]) = Err (from_errno ENOENT) \<and>
    PuzzleFS_open (layers_env layer_chmod) im' ''u'' None = Ok pfs' \<and> PuzzleFS_lookup pfs' (abs_path [[115]]) = Ok (Some j) \<and>
    i_mode j = Fifo \<and> i_permissions j = 0x1A4"
proof -
  from flat_removed obtain im where
    h: "build_history two_layers tag_registry im ''u'' (flat_host []) host_root (flat_tree [])
      (removed_names host_root (flat_tree one_fifo) (\<lambda>ms. []) host_root (flat_tree [])) [first_snap]" by blast
  have rn: "removed_names host_root (flat_tree one_fifo) (\<lambda>ms. []) host_root (flat_tree []) [] = [[115]]"
    by (simp add: removed_names_def flat_tree_def one_fifo_def)
  from history_shows_tree [OF h flat_env_laws(4,2,3)] obtain pfs where pfs: "PuzzleFS_open two_layers im ''u'' None = Ok pfs"
    and ex: "\<forall>ns. (\<exists>i. PuzzleFS_lookup pfs (abs_path ns) = Ok (Some i)) \<longleftrightarrow> host_root @ map Normal ns \<in> t_paths host_root (flat_tree [])"
    and nodes: "\<forall>ns i. PuzzleFS_lookup pfs (abs_path ns) = Ok (Some i) \<longrightarrow> shows_node two_layers (pfs_oci pfs) None i (node_at (flat_host [])
      (flat_tree []) (removed_names host_root (flat_tree one_fifo) (\<lambda>ms. []) host_root (flat_tree []) ns) (host_root @ map Normal ns))"
    and gone: "\<forall>ms n. host_root @ map Normal ms \<in> set (t_dirs (flat_tree [])) \<and>
      n \<in> set (removed_names host_root (flat_tree one_fifo) (\<lambda>ms. []) host_root (flat_tree []) ms) \<longrightarrow>
      PuzzleFS_lookup pfs (abs_path (ms @ [n])) = Err (from_errno ENOENT)"
    by (elim exE conjE) (rule that, assumption+)
  from ex [rule_format, of "[]"] obtain i where i: "PuzzleFS_lookup pfs (abs_path []) = Ok (Some i)" by auto
  have names: "map_ok (map de_name) (dir_entries i) = Ok [[115]]"
    using nodes [rule_format, OF i] unfolding rn by (simp add: shows_node_def node_at_def flat_tree_def host_md_def)
  have fails: "PuzzleFS_lookup pfs (abs_path [[115]]) = Err (from_errno ENOENT)"
    using gone [rule_format, of "[]" "[115]"] rn by (simp add: flat_tree_def)
  from chmod_history obtain im' where
    h': "build_history (layers_env layer_chmod) tag_registry im' ''u'' (flat_host chmod_fifo) host_root (flat_tree chmod_fifo)
      (removed_names host_root (flat_tree one_fifo) (\<lambda>ms. []) host_root (flat_tree chmod_fifo)) [first_snap]" by blast
  from history_shows_tree [OF h' flat_env_laws(4,2,3)] obtain pfs' where pfs': "PuzzleFS_open (layers_env layer_chmod) im' ''u'' None = Ok pfs'"
    and ex': "\<forall>ns. (\<exists>i. PuzzleFS_lookup pfs' (abs_path ns) = Ok (Some i)) \<longleftrightarrow> host_root @ map Normal ns \<in> t_paths host_root (flat_tree chmod_fifo)"
    and nodes': "\<forall>ns i. PuzzleFS_lookup pfs' (abs_path ns) = Ok (Some i) \<longrightarrow> shows_node (layers_env layer_chmod) (pfs_oci pfs') None i
      (node_at (flat_host chmod_fifo) (flat_tree chmod_fifo)
        (removed_names host_root (flat_tree one_fifo) (\<lambda>ms. []) host_root (flat_tree chmod_fifo) ns) (host_root @ map Normal ns))"
    by (elim exE conjE) (rule that, assumption+)
  from ex' [rule_format, of "[[115]]"] obtain j where j: "PuzzleFS_lookup pfs' (abs_path [[115]]) = Ok (Some j)"
    unfolding flat_entries by (auto simp: chmod_fifo_def)
  have "t_md (flat_tree chmod_fifo) (host_root @ map Normal [[115]]) = fifo_md 12 0x1A4"
    by (simp add: flat_tree_def chmod_fifo_def host_root_def file_name_def)
  with nodes' [rule_format, OF j] have "i_mode j = Fifo \<and> i_permissions j = 0x1A4"
    by (simp add: shows_node_def node_at_def fifo_md_def host_md_def)
  with pfs i names fails pfs' j show ?thesis by blast
qed

section \<open>Changes that a delta cannot express\<close>



text \<open>
  C39: A delta whose layer is equal to any layer of the image, the covered ones included, is dropped: the new tag
  shows what the old one showed, whatever the host tree is. Taking back a change of a file or of its
  permissions therefore has no effect.
\<close>

theorem delta_equal_layer_dropped:
  assumes "add_rootfs_delta h env rg C rootfs im tag base_layer = Some (Ok (desc, im''))"
    and "PuzzleFS_open env im base_layer None = Ok pfs" and "reader_layers (pfs_rootfs pfs) = Ok layers"
    and "\<forall>m inodes rest. build_delta h env C rootfs im (Some pfs) [] m = Some (Ok (inodes, rest)) \<longrightarrow> inodes \<in> set layers"
    and "\<forall>data. length (env_fs_verity_sha256 env data) = SHA256_BLOCK_SIZE" and "messages_ok env" and "registry_ok env rg"
    and "env_lawful env" and "delta_collision_free h env rg C rootfs im base_layer"
  shows "\<exists>pfs'. PuzzleFS_open env im'' tag None = Ok pfs' \<and> pfs_view pfs' = pfs_view pfs"
proof -
  from assms(1-3,5-9) obtain m0 inodes im' vd m' pfs' where
    bd: "build_delta h env C rootfs im (Some pfs) [] m0 = Some (Ok (inodes, im', vd, m'))" and "image_le im' im''"
    and pfs': "PuzzleFS_open env im'' tag None = Ok pfs'" "pfs_oci pfs' = im''"
      "reader_layers (pfs_rootfs pfs') = Ok (stacked inodes layers)" "\<forall>l\<in>set (stacked inodes layers). length l < 2 ^ 32"
    by (rule add_rootfs_delta_opens)
  from assms(4) bd have "inodes \<in> set layers" by blast
  then have "stacked inodes layers = layers" by (simp add: stacked_def)
  with pfs'(3) assms(3) have "pfs_view pfs' = pfs_view pfs" by (simp add: pfs_view_def reader_view_def fun_eq_iff)
  with pfs'(1) show ?thesis by blast
qed

theorem delta_equal_layer_dropped_witness:
  "\<exists>im desc im' pfs' i. add_rootfs_delta (flat_host one_fifo) chmod_env tag_registry Noop host_root im ''u'' ''t'' = Some (Ok (desc, im')) \<and>
    md_mode (t_md (flat_tree one_fifo) (host_root @ [Normal [115]])) = 0x1ED \<and>
    PuzzleFS_open chmod_env im' ''u'' None = Ok pfs' \<and> pfs_view pfs' 2 = Some i \<and> i_permissions i = 0x1A4"
proof -
  from chmod_delta obtain im desc im' where
    d: "PuzzleFS_open chmod_env im ''t'' None = Ok (flat_pfs im [layer_chmod, layer0])"
    "add_rootfs_delta (flat_host one_fifo) chmod_env tag_registry Noop host_root im ''u'' ''t'' = Some (Ok (desc, im'))"
    "delta_collision_free (flat_host one_fifo) chmod_env tag_registry Noop host_root im ''t''" .
  have "\<forall>m inodes rest. build_delta (flat_host one_fifo) chmod_env Noop host_root im (Some (flat_pfs im [layer_chmod, layer0])) [] m =
      Some (Ok (inodes, rest)) \<longrightarrow> inodes \<in> set [layer_chmod, layer0]" by (simp add: chmod_build)
  from delta_equal_layer_dropped [OF d(2,1) chmod_facts(4) this flat_env_laws(4,2,3,1) d(3)] obtain pfs' where
    pfs': "PuzzleFS_open chmod_env im' ''u'' None = Ok pfs'" "pfs_view pfs' = pfs_view (flat_pfs im [layer_chmod, layer0])" by blast
  have "pfs_view pfs' 2 = Some (flat_fifo 2 (fifo_md 12 0x1A4))"
    unfolding pfs'(2) using chmod_facts(8) by (simp add: pfs_view_def reader_view_def chmod_facts(4) del: layers_view.simps) (simp add: layer_chmod_def)
  moreover have "i_permissions (flat_fifo 2 (fifo_md 12 0x1A4)) = 0x1A4"
    by (simp add: flat_fifo_def new_inode_def fifo_md_def)
  moreover have "md_mode (t_md (flat_tree one_fifo) (host_root @ [Normal [115]])) = 0x1ED"
    by (simp add: flat_tree_def one_fifo_def fifo_md_def host_root_def file_name_def)
  ultimately show ?thesis using d(2) pfs'(1) by blast
qed

section \<open>Hard links\<close>

text \<open>The numbers that a scan has recorded for paths that are not directories.\<close>

definition leaf_inos :: "build_state \<Rightarrow> Ino list" where
  "leaf_inos st = map f_ino (bs_files st) @ map bo_ino (bs_others st)"

lemma add_whiteouts_sets:
  "set (bs_inodes (add_whiteouts names k st es)) =
     set (bs_inodes st) \<union> (\<lambda>e. new_whiteout (de_ino e)) ` {e \<in> set es. de_name e \<notin> set names}"
  "leaf_inos (add_whiteouts names k st es) = leaf_inos st"
  "bs_host_to_pfs (add_whiteouts names k st es) = bs_host_to_pfs st"
  by (induction names k st es rule: add_whiteouts.induct) (auto simp: leaf_inos_def)

lemma render_entry_sets:
  assumes "render_entry h p md i st = Ok st'"
  shows "bs_inodes st' = bs_inodes st" "set (leaf_inos st) \<subseteq> set (leaf_inos st')"
    "bs_host_to_pfs st' = (bs_host_to_pfs st)(md_ino md \<mapsto> i)" "md_file_type md \<noteq> FtDir \<Longrightarrow> i \<in> set (leaf_inos st')"
  using assms by (cases "md_file_type md"; cases "additional_of h p md"; force simp: render_entry_def leaf_inos_def)+

lemma visit_entry_sets:
  assumes "visit_entry h existing rootfs st p = Ok st'" and "h_symlink_metadata h p = Ok md"
  shows "bs_inodes st' = bs_inodes st" "set (leaf_inos st) \<subseteq> set (leaf_inos st')"
    "dom (bs_host_to_pfs st') \<subseteq> insert (md_ino md) (dom (bs_host_to_pfs st))"
proof -
  from assms(1) obtain md' cur st1 where "h_symlink_metadata h p = Ok md'"
    "existing = None \<longrightarrow> cur = bs_next_ino st \<and> unat (bs_next_ino st) + 1 < 2 ^ 64 \<and> bs_next_ino st1 = bs_next_ino st + 1"
    "prepared st st1" "st' = st1 \<or> (bs_host_to_pfs st (md_ino md') = None \<or> cur = 1) \<and> render_entry h p md' cur st1 = Ok st'"
    by (rule visit_entryE)
  with assms(2) have st1: "prepared st st1" "st' = st1 \<or> render_entry h p md cur st1 = Ok st'" by auto
  from st1(1) have "bs_inodes st1 = bs_inodes st" "leaf_inos st1 = leaf_inos st" "bs_host_to_pfs st1 = bs_host_to_pfs st"
    by (auto simp: prepared_def leaf_inos_def)
  with st1(2) render_entry_sets [of h p md cur st1 st'] show "bs_inodes st' = bs_inodes st" "set (leaf_inos st) \<subseteq> set (leaf_inos st')"
    "dom (bs_host_to_pfs st') \<subseteq> insert (md_ino md) (dom (bs_host_to_pfs st))" by auto
qed

lemma visit_entry_first:
  assumes "visit_entry h (Some pfs) rootfs st p = Ok st'" and "h_symlink_metadata h p = Ok md"
    and "PuzzleFS_lookup pfs (RootDir # drop (length rootfs) p) = Ok (Some x)" and "i_ino x \<noteq> 1"
    and "bs_host_to_pfs st (md_ino md) = None" and "md_file_type md \<noteq> FtDir"
  shows "i_ino x \<in> set (leaf_inos st')"
  using assms render_entry_sets(4) [OF _ assms(6)]
  by (auto simp: visit_entry_def rootfs_relative_def take_ino_def add_to_parent_def Let_def split: if_splits)

lemma leaf_rendered:
  assumes "render_inodes h st files = Ok inodes" and "map f_ino files = map f_ino (bs_files st)" and "k \<in> set (leaf_inos st)"
  shows "\<exists>i\<in>set inodes. i_ino i = k \<and> i_mode i \<noteq> Wht"
proof -
  from assms(1) obtain ds fs os where r: "collect render_file files = Ok fs" "collect (render_other h) (bs_others st) = Ok os"
    "inodes = sort_key i_ino (bs_inodes st @ ds @ fs @ os)" by (auto simp: render_inodes_def)
  have "k \<in> f_ino ` set files \<or> k \<in> bo_ino ` set (bs_others st)"
    using arg_cong [OF assms(2), of set] assms(3) by (auto simp: leaf_inos_def)
  then show ?thesis
  proof
    assume "k \<in> f_ino ` set files"
    then obtain f where f: "f \<in> set files" "k = f_ino f" by blast
    from collect_mem [OF r(1) f(1)] obtain i where "i \<in> set fs" "render_file f = Ok i" by blast
    with f(2) r(3) show ?thesis by (intro bexI [of _ i]) (auto simp: render_file_def new_file_def new_inode_def split: if_splits)
  next
    assume "k \<in> bo_ino ` set (bs_others st)"
    then obtain x where x: "x \<in> set (bs_others st)" "k = bo_ino x" by blast
    from collect_mem [OF r(2) x(1)] obtain i where "i \<in> set os" "render_other h x = Ok i" by blast
    with x(2) r(3) show ?thesis
      by (intro bexI [of _ i]) (auto simp: render_other_def new_other_def new_inode_def split: file_type.splits)
  qed
qed

text \<open>
  A scan that opens \<open>d\<close> writes the whiteouts of its removed entries, and one that visits the links of a file
  records the number that the image has for them.
\<close>

lemma scan_clash:
  assumes host: "host_shows h open_file rootfs T" and scan: "scan_rootfs h (Some pfs) rootfs = Ok st"
    and p: "p \<in> set (t_entries T (t_dirs T))" "t_type T p \<noteq> FtDir"
    and links: "\<forall>q\<in>set (t_entries T (t_dirs T)). t_ino T q = t_ino T p \<longrightarrow>
      (\<exists>x. PuzzleFS_lookup pfs (RootDir # drop (length rootfs) q) = Ok (Some x) \<and> i_ino x = k)" and "k \<noteq> 1"
    and d: "d \<in> set (t_dirs T)" "PuzzleFS_lookup pfs (RootDir # drop (length rootfs) d) = Ok (Some y)"
    and e: "e \<in> set (old_entries (Some y))" "de_name e \<notin> set (t_names T d)" "de_ino e = k"
  shows "k \<in> set (leaf_inos st) \<and> new_whiteout k \<in> set (bs_inodes st)"
proof -
  have md: "h_symlink_metadata h q = Ok (t_md T q)" if "q \<in> set (t_entries T (t_dirs T))" for q
    using host_showsD(1) [OF host, of q] that by simp
  have type: "t_type T q \<noteq> FtDir" if "q \<in> set (t_entries T (t_dirs T))" "t_ino T q = t_ino T p" for q
    using host p that unfolding host_shows_def links_ok_def by (metis insertCI)
  define I where "I opened vis st \<longleftrightarrow> dom (bs_host_to_pfs st) \<subseteq> t_ino T ` set vis \<and>
    (t_ino T p \<in> t_ino T ` set vis \<longrightarrow> k \<in> set (leaf_inos st)) \<and> (d \<in> set opened \<longrightarrow> new_whiteout k \<in> set (bs_inodes st))"
    for opened vis :: "path list" and st
  have "I (t_dirs T) (t_entries T (t_dirs T)) st"
  proof (rule scan_along [OF host scan])
    fix st assume "start_state h (Some pfs) rootfs = Ok st"
    then show "I [] [] st" by (auto simp: start_state_def I_def)
  next
    have wht: "new_whiteout k \<in> (\<lambda>e. new_whiteout (de_ino e)) ` {e \<in> set (old_entries (Some y)). de_name e \<notin> set (t_names T d)}"
      using e by (intro image_eqI [of _ _ e]) simp_all
    fix opened vis st d' r
    assume "I opened vis st" "lookup_existing (Some pfs) (RootDir # drop (length rootfs) d') = Ok r"
    then show "I (opened @ [d']) vis (add_whiteouts (t_names T d') (t_ino T d') st (old_entries r))"
      using d(2) wht by (auto simp: I_def add_whiteouts_sets lookup_existing_def)
  next
    fix opened vis st q st'
    assume inv: "I opened vis st" and q: "q \<in> set (t_entries T (t_dirs T))" "visit_entry h (Some pfs) rootfs st q = Ok st'"
    note sets = visit_entry_sets [OF q(2) md [OF q(1)]]
    have "k \<in> set (leaf_inos st')" if ino: "t_ino T q = t_ino T p"
    proof (cases "t_ino T p \<in> t_ino T ` set vis")
      case False
      with inv have "bs_host_to_pfs st (t_ino T q) = None" by (auto simp: I_def ino)
      moreover from links q(1) ino obtain x where
        "PuzzleFS_lookup pfs (RootDir # drop (length rootfs) q) = Ok (Some x)" "i_ino x = k" by blast
      ultimately show ?thesis using visit_entry_first [OF q(2) md [OF q(1)]] type [OF q(1) ino] assms(6) by blast
    qed (use inv sets(2) in \<open>auto simp: I_def\<close>)
    with inv sets show "I opened (vis @ [q]) st'" by (auto simp: I_def)
  qed
  with p(1) d(1) show ?thesis by (simp add: I_def)
qed

text \<open>
  C40: When some names of a hard-linked file are removed and others are kept, the delta's layer has a whiteout and
  a live inode with the same number: the removed name is hidden by the number that the kept names use. The
  kept names may be any number of links of one host file, as long as the image has them as links of one
  inode.
\<close>

theorem delta_number_clash:
  assumes "build_delta h env C rootfs im (Some pfs) vd m = Some (Ok (inodes, im', vd', m'))"
    and "host_shows h open_file rootfs T" and "p \<in> set (t_entries T (t_dirs T))" and "t_type T p \<noteq> FtDir"
    and "\<forall>q\<in>set (t_entries T (t_dirs T)). t_ino T q = t_ino T p \<longrightarrow>
      (\<exists>x. PuzzleFS_lookup pfs (RootDir # drop (length rootfs) q) = Ok (Some x) \<and> i_ino x = k)" and "k \<noteq> 1"
    and "d \<in> set (t_dirs T)" and "PuzzleFS_lookup pfs (RootDir # drop (length rootfs) d) = Ok (Some y)"
    and "e \<in> set (old_entries (Some y))" and "de_name e \<notin> set (t_names T d)" and "de_ino e = k"
  shows "new_whiteout k \<in> set inodes \<and> (\<exists>i\<in>set inodes. i_ino i = k \<and> i_mode i \<noteq> Wht)"
proof -
  from assms(1) obtain st files where b: "scan_rootfs h (Some pfs) rootfs = Ok st"
    "process_chunks env C im (h_chunker h (bs_stream st)) (bs_files st) vd m = Some (Ok (files, im', vd', m'))"
    "render_inodes h st files = Ok inodes" by (rule build_deltaE)
  note st = scan_clash [OF assms(2) b(1) assms(3-11)]
  from leaf_rendered [OF b(3) strip_inos [OF process_chunks_extends(1) [OF b(2)]]] st
  have "\<exists>i\<in>set inodes. i_ino i = k \<and> i_mode i \<noteq> Wht" by blast
  moreover from b(3) st have "new_whiteout k \<in> set inodes" by (auto simp: render_inodes_def)
  ultimately show ?thesis by blast
qed

theorem delta_number_clash_witness:
  "build_delta (flat_host kept_fifo) two_layers Noop host_root tag_image (Some (flat_pfs tag_image [layer_linked])) [] plain_manifest =
     Some (Ok (layer_clash, tag_image, [], plain_manifest)) \<and>
   new_whiteout 2 \<in> set layer_clash \<and> (\<exists>i\<in>set layer_clash. i_ino i = 2 \<and> i_mode i \<noteq> Wht) \<and>
   RootfsReader_find_inode (layered_message [layer_clash, layer_linked]) 2 = Err (from_errno ENOENT)"
proof -
  have "t_type (flat_tree kept_fifo) (host_root @ [Normal [98]]) \<noteq> FtDir" "host_root \<in> set (t_dirs (flat_tree kept_fifo))"
    "[97] \<notin> set (t_names (flat_tree kept_fifo) host_root)"
    by (simp_all add: flat_tree_def kept_fifo_def fifo_md_def host_md_def host_root_def file_name_def)
  moreover have "t_entries (flat_tree kept_fifo) (t_dirs (flat_tree kept_fifo)) = [host_root @ [Normal [98]]]"
    unfolding flat_entries by (simp add: kept_fifo_def)
  ultimately have "new_whiteout 2 \<in> set layer_clash \<and> (\<exists>i\<in>set layer_clash. i_ino i = 2 \<and> i_mode i \<noteq> Wht)"
    by (intro delta_number_clash [OF linked_build flat_host_shows [OF linked_facts(1)], of "host_root @ [Normal [98]]" "tag_image" 2
          host_root "hd layer_linked" "\<lparr>de_ino = 2, de_name = [97]\<rparr>"])
      (simp_all add: linked_lookups linked_facts old_entries_def)
  then show ?thesis using linked_build clash_hides by simp
qed

end
