(* ===== verification/Roundtrip.thy ===== *)
theory Roundtrip
  imports Delta_History Extract_Tree
begin

text \<open>
  From the builder to the extractor: the image that builds and deltas make of a host tree has the shape
  the walk and the extractor need, and the operations of an extraction are, path by path, those that
  restore the tree. An image from which a name was removed cannot be extracted.
\<close>

section \<open>The shape of a built layer\<close>

text \<open>
  The inodes of a layer represent the tree, and the image shows them. This holds of a first layer and of the
  layer of a delta over which nothing was removed.
\<close>

definition built_layer ::
    "host \<Rightarrow> path \<Rightarrow> tree \<Rightarrow> (path \<Rightarrow> Ino) \<Rightarrow> (BlobRef \<Rightarrow> bytes option) \<Rightarrow> Inode list \<Rightarrow> (Ino \<Rightarrow> Inode option) \<Rightarrow> bool" where
  "built_layer h rootfs T nm cd inodes V \<longleftrightarrow>
     walk_order rootfs T \<and> links_ok rootfs T \<and> numbering rootfs T nm \<and> view_over (\<lambda>d. []) T inodes V \<and>
     (\<forall>p\<in>t_paths rootfs T. \<exists>i\<in>set inodes. represents h T nm cd p i)"

lemma built_layerD:
  assumes "built_layer h rootfs T nm cd inodes V"
  shows "walk_order rootfs T" "links_ok rootfs T" "numbering rootfs T nm" "view_over (\<lambda>d. []) T inodes V"
    "\<forall>p\<in>t_paths rootfs T. \<exists>i\<in>set inodes. represents h T nm cd p i"
  using assms unfolding built_layer_def by blast+

lemma built_path_iff:
  assumes "built_layer h rootfs T nm cd inodes V"
  shows "path_to V ns i \<longleftrightarrow> rootfs @ map Normal ns \<in> t_paths rootfs T \<and> i \<in> set inodes \<and>
    represents h T nm cd (rootfs @ map Normal ns) i"
  by (rule layer_path_to_over [OF built_layerD(1,3-5) [OF assms]])

lemma built_view_num:
  assumes "built_layer h rootfs T nm cd inodes V" and "p \<in> t_paths rootfs T"
  shows "V (nm p) \<noteq> None"
proof -
  from built_layerD(5) [OF assms(1)] assms(2) obtain i where i: "i \<in> set inodes" "represents h T nm cd p i" by blast
  then have "i_ino i = nm p" by (simp add: represents_def)
  moreover have "V (i_ino i) = Some i"
    using built_layerD(4) [OF assms(1)] i(1) represents_not_whiteout [OF i(2)] by (simp add: view_over_def)
  ultimately show ?thesis by simp
qed

text \<open>A directory shares its number with no other path.\<close>

lemma built_dir_num:
  assumes "built_layer h rootfs T nm cd inodes V" and "p \<in> set (t_dirs T)" and "q \<in> t_paths rootfs T"
  shows "nm p = nm q \<longleftrightarrow> p = q"
  using assms(2,3) built_layerD(3) [OF assms(1)] walk_orderD(6,7) [OF built_layerD(1) [OF assms(1)]]
    links_okD(4) [OF built_layerD(2) [OF assms(1)]] unfolding numbering_def by metis

lemma dir_ents_represented:
  assumes "represents h T nm cd p i"
  shows "dir_ents i = (if t_type T p = FtDir then map (\<lambda>n. \<lparr>de_ino = nm (p @ [Normal n]), de_name = n\<rparr>) (t_names T p) else [])"
  using assms by (cases "t_type T p") (auto simp: represents_def dir_ents_def)

text \<open>The rank of a directory is how much deeper than it the tree goes.\<close>

definition tree_rank :: "path \<Rightarrow> tree \<Rightarrow> (path \<Rightarrow> Ino) \<Rightarrow> Ino \<Rightarrow> nat" where
  "tree_rank rootfs T nm ino =
     (if ino \<in> nm ` set (t_dirs T)
      then Suc (Max (length ` t_paths rootfs T)) - length (the_inv_into (set (t_dirs T)) nm ino) else 0)"

lemma tree_rank_child:
  assumes B: "built_layer h rootfs T nm cd inodes V" and p: "p \<in> set (t_dirs T)" and c: "p @ [Normal n] \<in> t_paths rootfs T"
  shows "tree_rank rootfs T nm (nm (p @ [Normal n])) < tree_rank rootfs T nm (nm p)"
proof -
  let ?K = "Max (length ` t_paths rootfs T)"
  note walk = built_layerD(1) [OF B]
  have "inj_on nm (set (t_dirs T))" using built_dir_num [OF B] walk_orderD(6) [OF walk] by (auto intro!: inj_onI)
  then have rank: "tree_rank rootfs T nm (nm q) = Suc ?K - length q" if "q \<in> set (t_dirs T)" for q
    using that by (simp add: tree_rank_def the_inv_into_f_f)
  have "length p \<le> ?K" using walk_orderD(6) [OF walk p] by (intro Max_ge) auto
  moreover have "tree_rank rootfs T nm (nm (p @ [Normal n])) = 0" if "p @ [Normal n] \<notin> set (t_dirs T)"
  proof -
    have "nm (p @ [Normal n]) \<notin> nm ` set (t_dirs T)"
    proof
      assume "nm (p @ [Normal n]) \<in> nm ` set (t_dirs T)"
      then obtain q where "q \<in> set (t_dirs T)" "nm q = nm (p @ [Normal n])" by auto
      with built_dir_num [OF B _ c] that show False by blast
    qed
    then show ?thesis by (simp add: tree_rank_def)
  qed
  ultimately show ?thesis using rank [OF p] rank [of "p @ [Normal n]"] by fastforce
qed

lemma built_tree_view:
  assumes B: "built_layer h rootfs T nm cd inodes V"
  shows "tree_view V (tree_rank rootfs T nm)"
proof -
  note walk = built_layerD(1) [OF B]
  have num: "V (nm p) \<noteq> None" if "p \<in> t_paths rootfs T" for p using built_view_num [OF B that] .
  have "V 1 \<noteq> None" using num [of rootfs] built_layerD(3) [OF B] by (simp add: numbering_def)
  moreover have "distinct (map de_name (dir_ents d)) \<and> (\<forall>e\<in>set (dir_ents d). plain_name (de_name e) \<and>
      V (de_ino e) \<noteq> None \<and> tree_rank rootfs T nm (de_ino e) < tree_rank rootfs T nm (i_ino d))" if "path_to V ns d" for ns d
  proof (cases "t_type T (rootfs @ map Normal ns) = FtDir")
    case True
    let ?p = "rootfs @ map Normal ns"
    from that have p: "?p \<in> t_paths rootfs T" "represents h T nm cd ?p d" unfolding built_path_iff [OF B] by blast+
    with True have dir: "?p \<in> set (t_dirs T)" using walk_orderD(7) [OF walk] by blast
    have ents: "dir_ents d = map (\<lambda>n. \<lparr>de_ino = nm (?p @ [Normal n]), de_name = n\<rparr>) (t_names T ?p)"
      using dir_ents_represented [OF p(2)] True by simp
    have ino: "i_ino d = nm ?p" using p(2) by (simp add: represents_def)
    have "?p @ [Normal n] \<in> t_paths rootfs T" if "n \<in> set (t_names T ?p)" for n
      using that dir by (simp only: t_entries_iff insert_iff) blast
    with tree_rank_child [OF B dir] num walk_orderD(5,8) [OF walk dir] show ?thesis
      unfolding ents ino by (auto simp: comp_def simp del: append.assoc)
  next
    case False
    with that show ?thesis using dir_ents_represented unfolding built_path_iff [OF B] by fastforce
  qed
  ultimately show ?thesis unfolding tree_view_def by blast
qed

lemma map_Normal_inject [simp]: "map Normal a = map Normal b \<longleftrightarrow> a = b"
  by (simp add: inj_map_eq_map inj_def)

lemma built_dirs_once:
  assumes B: "built_layer h rootfs T nm cd inodes V"
  shows "dirs_once V"
proof -
  have "a = b" if "path_to V a i" "path_to V b i" "i_mode i = InodeMode.Dir dl" for a b i dl
  proof -
    let ?p = "rootfs @ map Normal a" and ?q = "rootfs @ map Normal b"
    from that(1,2) have p: "?p \<in> t_paths rootfs T" "represents h T nm cd ?p i"
      and q: "?q \<in> t_paths rootfs T" "represents h T nm cd ?q i"
      unfolding built_path_iff [OF B] by blast+
    have "t_type T ?p = FtDir" using p(2) that(3) by (cases "t_type T ?p") (auto simp: represents_def)
    then have "?p \<in> set (t_dirs T)" using walk_orderD(7) [OF built_layerD(1) [OF B] p(1)] by simp
    moreover have "nm ?p = nm ?q" using p(2) q(2) by (simp add: represents_def)
    ultimately have "?p = ?q" using built_dir_num [OF B _ q(1)] by blast
    then show ?thesis by simp
  qed
  then show ?thesis unfolding dirs_once_def by blast
qed

section \<open>Operations by path\<close>

text \<open>The path that an operation makes or changes.\<close>

definition subject :: "host_op \<Rightarrow> path" where
  "subject x = last (op_paths x)"

lemma subject_simps [simp]:
  "subject (CreateDirAll p) = p" "subject (HardLink q p) = p" "subject (CreateFile p) = p" "subject (WriteAll p bs) = p"
  "subject (Mkfifo p) = p" "subject (MknodChr p a b) = p" "subject (MknodBlk p a b) = p" "subject (Symlinkat t p) = p"
  "subject (SetXattr p k v) = p" "subject (SetPermissions p m) = p" "subject (Chown p u g) = p"
  by (simp_all add: subject_def)

lemma entry_ops_subject: "x \<in> set (entry_ops pr n cd dir m de) \<Longrightarrow> subject x = target dir de"
  by (auto simp: entry_ops_def node_ops_def attr_ops_def split: option.splits InodeMode.splits outcome.splits if_splits)

lemma expected_subject:
  "x \<in> set (expected_ops pr n cd dir m xs) \<Longrightarrow> \<exists>de\<in>set xs. subject x = target dir de"
  by (induction xs arbitrary: m)
    (auto simp: expected_ops_Cons simp del: expected_ops.simps(2) dest: entry_ops_subject)

lemma filter_expected:
  assumes "distinct (map (target dir) (us @ de # vs))"
  shows "filter (\<lambda>x. subject x = target dir de) (expected_ops pr n cd dir m (us @ de # vs)) =
    entry_ops pr n cd dir (foldl (entry_map dir) m us) de"
proof -
  let ?m = "foldl (entry_map dir) m us"
  have "subject x \<noteq> target dir de" if "x \<in> set (expected_ops pr n cd dir m us)" for x
    using expected_subject [OF that] assms by auto
  moreover have "subject x \<noteq> target dir de" if "x \<in> set (expected_ops pr n cd dir (entry_map dir ?m de) vs)" for x
    using expected_subject [OF that] assms by auto
  moreover have "filter (\<lambda>x. subject x = target dir de) (entry_ops pr n cd dir ?m de) = entry_ops pr n cd dir ?m de"
    by (intro filter_True ballI) (rule entry_ops_subject)
  ultimately show ?thesis
    by (simp add: expected_ops_append expected_ops_Cons filter_empty_conv del: expected_ops.simps(2))
qed

abbreviation entry_ino :: "'o DirEntry \<Rightarrow> Ino" where
  "entry_ino de \<equiv> i_ino (wd_inode de)"

lemma entry_maps_find:
  "foldl (entry_map dir) m us k =
     (case m k of Some v \<Rightarrow> Some v | None \<Rightarrow> map_option (target dir) (List.find (\<lambda>de. entry_ino de = k) us))"
  by (induction us arbitrary: m) (auto simp: entry_map_def split: option.splits)

section \<open>Restoring a tree\<close>

text \<open>The operations that make the path \<open>q\<close> what the path \<open>p\<close> is in the tree.\<close>

definition restore_ops :: "bool \<Rightarrow> nat \<Rightarrow> host \<Rightarrow> tree \<Rightarrow> path \<Rightarrow> path \<Rightarrow> host_op list" where
  "restore_ops privileged n h T p q =
     (case t_type T p of
        FtDir \<Rightarrow> [CreateDirAll q]
      | FtFile \<Rightarrow> CreateFile q # map (WriteAll q) (pieces n (t_data T p))
      | FtFifo \<Rightarrow> [Mkfifo q]
      | FtChar \<Rightarrow> [MknodChr q (h_major h (md_rdev (t_md T p))) (h_minor h (md_rdev (t_md T p)))]
      | FtBlock \<Rightarrow> [MknodBlk q (h_major h (md_rdev (t_md T p))) (h_minor h (md_rdev (t_md T p)))]
      | FtSymlink \<Rightarrow>
          (case Option.bind (t_additional T p) ia_symlink_target of Some t \<Rightarrow> [Symlinkat t q] | None \<Rightarrow> [])
      | _ \<Rightarrow> []) @
     map (\<lambda>x. SetXattr q (x_key x) (x_val x)) (case t_additional T p of None \<Rightarrow> [] | Some a \<Rightarrow> ia_xattrs a) @
     (if t_type T p \<noteq> FtSymlink then [SetPermissions q (ucast (md_mode (t_md T p) AND 0xFFF))] else []) @
     (if privileged then [Chown q (md_uid (t_md T p)) (md_gid (t_md T p))] else [])"

lemma represents_restore:
  assumes "represents h T nm cd p i"
  shows "node_ops n cd i q @ attr_ops pr i q = restore_ops pr n h T p q"
proof -
  have lnk: "i_mode i = Lnk \<longleftrightarrow> t_type T p = FtSymlink" using assms by (cases "t_type T p") (auto simp: represents_def)
  have "attr_ops pr i q =
     map (\<lambda>x. SetXattr q (x_key x) (x_val x)) (case t_additional T p of None \<Rightarrow> [] | Some a \<Rightarrow> ia_xattrs a) @
     (if t_type T p \<noteq> FtSymlink then [SetPermissions q (ucast (md_mode (t_md T p) AND 0xFFF))] else []) @
     (if pr then [Chown q (md_uid (t_md T p)) (md_gid (t_md T p))] else [])"
    using assms unfolding attr_ops_def lnk by (simp add: represents_def)
  moreover have "symlink_target i = ok_or (Option.bind (t_additional T p) ia_symlink_target) (from_errno ENOENT)"
    using assms by (simp add: represents_def symlink_target_def)
  ultimately show ?thesis
    using assms by (cases "t_type T p")
      (auto simp: represents_def node_ops_def restore_ops_def split: option.split)
qed

text \<open>What can be restored: no sockets, files of ordinary length, paths of ordinary depth.\<close>

definition restorable :: "path \<Rightarrow> tree \<Rightarrow> bool" where
  "restorable rootfs T \<longleftrightarrow>
     (\<forall>p\<in>t_paths rootfs T. t_type T p \<notin> {FtSocket, FtOther} \<and> length (t_data T p) < 2 ^ 63 \<and>
        length p < length rootfs + (2 ^ 31 - 1))"

lemma restorableD:
  assumes "restorable rootfs T" and "p \<in> t_paths rootfs T"
  shows "t_type T p \<notin> {FtSocket, FtOther}" "length (t_data T p) < 2 ^ 63" "length p < length rootfs + (2 ^ 31 - 1)"
  using assms unfolding restorable_def by blast+

lemma represents_extractable:
  assumes "represents h T nm cd p i" and "host_shows h open_file rootfs T" and "restorable rootfs T" and "p \<in> t_paths rootfs T"
  shows "extractable cd i"
proof (cases "t_type T p")
  case FtFile
  with assms(1) obtain cs where cs: "i_mode i = InodeMode.File cs" "chunks_readable cd cs" "file_bytes cd cs = t_data T p"
    by (auto simp: represents_def)
  with length_file_bytes [OF cs(2)] restorableD(2) [OF assms(3,4)] show ?thesis by (simp add: extractable_def)
next
  case FtSymlink
  with host_showsD(2) [OF assms(2,4), symmetric] have "\<exists>a t. t_additional T p = Some a \<and> ia_symlink_target a = Some t"
    by (cases "h_read_link h p"; cases "get_xattrs (h_xattr_list h) (h_xattr_get h) p")
      (auto simp: additional_of_def InodeAdditional_new_def)
  then obtain a t where "t_additional T p = Some a" "ia_symlink_target a = Some t" by blast
  with FtSymlink assms(1) show ?thesis by (simp add: represents_def extractable_def symlink_target_def)
qed (use assms(1) restorableD(1) [OF assms(3,4)] in \<open>auto simp: represents_def extractable_def\<close>)

section \<open>The operations of an extraction\<close>

text \<open>The names on the path of an entry.\<close>

definition names_of :: "'o DirEntry \<Rightarrow> bytes list" where
  "names_of e = map (\<lambda>c. case c of Normal n \<Rightarrow> n | _ \<Rightarrow> []) (tl (wd_path e))"

lemma names_of_abs_path: "wd_path e = abs_path ns \<Longrightarrow> names_of e = ns"
  by (simp add: names_of_def abs_path_def comp_def)

text \<open>
  A list of operations restores the tree \<open>T\<close> below \<open>dir\<close>: it touches only paths of the tree, and for every
  path its operations are those that restore it, or the hard link to the first path of its inode.
\<close>

definition restores :: "bool \<Rightarrow> nat \<Rightarrow> host \<Rightarrow> path \<Rightarrow> tree \<Rightarrow> path \<Rightarrow> (bytes list \<Rightarrow> bytes list) \<Rightarrow> host_op list \<Rightarrow> bool" where
  "restores privileged n h rootfs T dir first ops \<longleftrightarrow>
     (\<forall>x\<in>set ops. \<exists>ns. rootfs @ map Normal ns \<in> t_paths rootfs T \<and> subject x = dir @ map Normal ns) \<and>
     (\<forall>ns. rootfs @ map Normal ns \<in> t_paths rootfs T \<longrightarrow>
        filter (\<lambda>x. subject x = dir @ map Normal ns) ops =
          (if first ns = ns then restore_ops privileged n h T (rootfs @ map Normal ns) (dir @ map Normal ns)
           else [HardLink (dir @ map Normal (first ns)) (dir @ map Normal ns)]))"

definition link_classes :: "path \<Rightarrow> tree \<Rightarrow> (bytes list \<Rightarrow> bytes list) \<Rightarrow> bool" where
  "link_classes rootfs T first \<longleftrightarrow>
     (\<forall>ns. rootfs @ map Normal ns \<in> t_paths rootfs T \<longrightarrow>
        rootfs @ map Normal (first ns) \<in> t_paths rootfs T \<and>
        t_ino T (rootfs @ map Normal (first ns)) = t_ino T (rootfs @ map Normal ns)) \<and>
     (\<forall>ns ns'. rootfs @ map Normal ns \<in> t_paths rootfs T \<longrightarrow> rootfs @ map Normal ns' \<in> t_paths rootfs T \<longrightarrow>
        (first ns = first ns' \<longleftrightarrow> t_ino T (rootfs @ map Normal ns) = t_ino T (rootfs @ map Normal ns')))"

definition walk_first :: "path \<Rightarrow> (path \<Rightarrow> Ino) \<Rightarrow> 'o DirEntry list \<Rightarrow> bytes list \<Rightarrow> bytes list" where
  "walk_first rootfs nm res ns = names_of (the (List.find (\<lambda>e. entry_ino e = nm (rootfs @ map Normal ns)) res))"

text \<open>A list of entries that has every path of the layer once.\<close>

definition lists_layer ::
    "host \<Rightarrow> path \<Rightarrow> tree \<Rightarrow> (path \<Rightarrow> Ino) \<Rightarrow> (BlobRef \<Rightarrow> bytes option) \<Rightarrow> 'o DirEntry list \<Rightarrow> bool" where
  "lists_layer h rootfs T nm cd res \<longleftrightarrow> distinct (map wd_path res) \<and>
     (\<forall>e\<in>set res. \<exists>ns. wd_path e = abs_path ns \<and> rootfs @ map Normal ns \<in> t_paths rootfs T \<and>
        represents h T nm cd (rootfs @ map Normal ns) (wd_inode e)) \<and>
     (\<forall>ns. rootfs @ map Normal ns \<in> t_paths rootfs T \<longrightarrow> (\<exists>e\<in>set res. wd_path e = abs_path ns))"

lemma lists_layer_entry:
  assumes "lists_layer h rootfs T nm cd res" and "e \<in> set res"
  shows "wd_path e = abs_path (names_of e)" "rootfs @ map Normal (names_of e) \<in> t_paths rootfs T"
    "represents h T nm cd (rootfs @ map Normal (names_of e)) (wd_inode e)" "target dir e = dir @ map Normal (names_of e)"
    "entry_ino e = nm (rootfs @ map Normal (names_of e))"
proof -
  from assms obtain ns where ns: "wd_path e = abs_path ns" "rootfs @ map Normal ns \<in> t_paths rootfs T"
      "represents h T nm cd (rootfs @ map Normal ns) (wd_inode e)"
    unfolding lists_layer_def by blast
  with names_of_abs_path [OF ns(1)] target_abs_path [OF ns(1)]
  show "wd_path e = abs_path (names_of e)" "rootfs @ map Normal (names_of e) \<in> t_paths rootfs T"
    "represents h T nm cd (rootfs @ map Normal (names_of e)) (wd_inode e)" "target dir e = dir @ map Normal (names_of e)"
    "entry_ino e = nm (rootfs @ map Normal (names_of e))"
    by (simp_all add: represents_def)
qed

lemma walk_first_entry:
  assumes L: "lists_layer h rootfs T nm cd res" and "rootfs @ map Normal ns \<in> t_paths rootfs T"
  obtains e where "List.find (\<lambda>e. entry_ino e = nm (rootfs @ map Normal ns)) res = Some e" "e \<in> set res"
    "walk_first rootfs nm res ns = names_of e" "nm (rootfs @ map Normal (names_of e)) = nm (rootfs @ map Normal ns)"
proof -
  from assms obtain e where e: "e \<in> set res" "wd_path e = abs_path ns" unfolding lists_layer_def by blast
  with lists_layer_entry(5) [OF L e(1)] names_of_abs_path [OF e(2)]
  obtain e0 where f: "List.find (\<lambda>e. entry_ino e = nm (rootfs @ map Normal ns)) res = Some e0"
    by (cases "List.find (\<lambda>e. entry_ino e = nm (rootfs @ map Normal ns)) res") (auto simp: find_None_iff)
  then have "e0 \<in> set res" "entry_ino e0 = nm (rootfs @ map Normal ns)" by (auto simp: find_Some_iff)
  with f lists_layer_entry(5) [OF L, of e0] show thesis by (intro that [OF f]) (simp_all add: walk_first_def)
qed

lemma walk_first_classes:
  assumes L: "lists_layer h rootfs T nm cd res" and nums: "numbering rootfs T nm"
  shows "link_classes rootfs T (walk_first rootfs nm res)"
proof -
  let ?first = "walk_first rootfs nm res" and ?P = "\<lambda>ns. rootfs @ map Normal ns"
  have eq: "nm p = nm q \<longleftrightarrow> t_ino T p = t_ino T q" if "p \<in> t_paths rootfs T" "q \<in> t_paths rootfs T" for p q
    using nums that unfolding numbering_def by blast
  have one: "?P (?first ns) \<in> t_paths rootfs T \<and> nm (?P (?first ns)) = nm (?P ns)" if "?P ns \<in> t_paths rootfs T" for ns
  proof -
    from walk_first_entry [OF L that] obtain e where e: "e \<in> set res" "?first ns = names_of e"
      "nm (?P (names_of e)) = nm (?P ns)" by blast
    from lists_layer_entry(2) [OF L e(1)] e(3) show ?thesis unfolding e(2) by blast
  qed
  moreover have "?first ns = ?first ns' \<longleftrightarrow> t_ino T (?P ns) = t_ino T (?P ns')"
    if "?P ns \<in> t_paths rootfs T" "?P ns' \<in> t_paths rootfs T" for ns ns'
  proof
    assume "?first ns = ?first ns'"
    then have "nm (?P ns) = nm (?P ns')" using one [OF that(1)] one [OF that(2)] by simp
    then show "t_ino T (?P ns) = t_ino T (?P ns')" using eq [OF that] by simp
  next
    assume "t_ino T (?P ns) = t_ino T (?P ns')"
    then show "?first ns = ?first ns'" unfolding walk_first_def using eq [OF that] by simp
  qed
  moreover have "t_ino T (?P (?first ns)) = t_ino T (?P ns)" if "?P ns \<in> t_paths rootfs T" for ns
    using one [OF that] eq [OF conjunct1 [OF one [OF that]] that] by blast
  ultimately show ?thesis unfolding link_classes_def by simp
qed

lemma expected_restores:
  assumes L: "lists_layer h rootfs T nm cd res"
  shows "restores pr n h rootfs T dir (walk_first rootfs nm res) (expected_ops pr n cd dir Map.empty res)"
  unfolding restores_def
proof (intro conjI ballI allI impI)
  fix x
  assume "x \<in> set (expected_ops pr n cd dir Map.empty res)"
  from expected_subject [OF this] lists_layer_entry [OF L]
  show "\<exists>ns. rootfs @ map Normal ns \<in> t_paths rootfs T \<and> subject x = dir @ map Normal ns" by metis
next
  fix ns
  assume p: "rootfs @ map Normal ns \<in> t_paths rootfs T"
  let ?p = "rootfs @ map Normal ns" and ?q = "dir @ map Normal ns"
  from L p obtain e where e: "e \<in> set res" "wd_path e = abs_path ns" unfolding lists_layer_def by blast
  note ns = names_of_abs_path [OF e(2)]
  from e(1) obtain us vs where res: "res = us @ e # vs" by (meson split_list)
  have inj: "e1 = e2" if "e1 \<in> set res" "e2 \<in> set res" "names_of e1 = names_of e2" for e1 e2
    using L that lists_layer_entry(1) [OF L that(1)] lists_layer_entry(1) [OF L that(2)]
    unfolding lists_layer_def distinct_map inj_on_def by metis
  have dist: "distinct res" using L unfolding lists_layer_def distinct_map by blast
  have "distinct (map (target dir) res)"
    using dist inj lists_layer_entry(4) [OF L] by (auto simp: distinct_map inj_on_def)
  from filter_expected [OF this [unfolded res], of pr n cd Map.empty] lists_layer_entry(4) [OF L e(1), of dir]
  have f: "filter (\<lambda>x. subject x = ?q) (expected_ops pr n cd dir Map.empty res) =
      entry_ops pr n cd dir (foldl (entry_map dir) Map.empty us) e" by (simp add: res ns)
  have ino: "entry_ino e = nm ?p" using lists_layer_entry(5) [OF L e(1)] ns by simp
  show "filter (\<lambda>x. subject x = ?q) (expected_ops pr n cd dir Map.empty res) =
      (if walk_first rootfs nm res ns = ns then restore_ops pr n h T ?p ?q
       else [HardLink (dir @ map Normal (walk_first rootfs nm res ns)) ?q])"
  proof (cases "List.find (\<lambda>de. entry_ino de = nm ?p) us")
    case None
    then have "List.find (\<lambda>de. entry_ino de = nm ?p) res = Some e"
      by (simp add: res ino find_append)
    then have "walk_first rootfs nm res ns = ns" by (simp add: walk_first_def ns)
    moreover have "entry_ops pr n cd dir (foldl (entry_map dir) Map.empty us) e = restore_ops pr n h T ?p ?q"
      using represents_restore [OF lists_layer_entry(3) [OF L e(1)], of n ?q pr] lists_layer_entry(4) [OF L e(1), of dir] None
      by (simp add: entry_ops_def entry_maps_find ino ns)
    ultimately show ?thesis by (simp add: f)
  next
    case (Some e0)
    then have e0: "e0 \<in> set us" by (auto simp: find_Some_iff)
    from Some have "List.find (\<lambda>de. entry_ino de = nm ?p) res = Some e0" by (simp add: res find_append)
    then have first: "walk_first rootfs nm res ns = names_of e0" by (simp add: walk_first_def)
    have "e0 \<noteq> e" "e0 \<in> set res" using dist e0 by (auto simp: res)
    then have "names_of e0 \<noteq> ns" using inj [of e0 e] e(1) ns by auto
    moreover have "target dir e0 = dir @ map Normal (names_of e0)" "target dir e = ?q"
      using lists_layer_entry(4) [OF L, of _ dir] \<open>e0 \<in> set res\<close> e(1) ns by auto
    ultimately show ?thesis using Some by (simp add: f first entry_ops_def entry_maps_find ino)
  qed
qed

section \<open>Build, then extract\<close>

text \<open>An image whose directories have lost no names has the layer of its last tree.\<close>

lemma image_tree_built:
  assumes tree: "image_tree env pfs h rootfs T nm gone inodes layers" and host: "host_shows h open_file rootfs T"
    and none: "\<forall>d\<in>set (t_dirs T). gone d = []"
  shows "built_layer h rootfs T nm (image_chunk_data (env, pfs_oci pfs, None)) inodes (pfs_view pfs)"
proof -
  let ?cd = "image_chunk_data (env, pfs_oci pfs, None)"
  have "represents h T nm ?cd p i" if p: "p \<in> t_paths rootfs T" and r: "represents_over gone h T nm ?cd p i" for p i
  proof (cases "t_type T p = FtDir")
    case True
    then have "gone p = []" using none t_dirs_iff [OF image_treeD(3) [OF tree], of p] p by simp
    with r True show ?thesis by (simp add: represents_over_def)
  next
    case False
    with r show ?thesis by (cases "t_type T p") (simp_all add: represents_over_def)
  qed
  with image_treeD(7) [OF tree] have "\<forall>p\<in>t_paths rootfs T. \<exists>i\<in>set inodes. represents h T nm ?cd p i" by meson
  moreover have "view_over (\<lambda>d. []) T inodes (pfs_view pfs)" using image_treeD(6) [OF tree] by (simp add: view_over_def)
  moreover have "links_ok rootfs T" using host by (simp add: host_shows_def)
  ultimately show ?thesis using image_treeD(3,4) [OF tree] by (simp add: built_layer_def)
qed

lemma built_extract_restores:
  assumes B: "built_layer h rootfs T nm (image_chunk_data (env, im, None)) inodes (pfs_view pfs)" and host: "host_shows h open_file rootfs T"
    and "restorable rootfs T" and pfs: "PuzzleFS_open env im tag None = Ok pfs" "wf_pfs pfs" "pfs_oci pfs = im"
    and xhost: "willing xh" "starts_empty xh dir" "0 < n"
  shows "\<exists>ops first. extract_rootfs xh env n (Ok im) tag dir = Some (CreateDirAll dir # ops, Ok ()) \<and>
    link_classes rootfs T first \<and> restores (runs_privileged xh) n h rootfs T dir first ops"
proof -
  let ?cd = "image_chunk_data (env, im, None)"
  note view = built_tree_view [OF B] and path = built_path_iff [OF B]
  have "extractable ?cd i" if "path_to (pfs_view pfs) ns i" for ns i
    using that represents_extractable [OF _ host assms(3)] unfolding path by blast
  moreover have "shallow (pfs_view pfs)"
    using restorableD(3) [OF assms(3)] unfolding shallow_def path by fastforce
  ultimately obtain res where res: "walk pfs = Some (Ok res)"
    "extract_rootfs xh env n (Ok im) tag dir =
      Some (CreateDirAll dir # expected_ops (runs_privileged xh) n ?cd dir Map.empty res, Ok ())"
    using extract_rootfs_tree [OF pfs(1,2) view built_dirs_once [OF B] _ _ xhost] unfolding pfs(3) by blast
  from walk_tree [OF pfs(2) view] res(1) have walk: "distinct (map wd_path res)"
    "{(wd_path x, wd_inode x) |x. x \<in> set res} = {(abs_path names, i) |names i. path_to (pfs_view pfs) names i}" by auto
  have "lists_layer h rootfs T nm ?cd res"
    unfolding lists_layer_def
  proof (intro conjI ballI allI impI)
    show "\<exists>ns. wd_path e = abs_path ns \<and> rootfs @ map Normal ns \<in> t_paths rootfs T \<and>
        represents h T nm ?cd (rootfs @ map Normal ns) (wd_inode e)" if "e \<in> set res" for e
    proof -
      have "(wd_path e, wd_inode e) \<in> {(wd_path x, wd_inode x) |x. x \<in> set res}" using that by blast
      then show ?thesis unfolding walk(2) path by blast
    qed
    show "\<exists>e\<in>set res. wd_path e = abs_path ns" if p: "rootfs @ map Normal ns \<in> t_paths rootfs T" for ns
    proof -
      from built_layerD(5) [OF B] p obtain i where "path_to (pfs_view pfs) ns i" unfolding path by blast
      then have "(abs_path ns, i) \<in> {(wd_path x, wd_inode x) |x. x \<in> set res}" unfolding walk(2) by blast
      then show ?thesis by auto
    qed
  qed (rule walk(1))
  from expected_restores [OF this] walk_first_classes [OF this built_layerD(3) [OF B]] res(2) show ?thesis by blast
qed

section \<open>Names that were removed\<close>

text \<open>The inodes that the walk gets to from an inode.\<close>

inductive reaches :: "(Ino \<Rightarrow> Inode wire_result) \<Rightarrow> Inode \<Rightarrow> Inode \<Rightarrow> bool"
  for find_ino :: "Ino \<Rightarrow> Inode wire_result" where
  here: "reaches find_ino i i"
| there: "e \<in> set (dir_ents i) \<Longrightarrow> find_ino (de_ino e) = Ok j \<Longrightarrow> reaches find_ino j k \<Longrightarrow> reaches find_ino i k"

lemma reaches_snoc:
  assumes "reaches find_ino i j" and "e \<in> set (dir_ents j)" and "find_ino (de_ino e) = Ok k"
  shows "reaches find_ino i k"
  using assms by (induction rule: reaches.induct) (blast intro: reaches.intros)+

lemma path_to_reaches:
  assumes "path_to (pfs_view pfs) ns i" and "wf_pfs pfs"
  shows "\<exists>r. PuzzleFS_find_inode pfs 1 = Ok r \<and> reaches (PuzzleFS_find_inode pfs) r i"
  using assms(1)
proof (induction rule: path_to.induct)
  case (root i)
  then show ?case using pfs.find_view [OF assms(2), of 1] reaches.here by fastforce
next
  case (step ns d n e i)
  have "e \<in> set (dir_ents d)" using step.hyps(2) by (auto simp: entry_named_dir_ents find_Some_iff)
  moreover have "PuzzleFS_find_inode pfs (de_ino e) = Ok i" using pfs.find_view [OF assms(2)] step.hyps(3) by simp
  ultimately show ?case using step.IH reaches_snoc by blast
qed

lemma push_entries_OkD:
  assumes "push_entries find_ino dir q es = (q', Ok ())"
  shows "set q \<subseteq> set q' \<and> (\<forall>e\<in>set es. \<exists>j. find_ino (de_ino e) = Ok j \<and> child_entry dir e j \<in> set q')"
  using assms
proof (induction es arbitrary: q)
  case (Cons e es)
  then obtain j where j: "find_ino (de_ino e) = Ok j" "push_entries find_ino dir (q @ [child_entry dir e j]) es = (q', Ok ())"
    by (auto split: outcome.splits)
  from Cons.IH [OF j(2)] j(1) show ?case by auto
qed simp

text \<open>An extraction that succeeds has found every entry of every directory that the walk gets to.\<close>

definition resolves :: "(Ino \<Rightarrow> Inode wire_result) \<Rightarrow> Inode \<Rightarrow> bool" where
  "resolves find_ino i \<longleftrightarrow> (\<forall>k. reaches find_ino i k \<longrightarrow> (\<forall>e\<in>set (dir_ents k). \<exists>j. find_ino (de_ino e) = Ok j))"

lemma resolves_step:
  assumes "\<forall>e\<in>set (dir_ents i). \<exists>j. find_ino (de_ino e) = Ok j \<and> resolves find_ino j"
  shows "resolves find_ino i"
  unfolding resolves_def
proof (intro allI impI)
  fix k
  assume "reaches find_ino i k"
  then show "\<forall>e\<in>set (dir_ents k). \<exists>j. find_ino (de_ino e) = Ok j"
    using assms by cases (auto simp: resolves_def)
qed

lemma extract_loop_resolves:
  assumes "extract_loop xh env n dir find_ino q m log = Some (log', Ok ())"
  shows "\<forall>de\<in>set q. resolves find_ino (wd_inode de)"
proof -
  have "\<forall>log'. a = (log', Ok ()) \<longrightarrow> (\<forall>de\<in>set q. resolves find_ino (wd_inode de))"
    if "extract_loop xh env n dir find_ino q m log = Some a" for a
    using that
    apply (rule extract_loop.raw_induct [rotated, where P = "\<lambda>xh env n dir find_ino q m log a.
        \<forall>log'. a = (log', Ok ()) \<longrightarrow> (\<forall>de\<in>set q. resolves find_ino (wd_inode de))"])
    subgoal premises prems for loop xh env n dir find_ino q m log a
    proof (intro allI impI)
      fix log'
      assume a: "a = (log', Ok ())"
      show "\<forall>de\<in>set q. resolves find_ino (wd_inode de)"
      proof (cases q)
        case (Cons de rest)
        obtain q' r where w: "add_dir_entries find_ino rest de = (q', r)" by (cases "add_dir_entries find_ino rest de")
        from prems(2) a Cons w have r: "r = Ok ()" by (cases r) auto
        with prems(2) a Cons w obtain log1 m' where "loop xh env n dir find_ino q' m' log1 = Some a"
          by (auto split: option.splits prod.splits outcome.splits)
        with prems(1) a have q': "\<forall>de\<in>set q'. resolves find_ino (wd_inode de)" by blast
        from push_entries_OkD [OF w [unfolded r add_dir_entries_alt]]
        have sub: "set rest \<subseteq> set q'" and found: "\<forall>e\<in>set (dir_ents (wd_inode de)).
            \<exists>j. find_ino (de_ino e) = Ok j \<and> child_entry de e j \<in> set q'" by blast+
        from found q' have "resolves find_ino (wd_inode de)"
          by (intro resolves_step) (fastforce simp: child_entry_def)
        with sub q' Cons show ?thesis by auto
      qed simp
    qed
    done
  with assms show ?thesis by blast
qed

lemma extract_rootfs_resolves:
  assumes "extract_rootfs xh env n (Ok im) tag dir = Some (log, Ok ())" and "PuzzleFS_open env im tag None = Ok pfs"
    and "wf_pfs pfs" and "path_to (pfs_view pfs) ns i" and "e \<in> set (dir_ents i)"
  shows "pfs_view pfs (de_ino e) \<noteq> None"
proof -
  from path_to_reaches [OF assms(4,3)] obtain r where r: "PuzzleFS_find_inode pfs 1 = Ok r" "reaches (PuzzleFS_find_inode pfs) r i"
    by blast
  from assms(1) obtain log1 where "extract_loop xh env n dir (PuzzleFS_find_inode pfs) [root_entry (pfs_oci pfs) r] Map.empty log1 =
      Some (log, Ok ())"
    by (cases "x_result xh [] (CreateDirAll dir)") (auto simp: extract_rootfs_def assms(2) walk_start_def r(1) perform_def)
  from extract_loop_resolves [OF this] r(2) assms(5) obtain j where "PuzzleFS_find_inode pfs (de_ino e) = Ok j"
    by (auto simp: resolves_def)
  with pfs.find_view [OF assms(3), of "de_ino e"] show ?thesis by (cases "pfs_view pfs (de_ino e)") auto
qed

end
