(* ===== verification/Mounted_Tree.thy ===== *)
theory Mounted_Tree
  imports Delta_History Fuse
begin

text \<open>
  What the kernel gets from the FUSE server for an inode that shows a node of a host tree: the attributes, the
  bytes of files and the targets of symbolic links.
\<close>

definition fuse_kind :: "file_type \<Rightarrow> FileType option" where
  "fuse_kind t =
     (case t of
        FtDir \<Rightarrow> Some Directory | FtFile \<Rightarrow> Some RegularFile | FtFifo \<Rightarrow> Some NamedPipeType | FtChar \<Rightarrow> Some CharDevice
      | FtBlock \<Rightarrow> Some BlockDevice | FtSymlink \<Rightarrow> Some Symlink | FtSocket \<Rightarrow> Some Socket | FtOther \<Rightarrow> None)"

definition serves_node :: "'o env \<Rightarrow> 'o Fuse \<Rightarrow> FileAttr \<Rightarrow> node \<Rightarrow> bool" where
  "serves_node env fs attr n \<longleftrightarrow>
     fuse_kind (n_type n) = Some (fa_kind attr) \<and> fa_uid attr = n_uid n \<and> fa_gid attr = n_gid n \<and> fa_perm attr = n_permissions n \<and>
     (n_type n = FtFile \<longrightarrow> fa_size attr = of_nat (length (n_data n)) \<and>
        (\<forall>ofl fits offset sz. 0 \<le> offset \<and> offset < 2 ^ 63 \<longrightarrow>
           fuse_reply_to env ofl fits fs (Read (fa_ino attr) offset sz) =
             Some (Ok (ReplyData (take (unat sz) (drop (nat offset) (n_data n))))))) \<and>
     (\<forall>target. n_type n = FtSymlink \<and> Option.bind (n_additional n) ia_symlink_target = Some target \<longrightarrow>
        (\<forall>ofl fits. fuse_reply_to env ofl fits fs (Readlink (fa_ino attr)) = Some (Ok (ReplyData target))))"

lemma reads_served:
  assumes "PuzzleFS_find_inode (fu_pfs fs) ino = Ok i" and "reads_with env (pfs_oci (fu_pfs fs)) (pfs_verity_data (fu_pfs fs)) i data"
    and "0 \<le> offset" and "offset < 2 ^ 63"
  shows "fuse_reply_to env ofl fits fs (Read ino offset sz) = Some (Ok (ReplyData (take (unat sz) (drop (nat offset) data))))"
proof -
  have "nat offset + unat sz < 2 ^ 64" using assms(3,4) unat_u32_bound [of sz] by simp
  moreover define out where "out = take (unat sz) (drop (nat offset) data)"
  ultimately have "file_read env (pfs_oci (fu_pfs fs)) i (nat offset) (replicate (unat sz) 0) (pfs_verity_data (fu_pfs fs)) =
      Ok (length out, out @ replicate (unat sz - length out) 0)"
    using assms(2) unfolding reads_with_def by blast
  with assms(1,3) show ?thesis unfolding out_def [symmetric] by (simp add: fuse_read_def)
qed

lemma shown_mode:
  assumes "shows_node env im vd i n" and "n_type n \<noteq> FtOther"
  shows "\<exists>k. mode_to_fuse_type i = Ok k \<and> fuse_kind (n_type n) = Some k"
    "n_type n \<noteq> FtFile \<Longrightarrow> file_len i = Err (from_errno ENOTDIR)"
  using assms
  by (cases "n_type n"; cases "i_mode i"; simp add: shows_node_def mode_to_fuse_type_def fuse_kind_def dir_entries_def file_len_def)+

lemma shows_served:
  assumes find: "PuzzleFS_find_inode (fu_pfs fs) (i_ino i) = Ok i"
    and shown: "shows_node env (pfs_oci (fu_pfs fs)) (pfs_verity_data (fu_pfs fs)) i n" and "n_type n \<noteq> FtOther"
  shows "\<exists>attr. fuse_getattr fs (i_ino i) = Ok attr \<and> serves_node env fs attr n"
proof -
  from shown_mode(1) [OF shown assms(3)] obtain k where k: "mode_to_fuse_type i = Ok k" "fuse_kind (n_type n) = Some k" by blast
  have attrs: "i_uid i = n_uid n" "i_gid i = n_gid n" "i_permissions i = n_permissions n" "i_additional i = n_additional n"
    using shown by (simp_all add: shows_node_def)
  obtain len where len: "unwrap_or (file_len i) 0 = Ok len" "n_type n = FtFile \<Longrightarrow> len = of_nat (length (n_data n))"
    using shown shown_mode(2) [OF shown assms(3)] by (cases "n_type n = FtFile") (auto simp: shows_node_def)
  let ?attr = "\<lparr>fa_ino = i_ino i, fa_size = len, fa_blocks = 0, fa_kind = k, fa_perm = i_permissions i, fa_nlink = 0,
    fa_uid = i_uid i, fa_gid = i_gid i, fa_rdev = 0, fa_blksize = 0, fa_flags = 0\<rparr>"
  have "fuse_getattr fs (i_ino i) = Ok ?attr" using find k(1) len(1) by (simp add: fuse_getattr_def)
  moreover have "serves_node env fs ?attr n"
    unfolding serves_node_def
  proof (intro conjI allI impI)
    show "fa_size ?attr = of_nat (length (n_data n))" if "n_type n = FtFile" using len(2) that by simp
    show "fuse_reply_to env ofl fits fs (Read (fa_ino ?attr) offset sz) =
        Some (Ok (ReplyData (take (unat sz) (drop (nat offset) (n_data n)))))"
      if "n_type n = FtFile" "0 \<le> offset \<and> offset < 2 ^ 63" for ofl fits offset sz
      using reads_served [OF find] shown that by (simp add: shows_node_def)
    show "fuse_reply_to env ofl fits fs (Readlink (fa_ino ?attr)) = Some (Ok (ReplyData target))"
      if "n_type n = FtSymlink \<and> Option.bind (n_additional n) ia_symlink_target = Some target" for ofl fits target
      using find k that attrs(4) by (auto simp: fuse_readlink_def fuse_kind_def)
  qed (use k(2) attrs in simp_all)
  ultimately show ?thesis by blast
qed

text \<open>Resolving a path component by component leads to the inode that \<open>lookup\<close> finds.\<close>

lemma resolve_lookup:
  assumes wf: "wf_pfs (fu_pfs fs)" and root: "PuzzleFS_lookup (fu_pfs fs) (abs_path []) = Ok (Some d)" "fuse_getattr fs (i_ino d) = Ok a"
  shows "kernel_resolve fs a names = Ok attr \<longleftrightarrow>
    (\<exists>i. PuzzleFS_lookup (fu_pfs fs) (abs_path names) = Ok (Some i) \<and> fuse_getattr fs (i_ino i) = Ok attr)"
proof -
  from root(1) have one: "PuzzleFS_find_inode (fu_pfs fs) 1 = Ok d"
    by (auto simp: PuzzleFS_lookup_def lookup_path_def abs_path_def list_get_def)
  with wf have "i_ino d = 1" by (auto simp: pfs.find_Ok_iff pfs.view_ino)
  with root(2) fuse_getattr_ino [OF wf root(2)] have a: "fa_ino a = 1" "fuse_getattr fs 1 = Ok a" by simp_all
  have "PuzzleFS_lookup (fu_pfs fs) (abs_path names) = lookup_loop (PuzzleFS_find_inode (fu_pfs fs)) d (map Normal names)"
    using one by (simp add: PuzzleFS_lookup_def lookup_path_def abs_path_def list_get_def)
  with kernel_resolve_iff [OF wf, of a d names attr] one a show ?thesis by simp
qed

lemma PuzzleFS_open_unverified: "PuzzleFS_open env im tag None = Ok pfs \<Longrightarrow> pfs_verity_data pfs = None"
  by (auto simp: PuzzleFS_open_def split: if_splits)

text \<open>A server of the tree that an image shows.\<close>

lemma tree_served:
  assumes host: "host_shows h open_file rootfs T" and tree: "image_tree env pfs h rootfs T nm gone inodes layers"
    and rn: "\<forall>ms. rootfs @ map Normal ms \<in> set (t_dirs T) \<longrightarrow> map de_name (gone (rootfs @ map Normal ms)) = rn ms"
    and "pfs_verity_data pfs = None" and fs: "fu_pfs fs = pfs"
  shows "\<exists>root. fuse_getattr fs 1 = Ok root \<and>
    (\<forall>ns. rootfs @ map Normal ns \<in> t_paths rootfs T \<and> t_type T (rootfs @ map Normal ns) \<noteq> FtOther \<longrightarrow>
       (\<exists>attr. kernel_resolve fs root ns = Ok attr \<and> serves_node env fs attr (node_at h T (rn ns) (rootfs @ map Normal ns)))) \<and>
    (\<forall>ns attr. kernel_resolve fs root ns = Ok attr \<longrightarrow> rootfs @ map Normal ns \<in> t_paths rootfs T)"
proof -
  note wf = image_treeD(1) [OF tree] and walk = image_treeD(3) [OF tree] and lookup = tree_lookup_iff [OF tree]
  have served: "\<exists>i attr. PuzzleFS_lookup pfs (abs_path ns) = Ok (Some i) \<and> fuse_getattr fs (i_ino i) = Ok attr \<and>
      serves_node env fs attr (node_at h T (rn ns) (rootfs @ map Normal ns))"
    if p: "rootfs @ map Normal ns \<in> t_paths rootfs T" "t_type T (rootfs @ map Normal ns) \<noteq> FtOther" for ns
  proof -
    from image_treeD(7) [OF tree] p(1) obtain i where i: "i \<in> set inodes"
      "represents_over gone h T nm (image_chunk_data (env, pfs_oci pfs, None)) (rootfs @ map Normal ns) i" by blast
    have "pfs_view pfs (i_ino i) = Some i"
      using image_treeD(6) [OF tree] i(1) represents_not_whiteout [OF i(2)] by (simp add: view_over_def)
    then have "PuzzleFS_find_inode (fu_pfs fs) (i_ino i) = Ok i" by (simp add: fs pfs.find_view [OF wf])
    from shows_served [OF this, of env "node_at h T (rn ns) (rootfs @ map Normal ns)"] tree_node_shown [OF host tree rn p(1) i(2)] p(2) assms(4)
    obtain attr where "fuse_getattr fs (i_ino i) = Ok attr" "serves_node env fs attr (node_at h T (rn ns) (rootfs @ map Normal ns))"
      by (auto simp: fs node_at_def)
    with i p(1) show ?thesis unfolding lookup by blast
  qed
  have "t_type T rootfs = FtDir" using walk_orderD(7) [OF walk, of rootfs] walk_orderD(9) [OF walk] by simp
  with served [of "[]"] obtain d root where root: "PuzzleFS_lookup pfs (abs_path []) = Ok (Some d)" "fuse_getattr fs (i_ino d) = Ok root" by auto
  note resolve = resolve_lookup [of fs, unfolded fs, OF wf root]
  from root(1) have "PuzzleFS_find_inode pfs 1 = Ok d" by (auto simp: PuzzleFS_lookup_def lookup_path_def abs_path_def list_get_def)
  with wf have "i_ino d = 1" by (auto simp: pfs.find_Ok_iff pfs.view_ino)
  with root(2) have "fuse_getattr fs 1 = Ok root" by simp
  moreover have "\<exists>attr. kernel_resolve fs root ns = Ok attr \<and> serves_node env fs attr (node_at h T (rn ns) (rootfs @ map Normal ns))"
    if "rootfs @ map Normal ns \<in> t_paths rootfs T \<and> t_type T (rootfs @ map Normal ns) \<noteq> FtOther" for ns
    using served [of ns] that unfolding resolve by blast
  moreover have "rootfs @ map Normal ns \<in> t_paths rootfs T" if "kernel_resolve fs root ns = Ok attr" for ns attr
    using that unfolding resolve lookup by blast
  ultimately show ?thesis by blast
qed

end
