(* ===== verification/Verity_History.thy ===== *)
theory Verity_History
  imports Delta_History Verity_Enable
begin

text \<open>
  An image of several layers that is read with fs-verity. Every chunk of every layer is recorded in the
  verity data, the builds and the deltas keep it so, and therefore the files of the image that
  \<open>enable_fs_verity\<close> accepted can be read with the digest of the manifest alone as the root of trust.
\<close>

section \<open>Every chunk is recorded\<close>

definition rootfs_recorded :: "Rootfs \<Rightarrow> bool" where
  "rootfs_recorded r \<longleftrightarrow> (\<forall>l\<in>set (rf_metadatas r). layer_digests l \<subseteq> fst ` set (rf_fs_verity_data r))"

lemma insert_all_keys: "fst ` set (insert_all btree_insert vd xs) = fst ` set vd \<union> fst ` set xs"
proof (induction xs arbitrary: vd)
  case (Cons x xs)
  then show ?case by (cases x) (simp add: insert_all_def btree_insert_keys)
qed (simp add: insert_all_def)

text \<open>The image under a tag.\<close>

definition tag_recorded :: "'o env \<Rightarrow> 'o Image \<Rightarrow> string \<Rightarrow> bool" where
  "tag_recorded env im tag \<longleftrightarrow>
     (\<exists>pfs r. PuzzleFS_open env im tag None = Ok pfs \<and> Rootfs_from_capnp (pfs_rootfs pfs) = Ok r \<and> rootfs_recorded r)"

lemma first_recorded:
  assumes "build_initial_rootfs h env rg C rootfs im tag = Some (Ok (desc, im''))"
    and laws: "\<forall>data. length (env_fs_verity_sha256 env data) = SHA256_BLOCK_SIZE" "env_lawful env" "messages_ok env" "registry_ok env rg"
    and cf: "initial_collision_free h env rg C rootfs im"
  shows "tag_recorded env im'' tag"
proof -
  from assms(1) laws(1) obtain m0 inodes im1 vd m1 where bd: "build_delta h env C rootfs im None [] m0 = Some (Ok (inodes, im1, vd, m1))"
    and wr: "write_rootfs env rg \<lparr>rf_metadatas = [inodes], rf_fs_verity_data = vd, rf_manifest_version = PUZZLEFS_IMAGE_MANIFEST_VERSION\<rparr>
       im1 m1 tag = Ok (desc, im'')" and m0: "rg_empty_manifest rg im = Ok m0"
    and wf: "wf_Rootfs \<lparr>rf_metadatas = [inodes], rf_fs_verity_data = vd, rf_manifest_version = PUZZLEFS_IMAGE_MANIFEST_VERSION\<rparr>"
    by (rule build_initial_rootfsE)
  from cf m0 bd write_rootfs_reads [OF wr laws(2-4) _ wf] build_delta_recorded [OF bd] show ?thesis
    by (auto simp: tag_recorded_def rootfs_recorded_def initial_collision_free_def)
qed

lemma delta_recorded:
  assumes "add_rootfs_delta h env rg C rootfs im tag base_layer = Some (Ok (desc, im''))" and "tag_recorded env im base_layer"
    and laws: "\<forall>data. length (env_fs_verity_sha256 env data) = SHA256_BLOCK_SIZE" "env_lawful env" "messages_ok env" "registry_ok env rg"
    and cf: "delta_collision_free h env rg C rootfs im base_layer"
  shows "tag_recorded env im'' tag"
proof -
  from assms(2) obtain pfs r where pfs: "PuzzleFS_open env im base_layer None = Ok pfs" "Rootfs_from_capnp (pfs_rootfs pfs) = Ok r"
    and r: "rootfs_recorded r" unfolding tag_recorded_def by blast
  from assms(1) pfs(1) obtain m0 r' inodes im' vd m' where "Rootfs_from_capnp (pfs_rootfs pfs) = Ok r'"
    and bd: "build_delta h env C rootfs im (Some pfs) [] m0 = Some (Ok (inodes, im', vd, m'))"
    and wr: "write_rootfs env rg (r'\<lparr>rf_metadatas := stacked inodes (rf_metadatas r'),
       rf_fs_verity_data := insert_all btree_insert (rf_fs_verity_data r') vd\<rparr>) im' m' tag = Ok (desc, im'')"
    and cf': "delta_collision_free h env rg C rootfs im base_layer \<longrightarrow> rootfs_collision_free env im' (r'\<lparr>rf_metadatas := stacked inodes (rf_metadatas r'),
       rf_fs_verity_data := insert_all btree_insert (rf_fs_verity_data r') vd\<rparr>)"
    by (rule add_rootfs_deltaE)
  from \<open>Rootfs_from_capnp (pfs_rootfs pfs) = Ok r'\<close> pfs(2) have r': "r' = r" by simp
  have "rf_manifest_version r = PUZZLEFS_IMAGE_MANIFEST_VERSION"
    using pfs(2) PuzzleFS_open_rootfs(2) [OF pfs(1)] by (auto simp: Rootfs_from_capnp_def)
  with write_rootfs_reads [OF wr laws(2-4) mp [OF cf' cf]] stacked_wf [OF pfs(2) bd laws(1)]
  have "\<exists>pfs'. PuzzleFS_open env im'' tag None = Ok pfs' \<and> Rootfs_from_capnp (pfs_rootfs pfs') =
      Ok (r\<lparr>rf_metadatas := stacked inodes (rf_metadatas r),
        rf_fs_verity_data := insert_all btree_insert (rf_fs_verity_data r) vd\<rparr>)" by (simp add: r')
  moreover have "rootfs_recorded (r\<lparr>rf_metadatas := stacked inodes (rf_metadatas r),
        rf_fs_verity_data := insert_all btree_insert (rf_fs_verity_data r) vd\<rparr>)"
    using r build_delta_recorded [OF bd] by (auto simp: rootfs_recorded_def stacked_def insert_all_keys split: if_splits)
  ultimately show ?thesis unfolding tag_recorded_def by blast
qed

lemma history_recorded:
  assumes "build_history env rg im tag h rootfs T rn past"
    and "\<forall>data. length (env_fs_verity_sha256 env data) = SHA256_BLOCK_SIZE" "messages_ok env" "registry_ok env rg"
  shows "tag_recorded env im tag"
  using assms(1)
proof (induction rule: build_history.induct)
  case (first h open_file rootfs T ds C im tag desc im')
  from first_recorded [OF first(6) assms(2) _ assms(3,4) first(7)] first(5) show ?case by (simp add: store_ok_def)
next
  case (delta im base_layer h rootfs T rn past h' open_file rootfs' T' ds C tag desc im' rn')
  from delta_recorded [OF delta.hyps(6) delta.IH assms(2) _ assms(3,4) delta.hyps(7)] delta.hyps(5) show ?case
    by (simp add: store_ok_def)
qed

section \<open>Reading with fs-verity\<close>

lemma verified_chunk_data:
  assumes "verity_le im im'" and prot: "\<forall>(d, v)\<in>set vd. protected env im' (hex_encode (env_hex env) d) v" and "verity_lawful env"
    and "br_digest b \<in> fst ` set vd" and "image_chunk_data (env, im, None) b = Some x"
  shows "image_chunk_data (env, im', Some vd) b = Some x"
proof -
  let ?name = "hex_encode (env_hex env) (br_digest b)"
  from assms(4) obtain v where v: "btree_get vd (br_digest b) = Some v"
    by (cases "map_of vd (br_digest b)") (auto simp: btree_get_def map_of_eq_None_iff)
  then have "(br_digest b, v) \<in> set vd" by (auto simp: btree_get_def dest: map_of_SomeD)
  with prot have "protected env im' ?name v" by auto
  from protected_opens [OF this assms(3)] obtain f where f: "im_blobs im' ?name = Some f" "open_raw_blob env im' ?name (Some v) = Ok f"
    by blast
  from assms(5) obtain whole where w: "blob_contents env im None b = Some whole"
    by (auto simp: image_chunk_data_def split: option.splits)
  then obtain g where g: "im_blobs im ?name = Some g"
    by (auto simp: blob_contents_def file_verity_of_def open_raw_blob_def split: option.splits)
  from assms(1) g obtain f' where "im_blobs im' ?name = Some f'" "bf_data f' = bf_data g" by (rule verity_leD)
  with f(1) have "bf_data f = bf_data g" by simp
  then have same: "file_contents env (br_compressed b) f = file_contents env (br_compressed b) g" by (simp add: file_contents_def)
  have "blob_contents env im' (Some vd) b = file_contents env (br_compressed b) f"
    by (simp add: blob_contents_def file_verity_of_def underlying_def v f(2))
  moreover have "blob_contents env im None b = file_contents env (br_compressed b) g"
    by (simp add: blob_contents_def file_verity_of_def open_raw_blob_def g)
  ultimately show ?thesis using assms(5) same by (simp add: image_chunk_data_def)
qed

text \<open>A file that reads without fs-verity reads with it, once all its chunks are recorded and protected.\<close>

lemma represents_reads_verified:
  assumes r: "represents_over gone h T nm (image_chunk_data (env, im, None)) p i" and ty: "t_type T p = FtFile"
    and len: "length (t_data T p) < 2 ^ 64" and le: "verity_le im im'"
    and prot: "\<forall>(d, v)\<in>set vd. protected env im' (hex_encode (env_hex env) d) v" "verity_lawful env"
    and rec: "layer_digests [i] \<subseteq> fst ` set vd"
  shows "reads_with env im' (Some vd) i (t_data T p)"
proof -
  from r ty obtain cs where cs: "i_mode i = InodeMode.File cs"
    "chunks_readable (image_chunk_data (env, im, None)) cs" "file_bytes (image_chunk_data (env, im, None)) cs = t_data T p"
    by (auto simp: represents_over_def)
  have "\<forall>k\<in>set cs. \<forall>x. image_chunk_data (env, im, None) (fc_blob k) = Some x \<longrightarrow>
      image_chunk_data (env, im', Some vd) (fc_blob k) = Some x"
  proof (intro ballI allI impI)
    fix k x
    assume "k \<in> set cs" and x: "image_chunk_data (env, im, None) (fc_blob k) = Some x"
    then have "br_digest (fc_blob k) \<in> layer_digests [i]" using cs(1) by simp
    with rec verified_chunk_data [OF le prot _ x] show "image_chunk_data (env, im', Some vd) (fc_blob k) = Some x" by blast
  qed
  from chunks_same [OF this cs(2)] cs(3) have "chunks_readable (image_chunk_data (env, im', Some vd)) cs"
    "file_bytes (image_chunk_data (env, im', Some vd)) cs = t_data T p" by simp_all
  from chunks_read [OF cs(1) this len] show ?thesis .
qed

lemma layer_digests_mem: "i \<in> set l \<Longrightarrow> layer_digests [i] \<subseteq> layer_digests l"
  by (auto simp: layer_digests_def)

lemma enabled_opens:
  assumes "enable_fs_verity env enable im tag manifest_root_hash = Ok im'" and "enable_lawful enable" "verity_lawful env" "index_stable env"
    and "PuzzleFS_open env im tag None = Ok pfs" and "Rootfs_from_capnp (pfs_rootfs pfs) = Ok r"
  obtains root_hash where "hex_decode (env_hex env) manifest_root_hash = Some root_hash"
    "PuzzleFS_open env im' tag (Some root_hash) = Ok \<lparr>pfs_oci = im', pfs_rootfs = pfs_rootfs pfs,
      pfs_verity_data = Some (rf_fs_verity_data r), pfs_manifest_verity = Some root_hash\<rparr>"
    "\<forall>(d, v)\<in>set (rf_fs_verity_data r). protected env im' (hex_encode (env_hex env) d) v" "verity_le im im'"
proof -
  from assms(1-4) obtain root_hash manifest_desc manifest rootfs_desc rootfs_verity rootfs vd where
    hash: "hex_decode (env_hex env) manifest_root_hash = Some root_hash"
    and found: "env_find_manifest_descriptor_with_tag env im' tag = Ok (Some manifest_desc)"
      "find_manifest env im' tag = Ok manifest" "find_rootfs_desc manifest = Ok rootfs_desc"
      "get_pfs_rootfs_verity env im' tag = Ok rootfs_verity"
    and prot: "protected env im' (d_digest manifest_desc) root_hash" "protected env im' (d_digest rootfs_desc) rootfs_verity"
    and vd: "RootfsReader_get_verity_data rootfs = Ok vd"
      "\<forall>(d, v)\<in>set vd. protected env im' (hex_encode (env_hex env) d) v"
    and rootfs: "open_rootfs_blob env im' tag None = Ok rootfs" and le: "verity_le im im'"
    and version: "RootfsReader_get_manifest_version rootfs = Ok PUZZLEFS_IMAGE_MANIFEST_VERSION"
    by (rule enable_fs_verityE)
  from open_rootfs_stable [OF PuzzleFS_open_rootfs(1) [OF assms(5)] le assms(4)] rootfs have c: "rootfs = pfs_rootfs pfs" by simp
  have "vd = rf_fs_verity_data r"
    using vd(1) assms(6) by (auto simp: c RootfsReader_get_verity_data_def Rootfs_from_capnp_def)
  with protected_image_opens [OF found rootfs version vd(1) assms(3) prot] vd(2) hash le c show thesis by (intro that) simp_all
qed

text \<open>The inodes of a tree show their nodes when chunks are read with the recorded digests.\<close>

lemma tree_node_verified:
  assumes host: "host_shows h open_file rootfs T" and tree: "image_tree env pfs h rootfs T nm gone inodes layers"
    and rn: "\<forall>ms. rootfs @ map Normal ms \<in> set (t_dirs T) \<longrightarrow> map de_name (gone (rootfs @ map Normal ms)) = rn ms"
    and oci: "pfs_oci pfs = im" and r: "Rootfs_from_capnp (pfs_rootfs pfs) = Ok r" "rootfs_recorded r" and le: "verity_le im im'"
    and prot: "\<forall>(d, v)\<in>set (rf_fs_verity_data r). protected env im' (hex_encode (env_hex env) d) v" and "verity_lawful env"
    and p: "rootfs @ map Normal ns \<in> t_paths rootfs T" and i: "i \<in> set inodes"
      "represents_over gone h T nm (image_chunk_data (env, im, None)) (rootfs @ map Normal ns) i"
  shows "shows_node env im' (Some (rf_fs_verity_data r)) i (node_at h T (rn ns) (rootfs @ map Normal ns))"
proof (rule represents_shows [OF i(2)])
  let ?p = "rootfs @ map Normal ns"
  show "t_type T ?p = FtDir \<longrightarrow> map de_name (gone ?p) = rn ns"
    using rn walk_orderD(7) [OF image_treeD(3) [OF tree] p] by simp
  from r(1) have layers: "rf_metadatas r = layers"
    using image_treeD(2) [OF tree] by (auto simp: Rootfs_from_capnp_def reader_layers_def)
  have "pfs_view pfs (i_ino i) = Some i"
    using image_treeD(6) [OF tree] i(1) represents_not_whiteout [OF i(2)] by (simp add: view_over_def)
  then have "layers_view layers (i_ino i) = Some i"
    by (simp add: pfs_view_def reader_view_def image_treeD(2) [OF tree] del: layers_view.simps)
  from layers_view_mem [OF this] obtain k where k: "k \<in> set layers" "i \<in> set k" by auto
  with r(2) layers layer_digests_mem [OF k(2)] have "layer_digests [i] \<subseteq> fst ` set (rf_fs_verity_data r)"
    by (auto simp: rootfs_recorded_def simp del: layer_digests_simps)
  moreover have "length (t_data T ?p) < 2 ^ 64" if "t_type T ?p = FtFile"
    using host_showsD(4) [OF host p that] unat_u64_bound by metis
  ultimately show "t_type T ?p = FtFile \<longrightarrow> length (t_data T ?p) < 2 ^ 64 \<and>
      reads_with env im' (Some (rf_fs_verity_data r)) i (t_data T ?p)"
    using represents_reads_verified [OF i(2) _ _ le prot assms(9)] by blast
qed

end
