(* ===== verification/Sample_Verity.thy ===== *)
theory Sample_Verity
  imports Cli_Properties Verity_History
begin

text \<open>The sample image with fs-verity enabled on all its files.\<close>

lemma sample_check:
  "check_fs_verity (tag_env c) f (pad32 (bf_data f)) = Ok ()"
  by (simp add: check_fs_verity_def SHA256_BLOCK_SIZE_def) (simp add: tag_env_def)

lemma sample_enable_file:
  assumes "im_blobs im name = Some f"
  shows "enable_verity_for_file sample_enable im name = Ok (im\<lparr>im_blobs := (im_blobs im)(name \<mapsto> f\<lparr>bf_verity := True\<rparr>)\<rparr>)"
proof (cases "bf_verity f")
  case True
  then have "f\<lparr>bf_verity := True\<rparr> = f" by simp
  with assms have "im\<lparr>im_blobs := (im_blobs im)(name \<mapsto> f\<lparr>bf_verity := True\<rparr>)\<rparr> = im" by (simp add: fun_upd_idem)
  with assms True show ?thesis by (simp add: enable_verity_for_file_def open_blob_def sample_enable_def)
qed (use assms in \<open>simp add: enable_verity_for_file_def open_blob_def sample_enable_def\<close>)

lemma sample_enable_check:
  assumes "im_blobs im name = Some f" and "v = pad32 (bf_data f)"
  shows "enable_and_check_verity_for_file (tag_env c) sample_enable im name v =
    Ok (im\<lparr>im_blobs := (im_blobs im)(name \<mapsto> f\<lparr>bf_verity := True\<rparr>)\<rparr>)"
  using sample_check [of c "f\<lparr>bf_verity := True\<rparr>"] assms
  by (simp add: enable_and_check_verity_for_file_def sample_enable_file [OF assms(1)] open_blob_def)

lemma sample_enable_chunks:
  assumes "\<forall>(d, v)\<in>set vd. \<exists>f. im_blobs im (base16_encode d) = Some f \<and> v = pad32 (bf_data f)"
  shows "\<exists>im'. enable_chunks (tag_env c) sample_enable im vd = Ok im'"
  using assms
proof (induction vd arbitrary: im)
  case (Cons x vd)
  obtain d v where x: "x = (d, v)" by (cases x)
  with Cons.prems obtain f where f: "im_blobs im (base16_encode d) = Some f" "v = pad32 (bf_data f)" by auto
  let ?im = "im\<lparr>im_blobs := (im_blobs im)(base16_encode d \<mapsto> f\<lparr>bf_verity := True\<rparr>)\<rparr>"
  have "\<forall>(d, v)\<in>set vd. \<exists>f. im_blobs ?im (base16_encode d) = Some f \<and> v = pad32 (bf_data f)"
    using Cons.prems f(1) by fastforce
  from Cons.IH [OF this] sample_enable_check [OF f, of c] show ?case
    by (auto simp: x Digest_to_string_def Digest_new_def base16_def)
qed simp

lemma built_verity_entry:
  "x \<in> set (rf_fs_verity_data built_rootfs) \<Longrightarrow> x = (pad32 [1, 2, 3], pad32 [1, 2, 3]) \<or> x = (pad32 [4, 5], pad32 [4, 5])"
  using btree_insert_subset [of "pad32 [4, 5]" "pad32 [4, 5]" "[(pad32 [1, 2, 3], pad32 [1, 2, 3])]"]
  by (auto simp: built_rootfs_def)

lemma built_verity_data:
  "RootfsReader_get_verity_data built_message = Ok (rf_fs_verity_data built_rootfs)"
  "cp_manifest_version built_message = PUZZLEFS_IMAGE_MANIFEST_VERSION"
proof -
  let ?vd = "rf_fs_verity_data built_rootfs"
  have "cp_manifest_version c = rf_manifest_version r \<and>
      cp_fs_verity_data c = Ptr (map (\<lambda>(d, v). \<lparr>cp_vdigest = Ptr d, cp_verity = Ptr v\<rparr>) (rf_fs_verity_data r))"
    if "Rootfs_fill_capnp r = Ok c" for r c
    using that by (auto simp: Rootfs_fill_capnp_def)
  from this [OF built_fill] have c: "cp_manifest_version built_message = rf_manifest_version built_rootfs"
    "cp_fs_verity_data built_message = Ptr (map (\<lambda>(d, v). \<lparr>cp_vdigest = Ptr d, cp_verity = Ptr v\<rparr>) ?vd)" by blast+
  then show "cp_manifest_version built_message = PUZZLEFS_IMAGE_MANIFEST_VERSION" by (simp add: built_rootfs_def)
  have "btree_invar ?vd" unfolding built_rootfs_def Rootfs.simps
    by (rule btree_invar_insert) (simp add: btree_invar_def)
  moreover have "\<forall>(d, v)\<in>set ?vd. length d = SHA256_BLOCK_SIZE \<and> length v = SHA256_BLOCK_SIZE"
    by (auto simp: SHA256_BLOCK_SIZE_def dest: built_verity_entry)
  ultimately show "RootfsReader_get_verity_data built_message = Ok ?vd"
    by (simp add: RootfsReader_get_verity_data_def c(2) verity_loop_map btree.insert_all_iter)
qed

lemma sample_enabled:
  "\<exists>im'. enable_fs_verity (tag_env built_message) sample_enable built_store ''t'' (base16_encode (pad32 [9])) = Ok im'"
proof -
  let ?env = "tag_env built_message" and ?n = "base16_encode (pad32 [9])"
  define im1 where "im1 = built_store\<lparr>im_blobs := (im_blobs built_store)(?n \<mapsto> \<lparr>bf_data = [9], bf_verity = True\<rparr>)\<rparr>"
  have blob: "im_blobs built_store ?n = Some \<lparr>bf_data = [9], bf_verity = False\<rparr>" by (simp add: built_store_def)
  have blob1: "im_blobs im1 ?n = Some \<lparr>bf_data = [9], bf_verity = True\<rparr>" by (simp add: im1_def)
  have found: "find_manifest ?env x ''t'' = Ok built_manifest" "env_find_manifest_descriptor_with_tag ?env x ''t'' = Ok (Some tagged_desc)"
    if "im_oci x = im_oci built_store" for x
    using that by (simp_all add: find_manifest_def tag_env_def built_store_def)
  have oci: "im_oci im1 = im_oci built_store" by (simp add: im1_def)
  have again: "im1\<lparr>im_blobs := (im_blobs im1)(?n \<mapsto> \<lparr>bf_data = [9], bf_verity = True\<rparr>)\<rparr> = im1" using blob1 by (simp add: fun_upd_idem)
  have "hex_decode base16 ?n = Some (pad32 [9])" using base16_lawful by (simp add: hex_lawful_def base16_def)
  moreover have "decode_to_slice base16 ?n = Ok (pad32 [9])"
    using decode_to_slice_encode [OF base16_lawful, of "pad32 [9]"] by (simp add: base16_def SHA256_BLOCK_SIZE_def)
  moreover have rd: "find_rootfs_desc built_manifest = Ok built_desc"
    by (simp add: find_rootfs_desc_def built_manifest_def built_desc_def)
  moreover have open1: "open_rootfs_blob ?env im1 ''t'' None = Ok built_message"
    using found(1) [OF oci] rd blob1
    by (simp add: open_rootfs_blob_def get_pfs_rootfs_def open_raw_blob_def RootfsReader_open_def built_desc_def) (simp add: tag_env_def)
  moreover have vd: "RootfsReader_get_verity_data built_message = Ok (rf_fs_verity_data built_rootfs)"
    "cp_manifest_version built_message = PUZZLEFS_IMAGE_MANIFEST_VERSION"
    by (rule built_verity_data)+
  moreover have "\<exists>im'. enable_chunks ?env sample_enable im1 (rf_fs_verity_data built_rootfs) = Ok im'"
  proof (rule sample_enable_chunks, rule ballI)
    fix x
    assume "x \<in> set (rf_fs_verity_data built_rootfs)"
    from built_verity_entry [OF this] show "case x of (d, v) \<Rightarrow> \<exists>f. im_blobs im1 (base16_encode d) = Some f \<and> v = pad32 (bf_data f)"
      using pad32_nine pad32_differ by (auto simp: im1_def built_store_def built_image_def base16_pad32_inj)
  qed
  ultimately show ?thesis
    using found [OF refl] found [OF oci] sample_enable_check [OF blob, of "pad32 [9]" built_message]
      sample_enable_check [OF blob1, of "pad32 [9]" built_message] sample_enable_file [OF blob1] blob blob1 again
    by (simp add: enable_fs_verity_def get_image_manifest_fd_def open_raw_blob_def tagged_desc_def built_desc_def im1_def [symmetric]
        PuzzleFS_open_def RootfsReader_get_manifest_version_def get_pfs_rootfs_def get_pfs_rootfs_verity_def built_manifest_def tag_manifest_def)
qed

end
