(* ===== verification/Spec2Isabelle.thy ===== *)
theory Spec2Isabelle
  imports Format_Properties Fuse_Properties Builder_Properties Extractor_Properties Cli_Properties Delta_Properties Roundtrip Mounted_Tree Sample_Verity
begin

text \<open>
  \<^bold>\<open>PuzzleFS, a verification library.\<close>

  PuzzleFS is a read-only file system for container images. A builder scans a directory of the host, cuts
  the concatenation of its files into content-defined chunks, stores the chunks in a content-addressed
  OCI image directory and writes the metadata as a stack of inode layers in a Cap'n Proto message. The
  reader opens such an image, finds inodes by binary search in the layers and serves files through
  FUSE; the extractor writes an image back to a directory; with fs-verity every file of the image
  can be tied to one digest given on the command line.

  \<^bold>\<open>Parts and theories.\<close> Paths are below \<open>src/puzzlefs-lib/src\<close> unless they say otherwise.

  \<^item> \<open>Prelude\<close>: outcomes (value, error, panic), checked arithmetic, lists, words; \<open>Btree_Map\<close>: sorted
    association lists for \<open>BTreeMap\<close>, behind the locale \<open>ordered_map\<close>; \<open>Wire_Error\<close>: \<open>format/error.rs\<close>.
  \<^item> \<open>Metadata\<close>, \<open>Capnp_Codec\<close>, \<open>Rootfs_Index\<close>, \<open>Digest\<close>: \<open>format/types.rs\<close> and \<open>format/metadata.capnp\<close>,
    that is the inode types and their constructors, the codec of every message type, the search for
    an inode in the layers (behind the locale \<open>inode_store\<close>) and the textual forms of digests.
  \<^item> \<open>Compression\<close>: \<open>compression.rs\<close>, \<open>compression/noop.rs\<close>, \<open>compression/zstd_seekable_wrapper.rs\<close>, both
    decompressors behind the locale \<open>decompressor\<close>, and the zstd compressor with the loops that feed and end
    the stream of the library.
  \<^item> \<open>Image_Store\<close>, \<open>Image_Dir\<close>: \<open>oci.rs\<close>, \<open>oci/media_types.rs\<close>, \<open>fsverity_helpers.rs\<close>; an image is a record
    of its blobs and of the state of the \<open>ocidir\<close> crate. Reading a chunk is the locale \<open>chunk_source\<close>.
  \<^item> \<open>Host_Path\<close>: \<open>std::path\<close> as lists of components.
  \<^item> \<open>File_Reader\<close>, \<open>Pfs\<close>, \<open>Walk\<close>: \<open>reader/puzzlefs.rs\<close> and \<open>reader/walk.rs\<close>.
  \<^item> \<open>Fuse\<close>, \<open>Mounting\<close>: \<open>reader/fuse.rs\<close>, one definition for every method of the \<open>Filesystem\<close> trait and one
    for every helper, and \<open>reader.rs\<close>.
  \<^item> \<open>Fs_Stream\<close>, \<open>Chunking\<close>, \<open>Builder\<close>: \<open>builder/filesystem.rs\<close>, \<open>common.rs\<close> and \<open>builder.rs\<close>: the reader that
    chains the files, \<open>process_chunks\<close>, the scan of the host (\<open>start_state\<close>, \<open>visit_dir\<close>, \<open>visit_entry\<close>),
    rendering and writing a layer, and \<open>enable_fs_verity\<close>. The locale \<open>scan_invariant\<close> carries an invariant
    through a scan; it is interpreted for the freshness of inode numbers and for the types of the
    collected files.
  \<^item> \<open>Build_Tree\<close>, \<open>Build_Image\<close>, \<open>Verity_Enable\<close>: an abstract host tree, what it means that a layer
    represents it, and the simulation of the scan; the written image as it opens again; the files
    protected by fs-verity.
  \<^item> \<open>Delta_Image\<close>, \<open>Snapshot\<close>, \<open>Delta_History\<close>: what \<open>add_rootfs_delta\<close> writes over an existing image; what is seen of
    a tree, and that a layer determines it; and the histories of an image, that is a first build followed by
    deltas (the inductive relation \<open>build_history\<close>), with the trees that a delta can reach (\<open>delta_ok\<close>) and
    the earlier states, to which a delta must not return. \<open>Verity_History\<close>: every chunk of every layer of a
    history is recorded in the verity data. \<open>Mounted_Tree\<close>: what the FUSE server replies for the nodes of a tree.
  \<^item> \<open>Extractor\<close>, \<open>Extract_Tree\<close>: \<open>extractor.rs\<close> with the log of its host operations, and the operations
    that a well-formed image needs; \<open>Roundtrip\<close>: these operations for an image that builds and deltas made of
    a host tree, and what an extraction that succeeds has found.
  \<^item> \<open>Cli\<close>: \<open>exe/src/main.rs\<close> (\<open>src/exe/src/main.rs\<close>), one definition for every subcommand.
  \<^item> \<open>Sample_Image\<close>, \<open>Sample_Host\<close>, \<open>Sample_Delta\<close>, \<open>Sample_Verity\<close>: concrete images and hosts on which the witnesses evaluate the model.

  \<^bold>\<open>What is shown.\<close>

  \<^item> \<open>Format_Properties\<close>: messages round-trip and decoding is safe on arbitrary ones; the layered search
    refines the stack of layers with whiteouts, and stays in bounds on unsorted layers.
  \<^item> \<open>Store_Properties\<close>: what \<open>put_blob\<close> writes is read back; compressing ends; the store stays content-addressed; verified
    reads return only bytes of files that measure to the recorded digest, and where the recorded
    digest is wrong.
  \<^item> \<open>Reader_Properties\<close>, \<open>Fuse_Properties\<close>: reads return the slice of the file; lookup and the kernel's
    component-wise resolution agree; the walk yields every path once; paging through a directory is
    complete.
  \<^item> \<open>Builder_Properties\<close>: the chunk lists give back the files; a first layer represents the host tree
    and the built image shows it to the reader; every layer, deltas included, is of the type the
    reader requires; enabling fs-verity protects the image.
  \<^item> \<open>Delta_Properties\<close>: after a first build and a sequence of deltas that the format can express the image shows the
    last tree, with all attributes and links; and three changes that a delta cannot express: a removed name that comes back, a tree that has the
    layer of an earlier one, and a removed hard link of a file that is kept.
  \<^item> \<open>Extractor_Properties\<close>: no image makes the extractor name a path outside its target, and a
    well-formed image is extracted completely.
  \<^item> \<open>Cli_Properties\<close>: what is mounted was opened with the digest given; failures reach the waiting
    process; the digest that \<open>build\<close> prints is the one that protects the image.
  \<^item> This theory: an image made by builds and deltas that removed nothing is extracted to its last tree; an
    image from which a name was removed can neither be listed nor extracted; a mounted image serves its last tree
    to the kernel; and after \<open>enable_fs_verity\<close> the digest of the manifest is enough to read the files of the last tree.

  \<^bold>\<open>Parameters and laws.\<close> The record \<open>env\<close> holds what the crates compute: hex, SHA-256, the fs-verity digest
  and its measurement, the seekable zstd stream, the byte layout of Cap'n Proto messages, the index of
  \<open>ocidir\<close>. What is relied on is named and documented behaviour: \<open>hex_lawful\<close>, \<open>env_lawful\<close>, \<open>zstd_lawful\<close>
  (which follows from \<open>cstream_lawful\<close>), \<open>verity_lawful\<close>, \<open>messages_ok\<close>, \<open>registry_ok\<close>, \<open>enable_lawful\<close>, \<open>index_stable\<close>, \<open>chunker_cuts\<close> (the chunks
  concatenate to the stream), \<open>values_ok\<close> (\<open>into_values\<close> permutes); collisions of SHA-256 are excluded
  by hypotheses about the data at hand: the stored blobs, the chunks of the host tree (\<open>store_ok\<close>) and the
  one serialized rootfs (\<open>initial_collision_free\<close>, \<open>delta_collision_free\<close>). Every such hypothesis is met by the sample environments. The
  host is a record of functions; for the extractor and the command line these depend on the
  operations performed so far.

  \<^bold>\<open>Loops.\<close> Loops over a list are structural recursions. A loop that need not end (the cutting of a chunk, the
  copy of a reader, the walk, the extraction, reading a stream to its end) is a \<open>partial_function\<close> in
  the option monad, where \<open>None\<close> is divergence, and the theorems about them conclude with \<open>Some\<close>.
  Arithmetic on counters goes through checked operations that panic on overflow.

  \<^bold>\<open>Not modelled.\<close> \<open>lib.rs\<close>, \<open>format.rs\<close> and \<open>build.rs\<close> have no logic; the kernel driver and the tests are outside. Of
  \<open>oci.rs\<close>, \<open>get_index\<close> and \<open>get_empty_manifest\<close> are single calls of \<open>ocidir\<close>. Message texts, backtraces
  and log lines are dropped, as are the arguments that the FUSE methods ignore. The parsing of the
  command line is clap's. The image left behind by a command that fails half-way is not described,
  except for the operations in the logs. Files do not change while they are read.
\<close>

section \<open>From the builder to the extractor\<close>





section \<open>From the builder to the kernel\<close>



section \<open>From the builder to a verified mount\<close>

text \<open>
  C7: The digest of the manifest is a root of trust for the whole image. After a first build, a sequence of deltas and
  a successful \<open>enable_fs_verity\<close>, the image opens when this digest is demanded; lookups find exactly the
  paths of the last tree; every inode found has the type and the attributes of the path; and reads of a file,
  which now fail for every chunk without a recorded and matching digest, return its bytes. The deltas are
  those that an image can hold: removed names do not come back, hard links are kept together, inode numbers
  do not run out, and no delta goes back to an earlier state, unless it is also the current one.
\<close>

theorem verified_history_shows_tree:
  assumes "build_history env rg im tag h rootfs T rn past"
    and "\<forall>data. length (env_fs_verity_sha256 env data) = SHA256_BLOCK_SIZE" and "messages_ok env" and "registry_ok env rg"
    and "enable_fs_verity env enable im tag manifest_root_hash = Ok im'"
    and "enable_lawful enable" and "verity_lawful env" and "index_stable env"
  shows "\<exists>root_hash pfs vd. hex_decode (env_hex env) manifest_root_hash = Some root_hash \<and>
    PuzzleFS_open env im' tag (Some root_hash) = Ok pfs \<and> pfs_verity_data pfs = Some vd \<and>
    (\<forall>ns. (\<exists>i. PuzzleFS_lookup pfs (abs_path ns) = Ok (Some i)) \<longleftrightarrow> rootfs @ map Normal ns \<in> t_paths rootfs T) \<and>
    (\<forall>ns i. PuzzleFS_lookup pfs (abs_path ns) = Ok (Some i) \<longrightarrow>
       shows_node env im' (Some vd) i (node_at h T (rn ns) (rootfs @ map Normal ns)))"
proof -
  from history_shows [OF assms(1-4)] obtain pfs nm gone inodes rest open_file where
    pfs: "PuzzleFS_open env im tag None = Ok pfs" "pfs_oci pfs = im" and host: "host_shows h open_file rootfs T"
    and tree: "image_tree env pfs h rootfs T nm gone inodes (inodes # rest)"
    and rn: "\<forall>ms. rootfs @ map Normal ms \<in> set (t_dirs T) \<longrightarrow> map de_name (gone (rootfs @ map Normal ms)) = rn ms"
    unfolding tag_shows_def by blast
  from history_recorded [OF assms(1-4)] pfs(1) obtain r where
    r: "Rootfs_from_capnp (pfs_rootfs pfs) = Ok r" "rootfs_recorded r" unfolding tag_recorded_def by auto
  from assms(5-8) pfs(1) r(1) obtain root_hash where hash: "hex_decode (env_hex env) manifest_root_hash = Some root_hash"
    and open': "PuzzleFS_open env im' tag (Some root_hash) = Ok \<lparr>pfs_oci = im', pfs_rootfs = pfs_rootfs pfs,
      pfs_verity_data = Some (rf_fs_verity_data r), pfs_manifest_verity = Some root_hash\<rparr>" (is "_ = Ok ?pfs")
    and prot: "\<forall>(d, v)\<in>set (rf_fs_verity_data r). protected env im' (hex_encode (env_hex env) d) v" and le: "verity_le im im'"
    by (rule enabled_opens)
  have same: "PuzzleFS_lookup ?pfs = PuzzleFS_lookup pfs"
    by (simp add: fun_eq_iff PuzzleFS_lookup_def PuzzleFS_find_inode_def [abs_def])
  note lookup = tree_lookup_iff [OF tree, folded same]
  have "shows_node env im' (Some (rf_fs_verity_data r)) i (node_at h T (rn ns) (rootfs @ map Normal ns))"
    if "PuzzleFS_lookup ?pfs (abs_path ns) = Ok (Some i)" for ns i
    using that unfolding lookup pfs(2)
    by (elim conjE) (rule tree_node_verified [OF host tree rn pfs(2) r le prot assms(7)])
  moreover have "(\<exists>i. PuzzleFS_lookup ?pfs (abs_path ns) = Ok (Some i)) \<longleftrightarrow> rootfs @ map Normal ns \<in> t_paths rootfs T" for ns
    unfolding lookup using image_treeD(7) [OF tree] by blast
  ultimately show ?thesis using hash open' by (intro exI [of _ root_hash] exI [of _ ?pfs] exI [of _ "rf_fs_verity_data r"]) simp
qed

theorem verified_history_shows_tree_witness:
  "\<exists>im' pfs vd i. enable_fs_verity (tag_env built_message) sample_enable built_store ''t'' (base16_encode (pad32 [9])) = Ok im' \<and>
    PuzzleFS_open (tag_env built_message) im' ''t'' (Some (pad32 [9])) = Ok pfs \<and> pfs_verity_data pfs = Some vd \<and>
    PuzzleFS_lookup pfs (abs_path [[98]]) = Ok (Some i) \<and>
    file_read (tag_env built_message) im' i 2 (replicate 2 0) (Some vd) = Ok (2, [3, 4])"
proof -
  let ?env = "tag_env built_message"
  from sample_enabled obtain im' where en: "enable_fs_verity ?env sample_enable built_store ''t'' (base16_encode (pad32 [9])) = Ok im'" ..
  note hist = build_history.first [OF sample_host_shows host_tree_small sample_host_values sample_host_cuts sample_store_ok
      sample_build sample_build_laws(1)]
  from verified_history_shows_tree [OF hist sample_build_laws(2) tag_env_laws(2,3) en sample_enable_lawful tag_env_verity_laws(2,3)]
  obtain root_hash pfs vd where hash: "hex_decode (env_hex ?env) (base16_encode (pad32 [9])) = Some root_hash"
    and pfs: "PuzzleFS_open ?env im' ''t'' (Some root_hash) = Ok pfs" "pfs_verity_data pfs = Some vd"
    and ex: "\<forall>ns. (\<exists>i. PuzzleFS_lookup pfs (abs_path ns) = Ok (Some i)) \<longleftrightarrow> host_root @ map Normal ns \<in> t_paths host_root host_tree"
    and rd: "\<forall>ns i. PuzzleFS_lookup pfs (abs_path ns) = Ok (Some i) \<longrightarrow>
      shows_node ?env im' (Some vd) i (node_at sample_host host_tree [] (host_root @ map Normal ns))"
    by (elim exE conjE) (rule that, assumption+)
  have "root_hash = pad32 [9]" using hash base16_lawful by (simp add: hex_lawful_def base16_def)
  moreover from ex [rule_format, of "[[98]]"] obtain i where i: "PuzzleFS_lookup pfs (abs_path [[98]]) = Ok (Some i)"
    unfolding host_entries by auto
  moreover have "reads_with ?env im' (Some vd) i [1, 2, 3, 4, 5]"
    using rd [rule_format, OF i] by (simp add: shows_node_def node_at_def host_tree_def host_root_def host_md_def)
  from this [unfolded reads_with_def, rule_format, of 2 2]
  have "file_read ?env im' i 2 (replicate 2 0) (Some vd) = Ok (2, [3, 4])" by simp
  ultimately show ?thesis using en pfs by blast
qed

end
